(* ===== verification/Prelude.thy ===== *)
theory Prelude
  imports Main "HOL-Library.AList"
begin

text \<open>
  The vocabulary every component shares.

  \<^item> Go strings and byte slices are char lists (a \<open>char\<close> is one byte).
  \<^item> A run-time panic is a value of type \<open>panic\<close>; an operation that can panic returns
    \<open>panic + 'a\<close> (\<open>Inl\<close> the panic), and \<open>sum_bind\<close> sequences such operations.
  \<^item> A Go map is an association list with distinct keys (\<open>gm_wf\<close>). The order of the
    list is the order in which one \<^verbatim>\<open>for range\<close> over the map happens to visit it: Go leaves
    that order open, and a theorem about every well-formed list covers every order.
  \<^item> \<open>sum_simps\<close> and \<open>gm_simps\<close> are the rewrite collections of the two.
\<close>

named_theorems sum_simps \<open>equations for sequencing operations that can panic or fail\<close>
named_theorems gm_simps \<open>lookup, keys and size of Go maps after an update or a delete\<close>

type_synonym bytes = string

datatype panic =
    SendOnClosedChannel
  | CloseOfClosedChannel
  | CloseOfNilChannel
  | NilMapWrite
  | NilDereference

subsection \<open>Sequencing\<close>

definition sum_bind :: "'e + 'a \<Rightarrow> ('a \<Rightarrow> 'e + 'b) \<Rightarrow> 'e + 'b" where
  "sum_bind x f = (case x of Inl e \<Rightarrow> Inl e | Inr a \<Rightarrow> f a)"

lemma sum_bind_Inl [simp, sum_simps]: "sum_bind (Inl e) f = Inl e"
  by (simp add: sum_bind_def)

lemma sum_bind_Inr [simp, sum_simps]: "sum_bind (Inr a) f = f a"
  by (simp add: sum_bind_def)

lemma sum_bind_eq_Inr [sum_simps]:
  "sum_bind x f = Inr b \<longleftrightarrow> (\<exists>a. x = Inr a \<and> f a = Inr b)"
  by (cases x) auto

lemma sum_bind_eq_Inl [sum_simps]:
  "sum_bind x f = Inl e \<longleftrightarrow> x = Inl e \<or> (\<exists>a. x = Inr a \<and> f a = Inl e)"
  by (cases x) auto

lemma sum_bind_split:
  "P (sum_bind x f) \<longleftrightarrow> (\<forall>e. x = Inl e \<longrightarrow> P (Inl e)) \<and> (\<forall>a. x = Inr a \<longrightarrow> P (f a))"
  by (cases x) auto

definition sum_map :: "('a \<Rightarrow> 'b) \<Rightarrow> 'e + 'a \<Rightarrow> 'e + 'b" where
  "sum_map f x = (case x of Inl e \<Rightarrow> Inl e | Inr a \<Rightarrow> Inr (f a))"

lemma sum_map_simps [simp, sum_simps]:
  "sum_map f (Inl e) = Inl e"
  "sum_map f (Inr a) = Inr (f a)"
  by (simp_all add: sum_map_def)

lemma sum_map_eq_Inr [sum_simps]: "sum_map f x = Inr b \<longleftrightarrow> (\<exists>a. x = Inr a \<and> f a = b)"
  by (cases x) auto

subsection \<open>Go maps\<close>

type_synonym ('k, 'v) gomap = "('k \<times> 'v) list"

abbreviation gm_get :: "('k, 'v) gomap \<Rightarrow> 'k \<Rightarrow> 'v option" where
  "gm_get m k \<equiv> map_of m k"

abbreviation gm_put :: "'k \<Rightarrow> 'v \<Rightarrow> ('k, 'v) gomap \<Rightarrow> ('k, 'v) gomap" where
  "gm_put k v m \<equiv> AList.update k v m"

abbreviation gm_del :: "'k \<Rightarrow> ('k, 'v) gomap \<Rightarrow> ('k, 'v) gomap" where
  "gm_del k m \<equiv> AList.delete k m"

definition gm_wf :: "('k, 'v) gomap \<Rightarrow> bool" where
  "gm_wf m \<longleftrightarrow> distinct (map fst m)"

lemma gm_wf_Nil [simp, gm_simps]: "gm_wf []"
  by (simp add: gm_wf_def)

lemma gm_wf_Cons [gm_simps]: "gm_wf ((k, v) # m) \<longleftrightarrow> gm_get m k = None \<and> gm_wf m"
  by (simp add: gm_wf_def map_of_eq_None_iff)

lemma gm_wf_put [simp, gm_simps]: "gm_wf m \<Longrightarrow> gm_wf (gm_put k v m)"
  by (simp add: gm_wf_def distinct_update)

lemma gm_wf_del [simp, gm_simps]: "gm_wf m \<Longrightarrow> gm_wf (gm_del k m)"
  by (simp add: gm_wf_def distinct_delete)

lemma gm_get_put [simp, gm_simps]: "gm_get (gm_put k v m) k' = (if k' = k then Some v else gm_get m k')"
  by (simp add: update_conv')

lemma gm_get_del [simp, gm_simps]: "gm_get (gm_del k m) k' = (if k' = k then None else gm_get m k')"
  by (simp add: delete_conv')

lemma gm_get_Some_iff: "gm_wf m \<Longrightarrow> gm_get m k = Some v \<longleftrightarrow> (k, v) \<in> set m"
  by (simp add: gm_wf_def)

lemma gm_get_None_iff: "gm_get m k = None \<longleftrightarrow> k \<notin> fst ` set m"
  by (rule map_of_eq_None_iff)

lemma gm_length_put [gm_simps]:
  "length (gm_put k v m) = (if gm_get m k = None then Suc (length m) else length m)"
  by (induction m) auto

lemma gm_length_del [gm_simps]:
  "gm_wf m \<Longrightarrow> length (gm_del k m) = (if gm_get m k = None then length m else length m - 1)"
proof (induction m)
  case (Cons x m)
  from Cons.prems have wf: "gm_wf m" and new: "fst x \<notin> fst ` set m"
    by (auto simp: gm_wf_def)
  show ?case
  proof (cases "fst x = k")
    case True
    with new have "gm_del k m = m" by (simp add: delete_id)
    with True show ?thesis by (cases x) simp
  next
    case False
    have "m \<noteq> []" if "gm_get m k = Some v" for v using that by auto
    with False Cons.IH [OF wf] show ?thesis
      by (cases x) (auto split: if_splits)
  qed
qed simp

lemma gm_eq_Nil_iff: "m = [] \<longleftrightarrow> (\<forall>k. gm_get m k = None)"
proof (cases m)
  case (Cons e m')
  then have "gm_get m (fst e) = Some (snd e)" by simp
  with Cons show ?thesis by force
qed simp

lemma gm_del_eq_Nil: "gm_del k m = [] \<longleftrightarrow> (\<forall>k'. k' \<noteq> k \<longrightarrow> gm_get m k' = None)"
  by (auto simp: gm_eq_Nil_iff)

lemma gm_put_put [simp, gm_simps]: "gm_put k v (gm_put k w m) = gm_put k v m"
  by (induction m) auto

lemma gm_only_key:
  assumes "gm_get m k \<noteq> None"
  shows "gm_del k m = [] \<longleftrightarrow> {x. gm_get m x \<noteq> None} = {k}"
proof
  assume "gm_del k m = []"
  then have none: "gm_get m x = None" if "x \<noteq> k" for x using that by (simp add: gm_del_eq_Nil)
  show "{x. gm_get m x \<noteq> None} = {k}"
  proof (rule set_eqI)
    show "x \<in> {x. gm_get m x \<noteq> None} \<longleftrightarrow> x \<in> {k}" for x
      using none [of x] assms by (cases "x = k") simp_all
  qed
next
  assume eq: "{x. gm_get m x \<noteq> None} = {k}"
  have "gm_get m x = None" if "x \<noteq> k" for x
  proof (rule ccontr)
    assume "gm_get m x \<noteq> None"
    then have "x \<in> {x. gm_get m x \<noteq> None}" by simp
    with eq that show False by simp
  qed
  then show "gm_del k m = []" by (simp add: gm_del_eq_Nil)
qed

lemma gm_put_neq_Nil [simp]: "gm_put k v m \<noteq> []"
  by simp

lemma gm_get_nonempty: "gm_get m k = Some v \<Longrightarrow> m \<noteq> []"
  by auto

lemma gm_set_put: "gm_wf m \<Longrightarrow> set (gm_put k v m) = insert (k, v) {e \<in> set m. fst e \<noteq> k}"
  by (auto simp: gm_get_Some_iff [symmetric] split: if_splits)

lemma gm_set_del: "gm_wf m \<Longrightarrow> set (gm_del k m) = {e \<in> set m. fst e \<noteq> k}"
  by (auto simp: gm_get_Some_iff [symmetric] split: if_splits)

lemma gm_distinct_map:
  assumes "gm_wf m" and "\<And>k k' v v'. (k, v) \<in> set m \<Longrightarrow> (k', v') \<in> set m \<Longrightarrow> f v = f v' \<Longrightarrow> k = k'"
  shows "distinct (map (\<lambda>(_, v). f v) m)"
  using assms
proof (induction m)
  case (Cons e m)
  obtain k v where e: "e = (k, v)" by (cases e)
  with Cons.prems(1) have wf: "gm_wf m" and new: "k \<notin> fst ` set m"
    by (auto simp: gm_wf_Cons gm_get_None_iff)
  have "distinct (map (\<lambda>(_, v). f v) m)"
    by (rule Cons.IH [OF wf]) (use Cons.prems(2) in auto)
  moreover have "f v \<noteq> f v'" if "(k', v') \<in> set m" for k' v'
    using Cons.prems(2) [of k v k' v'] e that new by force
  ultimately show ?case using e by auto
qed simp

end
