(* ===== verification/GoChan.thy ===== *)
theory GoChan
  imports Prelude
begin

text \<open>
  Go channels, as far as the program uses them: \<^verbatim>\<open>make(chan T, n)\<close>, the non-blocking send
  \<^verbatim>\<open>select { case c <- v: default: }\<close>, \<^verbatim>\<open>close(c)\<close> and the receive \<^verbatim>\<open>v, ok := <-c\<close>.
  A channel is an address into a heap of cells, so two references to one channel are seen to
  be the same channel, and a send on a closed channel or a second close is the panic Go
  raises. Every channel the program makes is buffered (capacity 64), so a value always passes
  through the buffer.

  \<open>fan_out\<close> and \<open>close_all\<close> are the loops that several components run over a list of
  channels; the lemmas describe their effect cell by cell.
\<close>

type_synonym chan_id = nat

record 'a gchan =
  ch_buf :: "'a list"
  ch_cap :: nat
  ch_closed :: bool

record 'a heap =
  cells :: "chan_id \<Rightarrow> 'a gchan option"
  next_id :: chan_id

datatype 'a received =
    Blocked      \<comment> \<open>nothing buffered and not closed: the receive waits\<close>
  | Drained      \<comment> \<open>closed and empty: \<open>ok\<close> is false\<close>
  | Received 'a

definition empty_heap :: "'a heap" where
  "empty_heap = \<lparr>cells = Map.empty, next_id = 0\<rparr>"

definition make_chan :: "nat \<Rightarrow> 'a heap \<Rightarrow> chan_id \<times> 'a heap" where
  "make_chan n h =
     (next_id h,
      h\<lparr>cells := (cells h)(next_id h \<mapsto> \<lparr>ch_buf = [], ch_cap = n, ch_closed = False\<rparr>),
        next_id := Suc (next_id h)\<rparr>)"

definition offer :: "'a \<Rightarrow> 'a gchan \<Rightarrow> 'a gchan" where
  "offer v c = (if length (ch_buf c) < ch_cap c then c\<lparr>ch_buf := ch_buf c @ [v]\<rparr> else c)"

text \<open>A send on a nil channel (no cell) is never ready, so the \<open>default\<close> branch runs.\<close>

definition send_nb :: "chan_id \<Rightarrow> 'a \<Rightarrow> 'a heap \<Rightarrow> panic + 'a heap" where
  "send_nb c v h =
     (case cells h c of
        None \<Rightarrow> Inr h
      | Some ch \<Rightarrow>
          if ch_closed ch then Inl SendOnClosedChannel
          else Inr (h\<lparr>cells := (cells h)(c \<mapsto> offer v ch)\<rparr>))"

definition close_chan :: "chan_id \<Rightarrow> 'a heap \<Rightarrow> panic + 'a heap" where
  "close_chan c h =
     (case cells h c of
        None \<Rightarrow> Inl CloseOfNilChannel
      | Some ch \<Rightarrow>
          if ch_closed ch then Inl CloseOfClosedChannel
          else Inr (h\<lparr>cells := (cells h)(c \<mapsto> ch\<lparr>ch_closed := True\<rparr>)\<rparr>))"

definition recv_chan :: "chan_id \<Rightarrow> 'a heap \<Rightarrow> 'a received \<times> 'a heap" where
  "recv_chan c h =
     (case cells h c of
        None \<Rightarrow> (Blocked, h)
      | Some ch \<Rightarrow>
          (case ch_buf ch of
             v # vs \<Rightarrow> (Received v, h\<lparr>cells := (cells h)(c \<mapsto> ch\<lparr>ch_buf := vs\<rparr>)\<rparr>)
           | [] \<Rightarrow> (if ch_closed ch then Drained else Blocked, h)))"

fun fan_out :: "chan_id list \<Rightarrow> 'a \<Rightarrow> 'a heap \<Rightarrow> panic + 'a heap" where
  "fan_out [] v h = Inr h"
| "fan_out (c # cs) v h = sum_bind (send_nb c v h) (fan_out cs v)"

fun close_all :: "chan_id list \<Rightarrow> 'a heap \<Rightarrow> panic + 'a heap" where
  "close_all [] h = Inr h"
| "close_all (c # cs) h = sum_bind (close_chan c h) (close_all cs)"

subsection \<open>Well-formed heaps\<close>

definition is_open :: "'a heap \<Rightarrow> chan_id \<Rightarrow> bool" where
  "is_open h c \<longleftrightarrow> (\<exists>ch. cells h c = Some ch \<and> \<not> ch_closed ch)"

definition buffered :: "'a heap \<Rightarrow> chan_id \<Rightarrow> 'a list" where
  "buffered h c = (case cells h c of None \<Rightarrow> [] | Some ch \<Rightarrow> ch_buf ch)"

definition heap_wf :: "'a heap \<Rightarrow> bool" where
  "heap_wf h \<longleftrightarrow>
     (\<forall>c. next_id h \<le> c \<longrightarrow> cells h c = None) \<and>
     (\<forall>c ch. cells h c = Some ch \<longrightarrow> length (ch_buf ch) \<le> ch_cap ch)"

lemma heap_wf_empty [simp]: "heap_wf empty_heap"
  by (simp add: heap_wf_def empty_heap_def)

lemma offer_simps [simp]:
  "ch_cap (offer v ch) = ch_cap ch"
  "ch_closed (offer v ch) = ch_closed ch"
  by (simp_all add: offer_def)

lemma ch_buf_offer:
  "ch_buf (offer v ch) = (if length (ch_buf ch) < ch_cap ch then ch_buf ch @ [v] else ch_buf ch)"
  by (simp add: offer_def)

lemma heap_wf_make: "heap_wf h \<Longrightarrow> heap_wf (snd (make_chan n h))"
  by (auto simp: heap_wf_def make_chan_def)

lemma make_chan_fresh: "heap_wf h \<Longrightarrow> make_chan n h = (c, h') \<Longrightarrow> cells h c = None"
  by (auto simp: heap_wf_def make_chan_def)

lemma cells_make_chan:
  "make_chan n h = (c, h') \<Longrightarrow>
     cells h' = (cells h)(c \<mapsto> \<lparr>ch_buf = [], ch_cap = n, ch_closed = False\<rparr>)"
  by (auto simp: make_chan_def)

lemma is_open_allocated: "is_open h c \<Longrightarrow> cells h c \<noteq> None"
  by (auto simp: is_open_def)

lemma heap_wf_send: "heap_wf h \<Longrightarrow> send_nb c v h = Inr h' \<Longrightarrow> heap_wf h'"
  by (auto simp: heap_wf_def send_nb_def ch_buf_offer split: option.splits if_splits)

lemma heap_wf_close: "heap_wf h \<Longrightarrow> close_chan c h = Inr h' \<Longrightarrow> heap_wf h'"
  by (auto simp: heap_wf_def close_chan_def split: option.splits if_splits)

lemma recv_cases:
  assumes "recv_chan c h = (r, h')"
  obtains (unchanged) "h' = h" "\<And>v. r \<noteq> Received v"
  | (taken) v vs ch where "r = Received v" "cells h c = Some ch" "ch_buf ch = v # vs"
      "h' = h\<lparr>cells := (cells h)(c \<mapsto> ch\<lparr>ch_buf := vs\<rparr>)\<rparr>"
  using assms by (auto simp: recv_chan_def split: option.splits list.splits if_splits)

lemma heap_wf_recv: "heap_wf h \<Longrightarrow> recv_chan c h = (r, h') \<Longrightarrow> heap_wf h'"
  by (erule recv_cases) (fastforce simp: heap_wf_def)+

lemma recv_is_open: "recv_chan c h = (r, h') \<Longrightarrow> is_open h' d = is_open h d"
  by (erule recv_cases) (auto simp: is_open_def)

lemma recv_cap:
  "recv_chan c h = (r, h') \<Longrightarrow> map_option ch_cap (cells h' d) = map_option ch_cap (cells h d)"
  by (erule recv_cases) auto

lemma recv_buffered_subset:
  "recv_chan c h = (r, h') \<Longrightarrow> set (buffered h' d) \<subseteq> set (buffered h d)"
  by (erule recv_cases) (auto simp: buffered_def)

lemma recv_chan_Received:
  "recv_chan c h = (Received v, h') \<Longrightarrow> buffered h c = v # buffered h' c"
  by (erule recv_cases) (auto simp: buffered_def)

lemma recv_other: "recv_chan c h = (r, h') \<Longrightarrow> d \<noteq> c \<Longrightarrow> cells h' d = cells h d"
  by (erule recv_cases) auto

lemma recv_next: "recv_chan c h = (r, h') \<Longrightarrow> next_id h' = next_id h"
  by (erule recv_cases) auto

lemma recv_dom: "recv_chan c h = (r, h') \<Longrightarrow> dom (cells h') = dom (cells h)"
  by (erule recv_cases) auto

lemma recv_Drained: "recv_chan c h = (Drained, h') \<Longrightarrow> \<not> is_open h c"
  by (auto simp: is_open_def recv_chan_def split: option.splits list.splits if_splits)

subsection \<open>The two loops\<close>

text \<open>
  Offering to a set of open, pairwise different channels never panics and reaches each cell
  exactly once; the order of the list does not matter.
\<close>

definition offer_to :: "chan_id set \<Rightarrow> 'a \<Rightarrow> 'a heap \<Rightarrow> 'a heap" where
  "offer_to A v h =
     h\<lparr>cells := \<lambda>c. if c \<in> A then map_option (offer v) (cells h c) else cells h c\<rparr>"

definition mark_closed :: "chan_id set \<Rightarrow> 'a heap \<Rightarrow> 'a heap" where
  "mark_closed A h =
     h\<lparr>cells := \<lambda>c. if c \<in> A then map_option (ch_closed_update (\<lambda>_. True)) (cells h c)
                   else cells h c\<rparr>"

lemma offer_to_simps [simp]:
  "cells (offer_to A v h) c = (if c \<in> A then map_option (offer v) (cells h c) else cells h c)"
  "next_id (offer_to A v h) = next_id h"
  by (simp_all add: offer_to_def)

lemma mark_closed_simps [simp]:
  "cells (mark_closed A h) c =
     (if c \<in> A then map_option (ch_closed_update (\<lambda>_. True)) (cells h c) else cells h c)"
  "next_id (mark_closed A h) = next_id h"
  by (simp_all add: mark_closed_def)

lemma dom_offer_to: "dom (cells (offer_to A v h)) = dom (cells h)"
  by (auto simp: dom_def)

lemma dom_mark_closed: "dom (cells (mark_closed A h)) = dom (cells h)"
  by (auto simp: dom_def)

lemma heap_eqI: "cells h = cells h' \<Longrightarrow> next_id h = next_id h' \<Longrightarrow> h = (h' :: 'a heap)"
  by simp

lemma send_nb_open: "is_open h c \<Longrightarrow> send_nb c v h = Inr (offer_to {c} v h)"
  by (auto simp: send_nb_def is_open_def intro!: heap_eqI ext)

lemma close_chan_open: "is_open h c \<Longrightarrow> close_chan c h = Inr (mark_closed {c} h)"
  by (auto simp: close_chan_def is_open_def intro!: heap_eqI ext)

lemma is_open_offer_to [simp]: "is_open (offer_to A v h) c = is_open h c"
  by (auto simp: is_open_def)

lemma is_open_mark_closed [simp]: "is_open (mark_closed A h) c \<longleftrightarrow> is_open h c \<and> c \<notin> A"
  by (auto simp: is_open_def)

lemma offer_to_disjoint:
  "A \<inter> B = {} \<Longrightarrow> offer_to A v (offer_to B v h) = offer_to (A \<union> B) v h"
  by (rule heap_eqI) (auto intro!: ext)

lemma mark_closed_disjoint:
  "A \<inter> B = {} \<Longrightarrow> mark_closed A (mark_closed B h) = mark_closed (A \<union> B) h"
  by (rule heap_eqI) (auto intro!: ext)

lemma offer_to_empty [simp]: "offer_to {} v h = h"
  by (rule heap_eqI) auto

lemma mark_closed_empty [simp]: "mark_closed {} h = h"
  by (rule heap_eqI) auto

lemma fan_out_open:
  assumes "distinct cs" and "\<forall>c\<in>set cs. is_open h c"
  shows "fan_out cs v h = Inr (offer_to (set cs) v h)"
  using assms
  by (induction cs arbitrary: h) (simp_all add: send_nb_open offer_to_disjoint)

lemma fan_out_order_irrelevant:
  assumes "distinct cs" "distinct ds" "set cs = set ds" "\<forall>c\<in>set cs. is_open h c"
  shows "fan_out cs v h = fan_out ds v h"
  using assms by (simp add: fan_out_open)

lemma close_all_open:
  assumes "distinct cs" and "\<forall>c\<in>set cs. is_open h c"
  shows "close_all cs h = Inr (mark_closed (set cs) h)"
  using assms
proof (induction cs arbitrary: h)
  case (Cons c cs)
  then have "\<forall>d\<in>set cs. is_open (mark_closed {c} h) d" by auto
  with Cons show ?case by (simp add: close_chan_open mark_closed_disjoint)
qed simp

lemma heap_wf_offer_to [simp]: "heap_wf h \<Longrightarrow> heap_wf (offer_to A v h)"
  by (auto simp: heap_wf_def ch_buf_offer)

lemma heap_wf_mark_closed [simp]: "heap_wf h \<Longrightarrow> heap_wf (mark_closed A h)"
  by (auto simp: heap_wf_def)

lemma buffered_offer_to_subset: "set (buffered (offer_to A v h) c) \<subseteq> insert v (set (buffered h c))"
  by (cases "cells h c") (auto simp: buffered_def ch_buf_offer split: if_splits)

lemma buffered_mark_closed [simp]: "buffered (mark_closed A h) c = buffered h c"
  by (auto simp: buffered_def split: option.splits)

lemma buffered_offer_to_other [simp]: "c \<notin> A \<Longrightarrow> buffered (offer_to A v h) c = buffered h c"
  by (simp add: buffered_def)

lemma close_all_twice_panics: "c \<in> set cs \<Longrightarrow> \<exists>p. close_all (c # cs) h = Inl p"
proof -
  have closed: "\<exists>p. close_all cs h = Inl p" if "c \<in> set cs" "\<not> is_open h c" for h :: "'a heap"
    using that
  proof (induction cs arbitrary: h)
    case (Cons d ds)
    show ?case
    proof (cases "close_chan d h")
      case (Inr h')
      with Cons.prems have "d \<noteq> c" "\<not> is_open h' c"
        by (auto simp: close_chan_def is_open_def split: option.splits if_splits)
      with Cons Inr show ?thesis by auto
    qed simp
  qed simp
  assume "c \<in> set cs"
  then show ?thesis
  proof (cases "close_chan c h")
    case (Inr h')
    then have "\<not> is_open h' c"
      by (auto simp: close_chan_def is_open_def split: option.splits if_splits)
    with closed \<open>c \<in> set cs\<close> Inr show ?thesis by simp
  qed simp
qed

end
