(* ===== verification/Channels.thy ===== *)
theory Channels
  imports Prelude
begin

text \<open>
  \<^verbatim>\<open>internal/channels/channels.go\<close>: the names of the Redis channels. The dispatcher publishes
  to and the gateway subscribes to \<open>post_channel p\<close>; chat rooms use \<open>room_channel r\<close>. The
  lemmas say that two names are equal only for the same post (or room) and that the two
  families never meet, which is what routing by name rests on.
\<close>

definition post_channel :: "string \<Rightarrow> string" where
  "post_channel postID = ''post:'' @ postID"

definition room_channel :: "string \<Rightarrow> string" where
  "room_channel roomID = ''room:'' @ roomID"

lemma post_channel_eq_iff [simp]: "post_channel p = post_channel q \<longleftrightarrow> p = q"
  by (simp add: post_channel_def)

lemma room_channel_eq_iff [simp]: "room_channel r = room_channel s \<longleftrightarrow> r = s"
  by (simp add: room_channel_def)

lemma post_room_disjoint [simp]:
  "post_channel p \<noteq> room_channel r"
  "room_channel r \<noteq> post_channel p"
  by (simp_all add: post_channel_def room_channel_def)

lemma inj_post_channel: "inj post_channel"
  by (rule injI) simp

lemma inj_room_channel: "inj room_channel"
  by (rule injI) simp

end
