(* ===== verification/Pubsub.thy ===== *)
theory Pubsub
  imports GoChan
begin

text \<open>
  \<^verbatim>\<open>internal/pubsub/pubsub.go\<close>: the message, the errors and the interface that the two hubs
  program against. A Go interface value is a record of functions over the state \<open>'b\<close> of
  whatever implements it.

  \<open>pubsub_bus\<close> is the contract written in the comments of that interface, over views
  of the state: \<open>binv\<close> (the implementation's invariant), \<open>live\<close> (the subscriptions that are
  in force, as pairs of a channel name and the Go channel handed out) and \<open>queue\<close> (the
  messages waiting in a Go channel) and \<open>made\<close> (every Go channel handed out so far: none is
  handed out twice). \<open>arrive\<close> is the broker delivering one message to this
  process; it is not a method of the interface but every implementation has it.
\<close>

record message =
  m_channel :: string
  m_payload :: bytes

text \<open>
  \<open>ErrClosed\<close> is the sentinel; the other constructors are the \<^verbatim>\<open>fmt.Errorf\<close> wrappers, with
  the channel name and the text of the wrapped client error.
\<close>

datatype bus_error =
    ErrClosed
  | PublishFailed string string
  | SubscribeFailed string string
  | UnsubscribeFailed string string

definition sub_buffer :: nat where
  "sub_buffer = 64"

record 'b pubsub =
  ps_publish :: "string \<Rightarrow> bytes \<Rightarrow> 'b \<Rightarrow> bus_error option \<times> 'b"
  ps_subscribe :: "string \<Rightarrow> 'b \<Rightarrow> panic + ((bus_error + chan_id) \<times> 'b)"
  ps_unsubscribe :: "string \<Rightarrow> chan_id \<Rightarrow> 'b \<Rightarrow> panic + (bus_error option \<times> 'b)"
  ps_close :: "'b \<Rightarrow> panic + 'b"
  ps_recv :: "chan_id \<Rightarrow> 'b \<Rightarrow> message received \<times> 'b"

definition accept :: "message \<Rightarrow> message list \<Rightarrow> message list" where
  "accept m q = (if length q < sub_buffer then q @ [m] else q)"

locale pubsub_bus =
  fixes P :: "'b pubsub"
    and arrive :: "message \<Rightarrow> 'b \<Rightarrow> panic + 'b"
    and binv :: "'b \<Rightarrow> bool"
    and live :: "'b \<Rightarrow> (string \<times> chan_id) set"
    and queue :: "'b \<Rightarrow> chan_id \<Rightarrow> message list"
    and made :: "'b \<Rightarrow> chan_id set"
  assumes subscribe_no_panic:
      "binv b \<Longrightarrow> \<exists>r b'. ps_subscribe P c b = Inr (r, b')"
    and subscribe_inv:
      "binv b \<Longrightarrow> ps_subscribe P c b = Inr (r, b') \<Longrightarrow> binv b'"
    and subscribe_ok:
      "binv b \<Longrightarrow> ps_subscribe P c b = Inr (Inr ch, b') \<Longrightarrow>
         live b' = insert (c, ch) (live b) \<and> ch \<notin> made b \<and> made b' = insert ch (made b) \<and>
         queue b' = (queue b)(ch := [])"
    and subscribe_failed:
      "binv b \<Longrightarrow> ps_subscribe P c b = Inr (Inl e, b') \<Longrightarrow>
         live b' = live b \<and> queue b' = queue b \<and> made b' = made b"
    and unsubscribe:
      "binv b \<Longrightarrow> \<exists>e b'. ps_unsubscribe P c ch b = Inr (e, b') \<and> binv b' \<and>
         live b' = live b - {(c, ch)} \<and> queue b' = queue b \<and> made b' = made b"
    and recv:
      "binv b \<Longrightarrow> ps_recv P ch b = (got, b') \<Longrightarrow>
         binv b' \<and> live b' = live b \<and> made b' = made b \<and> (\<forall>d. d \<noteq> ch \<longrightarrow> queue b' d = queue b d) \<and>
         (case got of Received m \<Rightarrow> queue b ch = m # queue b' ch | _ \<Rightarrow> queue b ch = [] \<and> queue b' ch = [])"
    and recv_drained:
      "binv b \<Longrightarrow> ps_recv P ch b = (Drained, b') \<Longrightarrow> ch \<notin> snd ` live b"
    and arrive_ok:
      "binv b \<Longrightarrow> \<exists>b'. arrive m b = Inr b' \<and> binv b' \<and> live b' = live b \<and> made b' = made b \<and>
         ((\<forall>d. queue b' d = queue b d) \<or>
          (\<forall>d. queue b' d = (if (m_channel m, d) \<in> live b then accept m (queue b d) else queue b d)))"
    and live_made: "binv b \<Longrightarrow> (c, ch) \<in> live b \<Longrightarrow> ch \<in> made b"
    and routed:
      "binv b \<Longrightarrow> (c, ch) \<in> live b \<Longrightarrow> m \<in> set (queue b ch) \<Longrightarrow> m_channel m = c"
    and live_unique:
      "binv b \<Longrightarrow> (c, ch) \<in> live b \<Longrightarrow> (d, ch) \<in> live b \<Longrightarrow> c = d"
begin

lemma unsubscribeE:
  assumes "binv b"
  obtains e b' where "ps_unsubscribe P c ch b = Inr (e, b')" "binv b'"
    "live b' = live b - {(c, ch)}" "queue b' = queue b" "made b' = made b"
  using unsubscribe [OF assms] by blast

lemma arriveE:
  assumes "binv b"
  obtains b' where "arrive m b = Inr b'" "binv b'" "live b' = live b" "made b' = made b"
    "(\<forall>d. queue b' d = queue b d) \<or>
     (\<forall>d. queue b' d = (if (m_channel m, d) \<in> live b then accept m (queue b d) else queue b d))"
  using arrive_ok [OF assms] by blast

lemma recv_Received:
  "binv b \<Longrightarrow> ps_recv P ch b = (Received m, b') \<Longrightarrow> queue b ch = m # queue b' ch"
  using recv by fastforce

lemma received_routed:
  "binv b \<Longrightarrow> (c, ch) \<in> live b \<Longrightarrow> ps_recv P ch b = (Received m, b') \<Longrightarrow> m_channel m = c"
  using recv_Received routed by (metis list.set_intros(1))

end

end
