(* ===== verification/Bridges.thy ===== *)
theory Bridges
  imports Channels Pubsub
begin

text \<open>
  What the two hubs (\<^verbatim>\<open>internal/feed/hub.go\<close>, \<^verbatim>\<open>internal/chat/hub.go\<close>) have in common: a table of
  entries, one per post or room, each with a reference count, its Redis consumer channel and
  the cancel function of its bridge; and the bridge goroutines, of which some may still run
  after their entry has gone. \<^verbatim>\<open>postEntry\<close> and \<^verbatim>\<open>roomEntry\<close> have the same fields and are one
  record here.

  A context made by \<^verbatim>\<open>context.WithCancel\<close> is a number; its cancel function puts the number into
  the hub's list of cancelled contexts.
\<close>

record entry =
  en_refs :: int
  en_redis :: chan_id
  en_ctx :: nat

record bridge =
  br_ctx :: nat
  br_key :: string
  br_ch :: chan_id

text \<open>
  One turn of a bridge's \<^verbatim>\<open>select\<close>. Go picks any ready case: \<open>BridgeDone\<close> is the case
  \<^verbatim>\<open>ctx.Done()\<close>, \<open>BridgeMessage\<close> the case of the Redis channel.
\<close>

datatype bridge_case = BridgeDone | BridgeMessage

type_synonym entries = "(string, entry) gomap"

definition refs_of :: "('k, entry) gomap \<Rightarrow> 'k \<Rightarrow> int" where
  "refs_of es k = (case gm_get es k of None \<Rightarrow> 0 | Some e \<Rightarrow> en_refs e)"

lemma refs_of_get: "gm_get es k = Some e \<Longrightarrow> refs_of es k = en_refs e"
  by (simp add: refs_of_def)

definition bridge_of :: "string \<Rightarrow> entry \<Rightarrow> bridge" where
  "bridge_of k e = \<lparr>br_ctx = en_ctx e, br_key = k, br_ch = en_redis e\<rparr>"

text \<open>
  Every entry has its running bridge, and a running bridge whose context is not cancelled has
  its entry. Contexts and Redis channels tell bridges apart, and contexts below \<open>n\<close> are used.
\<close>

definition bridges_wf :: "entries \<Rightarrow> bridge list \<Rightarrow> nat list \<Rightarrow> nat \<Rightarrow> bool" where
  "bridges_wf es bs cs n \<longleftrightarrow>
     distinct (map br_ctx bs) \<and> distinct (map br_ch bs) \<and>
     (\<forall>c\<in>set cs \<union> br_ctx ` set bs. c < n) \<and>
     (\<forall>br\<in>set bs. br_ctx br \<notin> set cs \<longrightarrow>
        (\<exists>e. gm_get es (br_key br) = Some e \<and> br = bridge_of (br_key br) e)) \<and>
     (\<forall>k e. gm_get es k = Some e \<longrightarrow> bridge_of k e \<in> set bs \<and> en_ctx e \<notin> set cs)"

lemma bridge_of_simps [simp]:
  "br_ctx (bridge_of k e) = en_ctx e"
  "br_key (bridge_of k e) = k"
  "br_ch (bridge_of k e) = en_redis e"
  by (simp_all add: bridge_of_def)

lemma bridge_of_refs [simp]: "bridge_of k (e\<lparr>en_refs := n\<rparr>) = bridge_of k e"
  by (simp add: bridge_of_def)

lemma bridges_wfD:
  assumes "bridges_wf es bs cs n"
  shows "br \<in> set bs \<Longrightarrow> br' \<in> set bs \<Longrightarrow> br_ctx br = br_ctx br' \<Longrightarrow> br = br'"
    and "br \<in> set bs \<Longrightarrow> br' \<in> set bs \<Longrightarrow> br_ch br = br_ch br' \<Longrightarrow> br = br'"
    and "c \<in> set cs \<Longrightarrow> c < n"
    and "br \<in> set bs \<Longrightarrow> br_ctx br < n"
    and "br \<in> set bs \<Longrightarrow> br_ctx br \<notin> set cs \<Longrightarrow>
           \<exists>e. gm_get es (br_key br) = Some e \<and> br = bridge_of (br_key br) e"
    and "gm_get es k = Some e \<Longrightarrow> bridge_of k e \<in> set bs"
    and "gm_get es k = Some e \<Longrightarrow> en_ctx e \<notin> set cs"
proof -
  note wf = assms [unfolded bridges_wf_def]
  show "br = br'" if "br \<in> set bs" "br' \<in> set bs" "br_ctx br = br_ctx br'"
    using wf that by (auto simp: distinct_map inj_on_def)
  show "br = br'" if "br \<in> set bs" "br' \<in> set bs" "br_ch br = br_ch br'"
    using wf that by (auto simp: distinct_map inj_on_def)
qed (use assms in \<open>simp_all add: bridges_wf_def\<close>)

lemma bridges_wf_Nil [simp]: "bridges_wf [] [] [] 0"
  by (simp add: bridges_wf_def)

lemma bridges_wf_remove:
  assumes wf: "bridges_wf es bs cs n" and "gm_get es k = Some e"
  shows "bridges_wf (gm_del k es) bs (en_ctx e # cs) n"
proof -
  have own: "br_key br = k" if "br \<in> set bs" "br_ctx br = en_ctx e" for br
    using bridges_wfD(1) [OF wf that(1) bridges_wfD(6) [OF wf assms(2)]] that(2) by simp
  have other: "en_ctx e' \<noteq> en_ctx e" if "gm_get es j = Some e'" "j \<noteq> k" for j e'
    using own [OF bridges_wfD(6) [OF wf that(1)]] that(2) by auto
  have keep: "br_key br \<noteq> k" if "br \<in> set bs" "br_ctx br \<noteq> en_ctx e" "br_ctx br \<notin> set cs" for br
    using bridges_wfD(5) [OF wf that(1,3)] that(2) assms(2) by (metis bridge_of_simps(1) option.sel)
  have "en_ctx e < n"
    using bridges_wfD(4) [OF wf bridges_wfD(6) [OF wf assms(2)]] by simp
  with wf other keep bridges_wfD(5-7) [OF wf] show ?thesis
    by (auto simp: bridges_wf_def)
qed

lemma bridges_wf_count:
  "bridges_wf es bs cs n \<Longrightarrow> gm_get es k = Some e \<Longrightarrow>
     bridges_wf (gm_put k (e\<lparr>en_refs := i\<rparr>) es) bs cs n"
  unfolding bridges_wf_def by (auto split: if_splits)

lemma bridges_wf_new:
  assumes wf: "bridges_wf es bs cs n" and "gm_get es k = None"
    and fresh: "\<forall>br\<in>set bs. br_ch br \<noteq> ch"
  shows "bridges_wf (gm_put k \<lparr>en_refs = i, en_redis = ch, en_ctx = n\<rparr> es)
    (bs @ [\<lparr>br_ctx = n, br_key = k, br_ch = ch\<rparr>]) cs (Suc n)"
proof -
  have "n \<notin> br_ctx ` set bs" "n \<notin> set cs"
    using bridges_wfD(3,4) [OF wf] by fastforce+
  moreover have "br_key br \<noteq> k" if "br \<in> set bs" "br_ctx br \<notin> set cs" for br
    using bridges_wfD(5) [OF wf that] assms(2) by auto
  moreover have "ch \<notin> br_ch ` set bs" using fresh by auto
  ultimately show ?thesis
    using wf bridges_wfD(3-7) [OF wf] unfolding bridges_wf_def
    by (auto simp: less_Suc_eq bridge_of_def)
qed

lemma bridges_wf_unused:
  assumes wf: "bridges_wf es bs cs n"
  shows "bridges_wf es bs (n # cs) (Suc n)"
proof -
  have "en_ctx e \<noteq> n" if "gm_get es k = Some e" for k e
    using bridges_wfD(4) [OF wf bridges_wfD(6) [OF wf that]] by simp
  moreover have "br_ctx br < n" if "br \<in> set bs" for br
    using bridges_wfD(4) [OF wf that] .
  ultimately show ?thesis
    using wf bridges_wfD(3,5-7) [OF wf] by (auto simp: bridges_wf_def less_Suc_eq)
qed

lemma bridges_wf_return:
  assumes wf: "bridges_wf es bs cs n" and br: "br \<in> set bs" "br_ctx br \<in> set cs"
  shows "bridges_wf es (remove1 br bs) cs n"
proof -
  have dist: "distinct bs" using wf by (auto simp: bridges_wf_def distinct_map)
  have set: "set (remove1 br bs) = set bs - {br}"
    by (rule set_remove1_eq [OF dist])
  have map: "distinct (map f (remove1 br bs))" if "distinct (map f bs)" for f :: "bridge \<Rightarrow> nat"
    using that dist set by (auto simp: distinct_map inj_on_def)
  have "bridge_of k e \<noteq> br" if "gm_get es k = Some e" for k e
    using bridges_wfD(7) [OF wf that] br(2) by auto
  with wf set map show ?thesis by (auto simp: bridges_wf_def)
qed

text \<open>Shutdown cancels every entry and empties the table.\<close>

lemma bridges_wf_close:
  assumes wf: "bridges_wf es bs cs n" and es: "gm_wf es"
  defines "cs' \<equiv> rev (map (\<lambda>(_, e). en_ctx e) es) @ cs"
  shows "bridges_wf [] bs cs' n" and "br \<in> set bs \<Longrightarrow> br_ctx br \<in> set cs'"
proof -
  have entry: "gm_get es k = Some e \<longleftrightarrow> (k, e) \<in> set es" for k e by (rule gm_get_Some_iff [OF es])
  show cancelled: "br_ctx br \<in> set cs'" if br: "br \<in> set bs" for br
  proof (cases "br_ctx br \<in> set cs")
    case False
    then obtain e where "(br_key br, e) \<in> set es" "br = bridge_of (br_key br) e"
      using bridges_wfD(5) [OF wf br] entry by blast
    then show ?thesis
      unfolding cs'_def by (metis (mono_tags, lifting) Un_iff bridge_of_simps(1) case_prod_conv
        image_eqI image_set set_append set_rev)
  qed (simp add: cs'_def)
  have "c < n" if "c \<in> set cs'" for c
    using that bridges_wfD(3) [OF wf] bridges_wfD(4,6) [OF wf] by (fastforce simp: cs'_def entry)
  with wf cancelled bridges_wfD(4) [OF wf] show "bridges_wf [] bs cs' n"
    by (auto simp: bridges_wf_def)
qed

text \<open>The bus subscriptions that a table stands for; \<open>name\<close> is the channel-name function.\<close>

definition subscribed_to :: "(string \<Rightarrow> string) \<Rightarrow> entries \<Rightarrow> (string \<times> chan_id) set" where
  "subscribed_to name es = {(name k, en_redis e) | k e. gm_get es k = Some e}"

lemma subscribed_to_count [simp]:
  "gm_get es k = Some e \<Longrightarrow>
     subscribed_to name (gm_put k (e\<lparr>en_refs := n\<rparr>) es) = subscribed_to name es"
  unfolding subscribed_to_def by (auto split: if_splits)

lemma subscribed_to_new:
  "gm_get es k = None \<Longrightarrow>
     subscribed_to name (gm_put k e es) = insert (name k, en_redis e) (subscribed_to name es)"
  unfolding subscribed_to_def by (auto split: if_splits)

lemma subscribed_to_del:
  "inj name \<Longrightarrow> gm_get es k = Some e \<Longrightarrow>
     subscribed_to name (gm_del k es) = subscribed_to name es - {(name k, en_redis e)}"
proof -
  assume name: "inj name" and e: "gm_get es k = Some e"
  have eq: "name j = name k \<longleftrightarrow> j = k" for j using name by (simp add: inj_eq)
  have del: "x \<in> subscribed_to name (gm_del k es) \<longleftrightarrow>
      (\<exists>j e'. j \<noteq> k \<and> x = (name j, en_redis e') \<and> gm_get es j = Some e')" for x
    by (auto simp: subscribed_to_def split: if_splits)
  show "subscribed_to name (gm_del k es) = subscribed_to name es - {(name k, en_redis e)}"
  proof (rule set_eqI)
    fix x
    show "x \<in> subscribed_to name (gm_del k es) \<longleftrightarrow> x \<in> subscribed_to name es - {(name k, en_redis e)}"
      unfolding del using eq e by (auto simp: subscribed_to_def) (metis option.inject)
  qed
qed

lemma subscribed_to_Nil [simp]: "subscribed_to name [] = {}"
  by (simp add: subscribed_to_def)

text \<open>
  What a bridge may still hand on: messages of its own channel out of the set \<open>L\<close> of those
  that have arrived at this process.
\<close>

definition messages_on :: "message set \<Rightarrow> string \<Rightarrow> message set" where
  "messages_on L c = {m \<in> L. m_channel m = c}"

lemma messages_on_mono: "messages_on L c \<subseteq> messages_on (insert m L) c"
  by (auto simp: messages_on_def)

lemma messages_on_insert: "m_channel m = c \<Longrightarrow> m \<in> messages_on (insert m L) c"
  by (simp add: messages_on_def)

text \<open>The loop of both \<^verbatim>\<open>Close\<close> methods over the entries: cancel the bridge, drop the subscription.\<close>

fun close_entries ::
    "(string \<Rightarrow> string) \<Rightarrow> 'b pubsub \<Rightarrow> (string \<times> entry) list \<Rightarrow> 'b \<times> nat list \<Rightarrow> panic + ('b \<times> nat list)" where
  "close_entries name P [] (b, cs) = Inr (b, cs)"
| "close_entries name P ((k, e) # es) (b, cs) =
     sum_bind (ps_unsubscribe P (name k) (en_redis e) b)
       (\<lambda>(_, b). close_entries name P es (b, en_ctx e # cs))"

context pubsub_bus begin

definition bus_ok ::
    "(string \<Rightarrow> string) \<Rightarrow> message set \<Rightarrow> 'b \<Rightarrow> entries \<Rightarrow> bridge list \<Rightarrow> nat list \<Rightarrow> nat \<Rightarrow> bool" where
  "bus_ok name L b es bs cs n \<longleftrightarrow>
     binv b \<and> bridges_wf es bs cs n \<and> live b = subscribed_to name es \<and>
     (\<forall>br\<in>set bs. br_ch br \<in> made b \<and> set (queue b (br_ch br)) \<subseteq> messages_on L (name (br_key br)))"

lemma bus_okD:
  assumes "bus_ok name L b es bs cs n"
  shows "binv b" "bridges_wf es bs cs n" "live b = subscribed_to name es"
    "br \<in> set bs \<Longrightarrow> br_ch br \<in> made b"
    "br \<in> set bs \<Longrightarrow> set (queue b (br_ch br)) \<subseteq> messages_on L (name (br_key br))"
  using assms by (auto simp: bus_ok_def)

lemma bus_ok_new: "binv b \<Longrightarrow> live b = {} \<Longrightarrow> bus_ok name L b [] [] [] 0"
  by (simp add: bus_ok_def)

lemma bus_ok_count:
  "bus_ok name L b es bs cs n \<Longrightarrow> gm_get es k = Some e \<Longrightarrow>
     bus_ok name L b (gm_put k (e\<lparr>en_refs := i\<rparr>) es) bs cs n"
  by (simp add: bus_ok_def bridges_wf_count)

lemma bus_ok_subscribe:
  assumes ok: "bus_ok name L b es bs cs n" and new: "gm_get es k = None"
    and call: "ps_subscribe P (name k) b = Inr (Inr ch, b')"
  shows "bus_ok name L b' (gm_put k \<lparr>en_refs = i, en_redis = ch, en_ctx = n\<rparr> es)
    (bs @ [\<lparr>br_ctx = n, br_key = k, br_ch = ch\<rparr>]) cs (Suc n)"
proof -
  note D = bus_okD [OF ok]
  note sub = subscribe_ok [OF D(1) call] subscribe_inv [OF D(1) call]
  have fresh: "\<forall>br\<in>set bs. br_ch br \<noteq> ch" using D(4) sub by auto
  with D(3-5) sub bridges_wf_new [OF D(2) new fresh] subscribed_to_new [OF new] show ?thesis
    by (simp add: bus_ok_def)
qed

lemma bus_ok_failed:
  assumes ok: "bus_ok name L b es bs cs n" and call: "ps_subscribe P (name k) b = Inr (Inl err, b')"
  shows "bus_ok name L b' es bs (n # cs) (Suc n)"
proof -
  note D = bus_okD [OF ok]
  show ?thesis
    using D(3-5) bridges_wf_unused [OF D(2)] subscribe_failed [OF D(1) call] subscribe_inv [OF D(1) call]
    by (simp add: bus_ok_def)
qed

lemma bus_ok_unsubscribe:
  assumes ok: "bus_ok name L b es bs cs n" and e: "gm_get es k = Some e" and name: "inj name"
  obtains err b' where "ps_unsubscribe P (name k) (en_redis e) b = Inr (err, b')"
    "bus_ok name L b' (gm_del k es) bs (en_ctx e # cs) n"
proof -
  note D = bus_okD [OF ok]
  obtain err b' where call: "ps_unsubscribe P (name k) (en_redis e) b = Inr (err, b')" "binv b'"
      "live b' = live b - {(name k, en_redis e)}" "queue b' = queue b" "made b' = made b"
    by (rule unsubscribeE [OF D(1)])
  with D(3-5) bridges_wf_remove [OF D(2) e] subscribed_to_del [OF name e]
  have "bus_ok name L b' (gm_del k es) bs (en_ctx e # cs) n" by (simp add: bus_ok_def)
  with call(1) show ?thesis by (rule that)
qed

lemma bus_ok_return:
  assumes ok: "bus_ok name L b es bs cs n" and br: "br \<in> set bs" "br_ctx br \<in> set cs"
  shows "bus_ok name L b es (remove1 br bs) cs n"
proof -
  note D = bus_okD [OF ok]
  have "set (remove1 br bs) \<subseteq> set bs" by (rule set_remove1_subset)
  with D bridges_wf_return [OF D(2) br] show ?thesis by (auto simp: bus_ok_def)
qed

lemma bus_ok_recv:
  assumes ok: "bus_ok name L b es bs cs n" and br: "br \<in> set bs"
    and call: "ps_recv P (br_ch br) b = (got, b')"
  shows "bus_ok name L b' es bs cs n"
    and "got = Received m \<Longrightarrow> m \<in> messages_on L (name (br_key br))"
    and "got = Drained \<Longrightarrow> br_ctx br \<in> set cs"
proof -
  note D = bus_okD [OF ok]
  note R = recv [OF D(1) call]
  have sub: "set (queue b' (br_ch br)) \<subseteq> set (queue b (br_ch br))"
    using R by (cases got) auto
  have "set (queue b' (br_ch br')) \<subseteq> messages_on L (name (br_key br'))" if "br' \<in> set bs" for br'
  proof (cases "br_ch br' = br_ch br")
    case True
    then show ?thesis using D(5) [OF that] sub by auto
  next
    case False
    then show ?thesis using D(5) [OF that] R by simp
  qed
  with D(2-4) R show "bus_ok name L b' es bs cs n" by (simp add: bus_ok_def)
  show "m \<in> messages_on L (name (br_key br))" if "got = Received m"
    using R D(5) [OF br] that by auto
  show "br_ctx br \<in> set cs" if "got = Drained"
  proof (rule ccontr)
    assume "br_ctx br \<notin> set cs"
    then obtain e where "gm_get es (br_key br) = Some e" "br = bridge_of (br_key br) e"
      using bridges_wfD(5) [OF D(2) br] by blast
    then have "(name (br_key br), br_ch br) \<in> live b"
      unfolding D(3) subscribed_to_def by (metis (mono_tags, lifting) CollectI bridge_of_simps(3))
    with recv_drained [OF D(1) call [unfolded that]] show False by force
  qed
qed

lemma bus_ok_arrive:
  assumes ok: "bus_ok name L b es bs cs n"
  obtains b' where "arrive m b = Inr b'" "bus_ok name (insert m L) b' es bs cs n"
proof -
  note D = bus_okD [OF ok]
  obtain b' where call: "arrive m b = Inr b'" "binv b'" "live b' = live b" "made b' = made b"
    "(\<forall>d. queue b' d = queue b d) \<or>
     (\<forall>d. queue b' d = (if (m_channel m, d) \<in> live b then accept m (queue b d) else queue b d))"
    by (rule arriveE [OF D(1)])
  have "set (queue b' (br_ch br)) \<subseteq> messages_on (insert m L) (name (br_key br))" if br: "br \<in> set bs" for br
  proof (cases "(m_channel m, br_ch br) \<in> live b \<and> queue b' (br_ch br) \<noteq> queue b (br_ch br)")
    case True
    then obtain k e where k: "gm_get es k = Some e" "m_channel m = name k" "br_ch br = en_redis e"
      by (auto simp: D(3) subscribed_to_def)
    then have "br = bridge_of k e" using bridges_wfD(2) [OF D(2) br bridges_wfD(6) [OF D(2)]] by simp
    with k have "m \<in> messages_on (insert m L) (name (br_key br))" by (simp add: messages_on_def)
    moreover have "set (queue b' (br_ch br)) \<subseteq> insert m (set (queue b (br_ch br)))"
      using call(5) True by (auto simp: accept_def split: if_splits)
    ultimately show ?thesis using D(5) [OF br] messages_on_mono by blast
  next
    case False
    then have "queue b' (br_ch br) = queue b (br_ch br)" using call(5) by auto
    with D(5) [OF br] messages_on_mono show ?thesis by fastforce
  qed
  with D(2-4) call have "bus_ok name (insert m L) b' es bs cs n" by (simp add: bus_ok_def)
  with call(1) show ?thesis by (rule that)
qed

lemma close_entries_ok:
  assumes "binv b"
  shows "\<exists>b'. close_entries name P es (b, cs) = Inr (b', rev (map (\<lambda>(_, e). en_ctx e) es) @ cs) \<and> binv b' \<and>
    live b' = live b - (\<lambda>(k, e). (name k, en_redis e)) ` set es \<and> queue b' = queue b \<and> made b' = made b"
  using assms
proof (induction es arbitrary: b cs)
  case (Cons ke es)
  obtain k e where ke: "ke = (k, e)" by (cases ke)
  obtain err b1 where call: "ps_unsubscribe P (name k) (en_redis e) b = Inr (err, b1)" "binv b1"
      "live b1 = live b - {(name k, en_redis e)}" "queue b1 = queue b" "made b1 = made b"
    by (rule unsubscribeE [OF Cons.prems])
  from Cons.IH [OF call(2), of "en_ctx e # cs"] call ke show ?case by auto
qed simp

lemma bus_ok_close:
  assumes ok: "bus_ok name L b es bs cs n" and es: "gm_wf es"
  obtains b' cs' where "close_entries name P es (b, cs) = Inr (b', cs')" "bus_ok name L b' [] bs cs' n"
    "br_ctx ` set bs \<subseteq> set cs'"
proof -
  note D = bus_okD [OF ok]
  let ?cs = "rev (map (\<lambda>(_, e). en_ctx e) es) @ cs"
  obtain b' where b': "close_entries name P es (b, cs) = Inr (b', ?cs)" "binv b'"
      "live b' = live b - (\<lambda>(k, e). (name k, en_redis e)) ` set es" "queue b' = queue b" "made b' = made b"
    using close_entries_ok [OF D(1)] by blast
  have "live b' = {}"
    using b'(3) gm_get_Some_iff [OF es] unfolding D(3) subscribed_to_def by auto
  then have "bus_ok name L b' [] bs ?cs n"
    using b' D(4,5) bridges_wf_close(1) [OF D(2) es] by (simp add: bus_ok_def)
  moreover have "br_ctx ` set bs \<subseteq> set ?cs" using bridges_wf_close(2) [OF D(2) es] by blast
  ultimately show ?thesis using b'(1) that by blast
qed

end

end
