(* ===== verification/Registry.thy ===== *)
theory Registry
  imports Bridges
begin

text \<open>
  The contract that the two in-memory stores share and the two hubs count on: under each key
  (a post, a chat room) a finite set of members (connections, users), with an operation that
  adds a member, one that removes a member and says whether it was the last, and a size.
  A store may refuse to add a member that is not eligible (\<open>can\<close>); then nothing changes.
  The hubs keep a reference count per key; the lemmas are the arithmetic of those counts.
\<close>

locale registry =
  fixes wf :: "'s \<Rightarrow> bool"
    and members :: "'s \<Rightarrow> 'k \<Rightarrow> 'm set"
    and count :: "'k \<Rightarrow> 's \<Rightarrow> nat"
    and can :: "'s \<Rightarrow> 'm \<Rightarrow> bool"
    and add :: "'k \<Rightarrow> 'm \<Rightarrow> 'x \<Rightarrow> 's \<Rightarrow> 's"
    and remove :: "'k \<Rightarrow> 'm \<Rightarrow> 's \<Rightarrow> 's"
    and was_last :: "'k \<Rightarrow> 'm \<Rightarrow> 's \<Rightarrow> bool"
  assumes finite_members: "wf s \<Longrightarrow> finite (members s k)"
    and count_card: "wf s \<Longrightarrow> count k s = card (members s k)"
    and wf_add: "wf s \<Longrightarrow> wf (add k m x s)"
    and wf_remove: "wf s \<Longrightarrow> wf (remove k m s)"
    and members_add:
      "wf s \<Longrightarrow> members (add k m x s) j =
         (if j = k \<and> can s m then insert m (members s k) else members s j)"
    and members_remove:
      "wf s \<Longrightarrow> members (remove k m s) j = (if j = k then members s k - {m} else members s j)"
    and last_iff: "wf s \<Longrightarrow> was_last k m s \<longleftrightarrow> members s k = {m}"
begin

lemma count_add:
  "wf s \<Longrightarrow> count j (add k m x s) =
     (if j = k \<and> can s m \<and> m \<notin> members s k then Suc (count k s) else count j s)"
  by (auto simp: count_card wf_add members_add finite_members insert_absorb)

lemma count_remove:
  "wf s \<Longrightarrow> count j (remove k m s) =
     (if j = k \<and> m \<in> members s k then count k s - 1 else count j s)"
  by (auto simp: count_card wf_remove members_remove)

lemma count_zero: "wf s \<Longrightarrow> count k s = 0 \<longleftrightarrow> members s k = {}"
  by (simp add: count_card finite_members)

lemma last_member: "wf s \<Longrightarrow> was_last k m s \<Longrightarrow> m \<in> members s k \<and> count k (remove k m s) = 0"
  by (simp add: last_iff count_zero wf_remove members_remove)

lemma count_pos: "wf s \<Longrightarrow> m \<in> members s k \<Longrightarrow> 0 < count k s"
  using count_zero by fastforce

lemma last_count: "wf s \<Longrightarrow> m \<in> members s k \<Longrightarrow> was_last k m s \<longleftrightarrow> count k s = 1"
  by (auto simp: last_iff count_card card_1_singleton_iff)

lemma add_remove: "wf s \<Longrightarrow> m \<notin> members s k \<Longrightarrow> members (remove k m (add k m x s)) = members s"
  by (rule ext) (auto simp: wf_add members_add members_remove)

text \<open>The reference counts of a hub's entries are the sizes of the store, and none is zero.\<close>

definition counted :: "('k, entry) gomap \<Rightarrow> 's \<Rightarrow> bool" where
  "counted es s \<longleftrightarrow> gm_wf es \<and> wf s \<and> (\<forall>k. refs_of es k = int (count k s)) \<and>
     (\<forall>k e. gm_get es k = Some e \<longrightarrow> 0 < en_refs e)"

lemma countedD:
  assumes "counted es s"
  shows "gm_wf es" and "wf s"
    and "refs_of es k = int (count k s)"
    and "gm_get es k = Some e \<Longrightarrow> en_refs e = int (count k s)"
    and "gm_get es k = Some e \<Longrightarrow> 0 < en_refs e"
    and "gm_get es k = None \<longleftrightarrow> members s k = {}"
proof -
  note ok = assms [unfolded counted_def]
  show "gm_wf es" "wf s" using ok by auto
  show n: "refs_of es k = int (count k s)" for k using ok by blast
  then show refs: "en_refs e = int (count k s)" if "gm_get es k = Some e"
    using that by (metis refs_of_get)
  show pos: "0 < en_refs e" if "gm_get es k = Some e" for k e using ok that by blast
  have "members s k = {} \<longleftrightarrow> count k s = 0"
    using count_zero \<open>wf s\<close> by blast
  with n [of k] pos [of k] show "gm_get es k = None \<longleftrightarrow> members s k = {}"
    by (cases "gm_get es k") (auto simp: refs_of_def)
qed

lemma counted_Nil: "wf s \<Longrightarrow> (\<And>k. members s k = {}) \<Longrightarrow> counted [] s"
  by (simp add: counted_def gm_wf_def refs_of_def count_zero)

text \<open>
  Between the two halves of a join the entry may have been made but not counted; \<open>counted_add\<close>
  is about the second half.
\<close>

lemma counted_add:
  assumes wf: "gm_wf es" "wf s"
    and n: "\<And>j. refs_of es j = int (count j s)"
    and pos: "\<And>j e. j \<noteq> k \<Longrightarrow> gm_get es j = Some e \<Longrightarrow> 0 < en_refs e"
    and entry: "gm_get es k = Some e" and new: "m \<notin> members s k" "can s m"
  shows "counted (gm_put k (e\<lparr>en_refs := en_refs e + 1\<rparr>) es) (add k m x s)"
proof -
  have st: "count j (add k m x s) = (if j = k then Suc (count k s) else count j s)" for j
    using count_add [OF wf(2)] new by simp
  have e: "en_refs e = int (count k s)" using n entry by (metis refs_of_get)
  with wf wf_add [OF wf(2)] st n pos show ?thesis
    by (auto simp: counted_def refs_of_def)
qed

lemma counted_remove:
  assumes ok: "counted es s" and entry: "gm_get es k = Some e" and mem: "m \<in> members s k"
  shows "members s k \<noteq> {m} \<Longrightarrow>
      counted (gm_put k (e\<lparr>en_refs := en_refs e - 1\<rparr>) es) (remove k m s)"
    and "members s k = {m} \<Longrightarrow> counted (gm_del k es) (remove k m s)"
    and "en_refs e \<le> 1 \<longleftrightarrow> members s k = {m}"
proof -
  note D = countedD [OF ok]
  have st: "count j (remove k m s) = (if j = k then count k s - 1 else count j s)" for j
    using count_remove [OF D(2)] mem by simp
  have e: "en_refs e = int (count k s)" "0 < en_refs e" using D(4,5) entry by auto
  have one: "members s k = {m} \<longleftrightarrow> count k s = 1"
    using mem by (auto simp: count_card [OF D(2)] card_1_singleton_iff)
  show "en_refs e \<le> 1 \<longleftrightarrow> members s k = {m}" using e one by linarith
  note wf' = wf_remove [OF D(2)]
  show "counted (gm_put k (e\<lparr>en_refs := en_refs e - 1\<rparr>) es) (remove k m s)" if "members s k \<noteq> {m}"
    using that one D(1,3,5) wf' st e unfolding counted_def refs_of_def by (auto simp: of_nat_diff)
  show "counted (gm_del k es) (remove k m s)" if "members s k = {m}"
    using that one D(1,3,5) wf' st e unfolding counted_def refs_of_def by (auto simp: of_nat_diff)
qed

end

end
