(* ===== verification/Subscription.thy ===== *)
theory Subscription
  imports GoChan Registry
begin

text \<open>
  \<^verbatim>\<open>internal/subscription/inmemorystore.go\<close>: the fan-out table of one gateway,
  \<open>subs[postID][connectionID] = {userID, ch}\<close>. The inner maps are shared by reference in the
  code and written back here. Every method holds the store's lock for its whole body.

  The connection id that \<^verbatim>\<open>Subscribe\<close> draws from \<^verbatim>\<open>uuid.NewString()\<close> is an argument
  (\<open>connectionID\<close>): the generator is a library. The event channels live in a heap that the
  store is given, since the caller owns them.
\<close>

type_synonym event = bytes

record subscriber =
  su_user :: string
  su_ch :: chan_id

type_synonym store = "(string, (string, subscriber) gomap) gomap"

definition new_store :: store where
  "new_store = []"

definition store_subscribe ::
    "string \<Rightarrow> string \<Rightarrow> chan_id \<Rightarrow> string \<Rightarrow> store \<Rightarrow> (string \<times> bool) \<times> store" where
  "store_subscribe postID userID ch connectionID s =
     (let (inner, firstForPost) =
            (case gm_get s postID of None \<Rightarrow> ([], True) | Some inner \<Rightarrow> (inner, False))
      in ((connectionID, firstForPost),
          gm_put postID (gm_put connectionID \<lparr>su_user = userID, su_ch = ch\<rparr> inner) s))"

definition store_unsubscribe :: "string \<Rightarrow> string \<Rightarrow> string \<Rightarrow> store \<Rightarrow> bool \<times> store" where
  "store_unsubscribe postID userID connectionID s =
     (case gm_get s postID of
        None \<Rightarrow> (False, s)
      | Some v \<Rightarrow>
          if gm_get v connectionID = None then (False, s)
          else
            (let v' = gm_del connectionID v
             in if length v' = 0 then (True, gm_del postID s)
                else (False, gm_put postID v' s)))"

definition store_publish :: "string \<Rightarrow> event \<Rightarrow> store \<Rightarrow> event heap \<Rightarrow> panic + event heap" where
  "store_publish postID ev s h =
     (case gm_get s postID of
        None \<Rightarrow> Inr h
      | Some inner \<Rightarrow> fan_out (map (\<lambda>(_, sub). su_ch sub) inner) ev h)"

definition store_subscribers :: "string \<Rightarrow> store \<Rightarrow> nat" where
  "store_subscribers postID s =
     (case gm_get s postID of None \<Rightarrow> 0 | Some inner \<Rightarrow> length inner)"

definition store_close :: "store \<Rightarrow> event heap \<Rightarrow> panic + (store \<times> event heap)" where
  "store_close s h =
     sum_map (\<lambda>h'. ([], h'))
       (close_all (concat (map (\<lambda>(_, inner). map (\<lambda>(_, sub). su_ch sub) inner) s)) h)"

subsection \<open>The table as a partial function\<close>

text \<open>
  \<open>store_at s p c\<close> is the subscription of connection \<open>c\<close> to post \<open>p\<close>. A well-formed store has
  no empty inner map: the last \<^verbatim>\<open>Unsubscribe\<close> of a post deletes the post.
\<close>

definition store_at :: "store \<Rightarrow> string \<Rightarrow> string \<Rightarrow> subscriber option" where
  "store_at s p c = (case gm_get s p of None \<Rightarrow> None | Some inner \<Rightarrow> gm_get inner c)"

definition store_wf :: "store \<Rightarrow> bool" where
  "store_wf s \<longleftrightarrow> gm_wf s \<and> (\<forall>p inner. gm_get s p = Some inner \<longrightarrow> gm_wf inner \<and> inner \<noteq> [])"

definition store_conns :: "store \<Rightarrow> string \<Rightarrow> string set" where
  "store_conns s p = dom (store_at s p)"

lemma store_wfD:
  "store_wf s \<Longrightarrow> gm_wf s"
  "store_wf s \<Longrightarrow> gm_get s p = Some inner \<Longrightarrow> gm_wf inner"
  "store_wf s \<Longrightarrow> gm_get s p = Some inner \<Longrightarrow> inner \<noteq> []"
  by (auto simp: store_wf_def)

lemma new_store_simps [simp]: "store_wf new_store" "store_at new_store p c = None"
  by (simp_all add: store_wf_def new_store_def store_at_def)

lemma store_at_Nil [simp]: "store_at [] p c = None"
  by (simp add: store_at_def)

lemma store_at_subscribe:
  "store_at (snd (store_subscribe p u ch c s)) q d =
     (if q = p \<and> d = c then Some \<lparr>su_user = u, su_ch = ch\<rparr> else store_at s q d)"
  by (auto simp: store_subscribe_def store_at_def split: option.splits)

lemma store_wf_subscribe: "store_wf s \<Longrightarrow> store_wf (snd (store_subscribe p u ch c s))"
  by (auto simp: store_wf_def store_subscribe_def gm_wf_Cons split: option.splits if_splits)

lemma store_at_unsubscribe:
  "store_at (snd (store_unsubscribe p u c s)) q d =
     (if q = p \<and> d = c then None else store_at s q d)"
proof (cases "gm_get s p")
  case (Some v)
  show ?thesis
  proof (cases "gm_get v c = None \<or> gm_del c v \<noteq> []")
    case True
    with Some show ?thesis
      by (auto simp: store_unsubscribe_def store_at_def split: option.splits if_splits)
  next
    case False
    then have "gm_get v e = None" if "e \<noteq> c" for e
      using that by (auto simp: gm_del_eq_Nil)
    with False Some show ?thesis
      by (auto simp: store_unsubscribe_def store_at_def split: option.splits)
  qed
qed (auto simp: store_unsubscribe_def store_at_def split: option.splits)

lemma store_wf_unsubscribe: "store_wf s \<Longrightarrow> store_wf (snd (store_unsubscribe p u c s))"
  by (auto simp: store_wf_def store_unsubscribe_def Let_def split: option.splits if_splits)

lemma store_conns_get:
  "gm_get s p = Some inner \<Longrightarrow> store_conns s p = fst ` set inner"
  "gm_get s p = None \<Longrightarrow> store_conns s p = {}"
proof -
  show "store_conns s p = fst ` set inner" if "gm_get s p = Some inner"
  proof -
    have "store_at s p = gm_get inner" using that by (auto simp: store_at_def)
    then show ?thesis by (simp add: store_conns_def dom_map_of_conv_image_fst)
  qed
  show "store_conns s p = {}" if "gm_get s p = None"
    using that by (auto simp: store_conns_def store_at_def)
qed

lemma store_conns_empty: "store_wf s \<Longrightarrow> store_conns s p = {} \<longleftrightarrow> gm_get s p = None"
  using store_conns_get store_wfD(3) by (cases "gm_get s p") auto

interpretation conns: registry store_wf store_conns store_subscribers "\<lambda>_ _. True"
  "\<lambda>p c (sub :: subscriber) s. snd (store_subscribe p (su_user sub) (su_ch sub) c s)"
  "\<lambda>p c s. snd (store_unsubscribe p u c s)"
  "\<lambda>p c s. fst (store_unsubscribe p u c s)"
proof unfold_locales
  fix s k m and x :: subscriber and j
  assume wf: "store_wf s"
  show "finite (store_conns s k)"
    using store_conns_get by (cases "gm_get s k") auto
  show "store_subscribers k s = card (store_conns s k)"
  proof (cases "gm_get s k")
    case (Some inner)
    then have "distinct (map fst inner)" using store_wfD(2) [OF wf] by (simp add: gm_wf_def)
    then have "card (fst ` set inner) = length inner" using distinct_card by fastforce
    with Some show ?thesis by (simp add: store_subscribers_def store_conns_get)
  qed (simp add: store_subscribers_def store_conns_get)
  show "store_wf (snd (store_subscribe k (su_user x) (su_ch x) m s))"
    by (rule store_wf_subscribe [OF wf])
  show "store_wf (snd (store_unsubscribe k u m s))"
    by (rule store_wf_unsubscribe [OF wf])
  show "store_conns (snd (store_subscribe k (su_user x) (su_ch x) m s)) j =
      (if j = k \<and> True then insert m (store_conns s k) else store_conns s j)"
    by (auto simp: store_conns_def store_at_subscribe)
  show "store_conns (snd (store_unsubscribe k u m s)) j =
      (if j = k then store_conns s k - {m} else store_conns s j)"
    by (auto simp: store_conns_def store_at_unsubscribe split: if_splits)
  show "fst (store_unsubscribe k u m s) \<longleftrightarrow> store_conns s k = {m}"
  proof (cases "gm_get s k")
    case (Some v)
    show ?thesis
    proof (cases "gm_get v m")
      case None
      then have "m \<notin> store_conns s k" using Some by (auto simp: store_conns_def store_at_def)
      with None Some show ?thesis by (auto simp: store_unsubscribe_def)
    next
      case (Some sub)
      with \<open>gm_get s k = Some v\<close> have "fst (store_unsubscribe k u m s) \<longleftrightarrow> gm_del m v = []"
        by (simp add: store_unsubscribe_def Let_def)
      also have "\<dots> \<longleftrightarrow> store_conns s k = {m}"
        using Some \<open>gm_get s k = Some v\<close>
        by (auto simp: gm_del_eq_Nil store_conns_def store_at_def dom_def)
      finally show ?thesis .
    qed
  qed (simp add: store_unsubscribe_def store_conns_get)
qed

subsection \<open>Delivery and shutdown\<close>

text \<open>
  \<open>store_chans_ok s h\<close>: every registered channel is open and no channel is registered twice.
  This is what makes a send or a close safe; the hub establishes it by giving every connection
  a channel of its own.
\<close>

definition store_chans_ok :: "store \<Rightarrow> event heap \<Rightarrow> bool" where
  "store_chans_ok s h \<longleftrightarrow>
     (\<forall>p c sub. store_at s p c = Some sub \<longrightarrow> is_open h (su_ch sub)) \<and>
     (\<forall>p c q d sub sub'. store_at s p c = Some sub \<longrightarrow> store_at s q d = Some sub' \<longrightarrow>
        su_ch sub = su_ch sub' \<longrightarrow> p = q \<and> c = d)"

definition post_chans :: "store \<Rightarrow> string \<Rightarrow> chan_id set" where
  "post_chans s p = {su_ch sub | c sub. store_at s p c = Some sub}"

lemma store_chans_okD:
  assumes "store_chans_ok s h"
  shows "store_at s p c = Some sub \<Longrightarrow> is_open h (su_ch sub)"
    and "store_at s p c = Some sub \<Longrightarrow> store_at s q d = Some sub' \<Longrightarrow> su_ch sub = su_ch sub' \<Longrightarrow>
           p = q \<and> c = d"
  using assms unfolding store_chans_ok_def by blast+

lemma post_chans_inner:
  assumes "store_wf s" and "gm_get s p = Some inner"
  shows "post_chans s p = su_ch ` snd ` set inner"
proof -
  have "store_at s p c = Some sub \<longleftrightarrow> (c, sub) \<in> set inner" for c sub
    using assms store_wfD(2) by (simp add: store_at_def gm_get_Some_iff)
  then show ?thesis by (force simp: post_chans_def)
qed

lemma store_publish_ok:
  assumes wf: "store_wf s" and ok: "store_chans_ok s h"
  shows "store_publish p ev s h = Inr (offer_to (post_chans s p) ev h)"
proof (cases "gm_get s p")
  case None
  then have "post_chans s p = {}" by (simp add: post_chans_def store_at_def)
  with None show ?thesis by (simp add: store_publish_def)
next
  case (Some inner)
  have at: "store_at s p c = Some sub" if "(c, sub) \<in> set inner" for c sub
    using that Some store_wfD(2) [OF wf Some] by (simp add: store_at_def gm_get_Some_iff [symmetric])
  have "distinct (map (\<lambda>(_, sub). su_ch sub) inner)"
    by (rule gm_distinct_map [OF store_wfD(2) [OF wf Some]])
      (use at store_chans_okD(2) [OF ok] in blast)
  moreover have "\<forall>c\<in>set (map (\<lambda>(_, sub). su_ch sub) inner). is_open h c"
    by (auto intro: store_chans_okD(1) [OF ok at])
  moreover have "set (map (\<lambda>(_, sub). su_ch sub) inner) = post_chans s p"
    using post_chans_inner [OF wf Some] by force
  ultimately have "fan_out (map (\<lambda>(_, sub). su_ch sub) inner) ev h = Inr (offer_to (post_chans s p) ev h)"
    using fan_out_open by metis
  with Some show ?thesis by (simp add: store_publish_def)
qed

lemma store_wf_Cons:
  "store_wf ((p, inner) # s) \<longleftrightarrow>
     gm_get s p = None \<and> gm_wf inner \<and> inner \<noteq> [] \<and> store_wf s" (is "?l \<longleftrightarrow> ?r")
proof
  assume l: ?l
  from l have new: "gm_get s p = None" and wf: "gm_wf s"
    by (simp_all add: store_wf_def gm_wf_Cons)
  have "gm_wf i \<and> i \<noteq> []" if "gm_get s q = Some i" for q i
  proof -
    have "gm_get ((p, inner) # s) q = Some i" using that new by auto
    with store_wfD(2,3) [OF l] show ?thesis by blast
  qed
  with new wf store_wfD(2,3) [OF l, of p inner] show ?r by (simp add: store_wf_def)
next
  assume ?r
  then show ?l by (simp add: store_wf_def gm_wf_Cons)
qed

lemma distinct_all_chans:
  assumes "store_wf s" and "store_chans_ok s h"
  shows "distinct (concat (map (\<lambda>(_, inner). map (\<lambda>(_, sub). su_ch sub) inner) s))"
  using assms
proof (induction s)
  case (Cons e s)
  obtain p inner where e: "e = (p, inner)" by (cases e)
  with Cons.prems(1) have wf: "store_wf s" and new: "gm_get s p = None" and inner: "gm_wf inner"
    by (auto simp: store_wf_Cons)
  have lift: "store_at (e # s) q c = store_at s q c" if "q \<noteq> p" for q c
    using that e by (simp add: store_at_def)
  have at: "store_at (e # s) p c = gm_get inner c" for c
    using e by (simp add: store_at_def)
  have none: "store_at s p c = None" for c using new by (simp add: store_at_def)
  have ok: "store_chans_ok s h"
    unfolding store_chans_ok_def
    using store_chans_okD [OF Cons.prems(2)] lift none by (metis option.distinct(1))
  have "distinct (map (\<lambda>(_, sub). su_ch sub) inner)"
    by (rule gm_distinct_map [OF inner])
      (use at store_chans_okD(2) [OF Cons.prems(2)] gm_get_Some_iff [OF inner] in metis)
  moreover have "su_ch sub \<noteq> su_ch sub'"
    if "(c, sub) \<in> set inner" "(q, inner') \<in> set s" "(d, sub') \<in> set inner'" for c sub q inner' d sub'
  proof -
    have q: "gm_get s q = Some inner'" using that(2) store_wfD(1) [OF wf] by (simp add: gm_get_Some_iff)
    with new have "q \<noteq> p" by auto
    moreover have "store_at s q d = Some sub'"
      using q that(3) store_wfD(2) [OF wf q] by (simp add: store_at_def gm_get_Some_iff)
    moreover have "store_at (e # s) p c = Some sub"
      using at that(1) gm_get_Some_iff [OF inner] by simp
    ultimately show ?thesis using store_chans_okD(2) [OF Cons.prems(2)] lift by metis
  qed
  ultimately show ?case using Cons.IH [OF wf ok] e by fastforce
qed simp

lemma store_close_ok:
  assumes wf: "store_wf s" and ok: "store_chans_ok s h"
  shows "store_close s h = Inr ([], mark_closed (\<Union>p. post_chans s p) h)"
proof -
  let ?cs = "concat (map (\<lambda>(_, inner). map (\<lambda>(_, sub). su_ch sub) inner) s)"
  have entry: "(p, inner) \<in> set s \<longleftrightarrow> gm_get s p = Some inner" for p inner
    using store_wfD(1) [OF wf] by (simp add: gm_get_Some_iff)
  have "set ?cs = (\<Union>(p, inner)\<in>set s. su_ch ` snd ` set inner)"
    by force
  also have "\<dots> = (\<Union>(p, inner)\<in>set s. post_chans s p)"
  proof (rule SUP_cong [OF refl])
    fix e
    assume mem: "e \<in> set s"
    obtain p inner where e: "e = (p, inner)" by fastforce
    with mem have "gm_get s p = Some inner" by (simp add: entry)
    with e show "(case e of (p, inner) \<Rightarrow> su_ch ` snd ` set inner) = (case e of (p, inner) \<Rightarrow> post_chans s p)"
      by (simp add: post_chans_inner [OF wf])
  qed
  also have "\<dots> = (\<Union>p. post_chans s p)"
  proof -
    have "post_chans s p = {}" if "gm_get s p = None" for p
      using that by (simp add: post_chans_def store_at_def)
    moreover have "\<exists>inner. (p, inner) \<in> set s" if "gm_get s p \<noteq> None" for p
      using that entry by auto
    ultimately show ?thesis by (auto simp: image_iff)
  qed
  finally have set: "set ?cs = (\<Union>p. post_chans s p)" .
  then have "\<forall>c\<in>set ?cs. is_open h c"
    using store_chans_okD(1) [OF ok] by (auto simp: post_chans_def)
  then have "close_all ?cs h = Inr (mark_closed (\<Union>p. post_chans s p) h)"
    using close_all_open [OF distinct_all_chans [OF wf ok]] unfolding set by blast
  then show ?thesis by (simp add: store_close_def)
qed

end
