(* ===== verification/FeedHub.thy ===== *)
theory FeedHub
  imports Subscription
begin

text \<open>
  \<^verbatim>\<open>internal/feed/hub.go\<close>: the per-post bridge between the bus and the store of one gateway.

  The hub is a client of the interface \<^verbatim>\<open>pubsub.PubSub\<close>: every operation takes the interface
  value \<open>P\<close>, and the lemmas are proved once for any implementation that keeps the contract
  \<open>pubsub_bus\<close>. Methods hold \<^verbatim>\<open>Hub.mu\<close> for their whole body and are one operation each; a
  bridge goroutine is an entry of \<open>hb_bridges\<close>, and one turn of its loop is \<open>bridge_step\<close>.
\<close>

record 'b hub =
  hb_bus :: 'b
  hb_store :: store
  hb_posts :: entries
  hb_events :: "event heap"
  hb_bridges :: "bridge list"
  hb_cancelled :: "nat list"
  hb_next :: nat

definition new_hub :: "'b \<Rightarrow> store \<Rightarrow> 'b hub" where
  "new_hub bus st =
     \<lparr>hb_bus = bus, hb_store = st, hb_posts = [], hb_events = empty_heap,
      hb_bridges = [], hb_cancelled = [], hb_next = 0\<rparr>"

definition cancel_ctx :: "nat \<Rightarrow> 'b hub \<Rightarrow> 'b hub" where
  "cancel_ctx c h = h\<lparr>hb_cancelled := c # hb_cancelled h\<rparr>"

text \<open>The part of \<^verbatim>\<open>Acquire\<close> after the entry is known: count the viewer and register its channel.\<close>

definition acquire_finish ::
    "string \<Rightarrow> string \<Rightarrow> string \<Rightarrow> chan_id \<Rightarrow> entry \<Rightarrow> 'b hub \<Rightarrow>
       (bus_error + (chan_id \<times> string)) \<times> 'b hub" where
  "acquire_finish postID userID uuid ch entry h =
     (let posts = gm_put postID (entry\<lparr>en_refs := en_refs entry + 1\<rparr>) (hb_posts h);
          ((connID, _), st) = store_subscribe postID userID ch uuid (hb_store h)
      in (Inr (ch, connID), h\<lparr>hb_posts := posts, hb_store := st\<rparr>))"

definition hub_acquire ::
    "'b pubsub \<Rightarrow> string \<Rightarrow> string \<Rightarrow> string \<Rightarrow> 'b hub \<Rightarrow>
       panic + ((bus_error + (chan_id \<times> string)) \<times> 'b hub)" where
  "hub_acquire P postID userID uuid h =
     (let (ch, ev) = make_chan 64 (hb_events h);
          h = h\<lparr>hb_events := ev\<rparr>
      in case gm_get (hb_posts h) postID of
           Some entry \<Rightarrow> Inr (acquire_finish postID userID uuid ch entry h)
         | None \<Rightarrow>
             (let bridgeCtx = hb_next h;
                  h = h\<lparr>hb_next := Suc bridgeCtx\<rparr>
              in sum_bind (ps_subscribe P (post_channel postID) (hb_bus h)) (\<lambda>(res, bus).
                   let h = h\<lparr>hb_bus := bus\<rparr>
                   in case res of
                        Inl err \<Rightarrow> Inr (Inl err, cancel_ctx bridgeCtx h)
                      | Inr redisCh \<Rightarrow>
                          (let entry = \<lparr>en_refs = 0, en_redis = redisCh, en_ctx = bridgeCtx\<rparr>;
                               h = h\<lparr>hb_posts := gm_put postID entry (hb_posts h),
                                     hb_bridges := hb_bridges h @
                                       [\<lparr>br_ctx = bridgeCtx, br_key = postID, br_ch = redisCh\<rparr>]\<rparr>
                           in Inr (acquire_finish postID userID uuid ch entry h)))))"

definition hub_release ::
    "'b pubsub \<Rightarrow> string \<Rightarrow> string \<Rightarrow> string \<Rightarrow> 'b hub \<Rightarrow> panic + 'b hub" where
  "hub_release P postID userID connID h =
     (let h = h\<lparr>hb_store := snd (store_unsubscribe postID userID connID (hb_store h))\<rparr>
      in case gm_get (hb_posts h) postID of
           None \<Rightarrow> Inr h
         | Some entry \<Rightarrow>
             (let entry = entry\<lparr>en_refs := en_refs entry - 1\<rparr>
              in if 0 < en_refs entry then
                   Inr (h\<lparr>hb_posts := gm_put postID entry (hb_posts h)\<rparr>)
                 else
                   (let h = cancel_ctx (en_ctx entry) h
                    in sum_bind (ps_unsubscribe P (post_channel postID) (en_redis entry) (hb_bus h))
                         (\<lambda>(_, bus). Inr (h\<lparr>hb_bus := bus, hb_posts := gm_del postID (hb_posts h)\<rparr>)))))"

text \<open>
  One turn of \<^verbatim>\<open>bridge\<close>. A case that is not ready leaves the bridge waiting; a bridge that
  returns leaves the list.
\<close>

definition bridge_returns :: "bridge \<Rightarrow> 'b hub \<Rightarrow> 'b hub" where
  "bridge_returns br h = h\<lparr>hb_bridges := remove1 br (hb_bridges h)\<rparr>"

definition bridge_step ::
    "'b pubsub \<Rightarrow> bridge \<Rightarrow> bridge_case \<Rightarrow> 'b hub \<Rightarrow> panic + 'b hub" where
  "bridge_step P br c h =
     (case c of
        BridgeDone \<Rightarrow>
          Inr (if br_ctx br \<in> set (hb_cancelled h) then bridge_returns br h else h)
      | BridgeMessage \<Rightarrow>
          (let (got, bus) = ps_recv P (br_ch br) (hb_bus h);
               h = h\<lparr>hb_bus := bus\<rparr>
           in case got of
                Blocked \<Rightarrow> Inr h
              | Drained \<Rightarrow> Inr (bridge_returns br h)
              | Received msg \<Rightarrow>
                  sum_map (\<lambda>ev. h\<lparr>hb_events := ev\<rparr>)
                    (store_publish (br_key br) (m_payload msg) (hb_store h) (hb_events h))))"

definition hub_close :: "'b pubsub \<Rightarrow> 'b hub \<Rightarrow> panic + 'b hub" where
  "hub_close P h =
     sum_bind (close_entries post_channel P (hb_posts h) (hb_bus h, hb_cancelled h)) (\<lambda>(bus, cs).
       let h = h\<lparr>hb_bus := bus, hb_cancelled := cs, hb_posts := []\<rparr>
       in sum_map (\<lambda>(st, ev). h\<lparr>hb_store := st, hb_events := ev\<rparr>)
            (store_close (hb_store h) (hb_events h)))"

subsection \<open>The invariant of the hub\<close>

text \<open>
  Four parts: the bus part shared by both hubs (\<open>bus_ok\<close>); the reference count of a post is the
  number of its connections in the store (\<open>conns.counted\<close>); every connection has an open event
  channel of its own with 64 places (\<open>chans_ok\<close>); and a connection's channel holds only payloads
  of messages of its post out of the set \<open>L\<close> of those that have arrived (\<open>traced\<close>).
\<close>

definition chans_ok :: "store \<Rightarrow> event heap \<Rightarrow> bool" where
  "chans_ok st ev \<longleftrightarrow> heap_wf ev \<and> store_chans_ok st ev \<and>
     (\<forall>p c sub. store_at st p c = Some sub \<longrightarrow> map_option ch_cap (cells ev (su_ch sub)) = Some 64)"

lemma chans_ok_subscribe:
  assumes ok: "chans_ok st ev" and mk: "make_chan 64 ev = (ch, ev')"
  shows "chans_ok (snd (store_subscribe p u ch c st)) ev'"
    and "store_at st q d = Some sub \<Longrightarrow> su_ch sub \<noteq> ch"
    and "chans_ok st ev'"
proof -
  have wf: "heap_wf ev" and sok: "store_chans_ok st ev"
    and cap: "\<And>p c sub. store_at st p c = Some sub \<Longrightarrow> map_option ch_cap (cells ev (su_ch sub)) = Some 64"
    using ok by (auto simp: chans_ok_def)
  have none: "cells ev ch = None" and ev': "cells ev' = (cells ev)(ch \<mapsto> \<lparr>ch_buf = [], ch_cap = 64, ch_closed = False\<rparr>)"
    using make_chan_fresh [OF wf mk] cells_make_chan [OF mk] by auto
  show old: "su_ch sub \<noteq> ch" if "store_at st q d = Some sub" for q d sub
    using is_open_allocated [OF store_chans_okD(1) [OF sok that]] none by auto
  have wf1: "heap_wf ev'" using heap_wf_make [OF wf, of 64] mk by simp
  have same: "is_open ev' x = is_open ev x" "cells ev' x = cells ev x" if "x \<noteq> ch" for x
    using that ev' by (auto simp: is_open_def)
  have fresh: "is_open ev' ch" "map_option ch_cap (cells ev' ch) = Some 64"
    using ev' by (auto simp: is_open_def)
  have open': "is_open ev' (su_ch sub) \<and> map_option ch_cap (cells ev' (su_ch sub)) = Some 64"
    if "store_at st q d = Some sub" for q d sub
    using same [OF old [OF that]] store_chans_okD(1) [OF sok that] cap [OF that] by simp
  then show "chans_ok st ev'"
    using wf1 sok unfolding chans_ok_def store_chans_ok_def by blast
  let ?st = "snd (store_subscribe p u ch c st)"
  have at: "(q = p \<and> d = c \<and> su_ch sub = ch) \<or> store_at st q d = Some sub"
    if "store_at ?st q d = Some sub" for q d sub
    using that by (auto simp: store_at_subscribe split: if_splits)
  have "is_open ev' (su_ch sub) \<and> map_option ch_cap (cells ev' (su_ch sub)) = Some 64"
    if "store_at ?st q d = Some sub" for q d sub
    using at [OF that] open' fresh by auto
  moreover have "q = q' \<and> d = d'"
    if "store_at ?st q d = Some sub" "store_at ?st q' d' = Some sub'" "su_ch sub = su_ch sub'"
    for q q' d d' sub sub'
    using at [OF that(1)] at [OF that(2)] that(3) old store_chans_okD(2) [OF sok] by metis
  ultimately show "chans_ok ?st ev'"
    using wf1 unfolding chans_ok_def store_chans_ok_def by blast
qed

lemma chans_ok_mono:
  "chans_ok st ev \<Longrightarrow> (\<And>p c sub. store_at st' p c = Some sub \<Longrightarrow> store_at st p c = Some sub) \<Longrightarrow>
     chans_ok st' ev"
  unfolding chans_ok_def store_chans_ok_def by meson

lemma chans_ok_unsubscribe: "chans_ok st ev \<Longrightarrow> chans_ok (snd (store_unsubscribe p u c st)) ev"
  by (erule chans_ok_mono) (auto simp: store_at_unsubscribe split: if_splits)

lemma chans_ok_offer: "chans_ok st ev \<Longrightarrow> chans_ok st (offer_to A e ev)"
proof -
  assume ok: "chans_ok st ev"
  have "map_option ch_cap (cells (offer_to A e ev) c) = map_option ch_cap (cells ev c)" for c
    by (cases "cells ev c") simp_all
  with ok show ?thesis by (simp add: chans_ok_def store_chans_ok_def)
qed

lemma chans_ok_recv: "chans_ok st ev \<Longrightarrow> recv_chan c ev = (got, ev') \<Longrightarrow> chans_ok st ev'"
  unfolding chans_ok_def store_chans_ok_def
  using heap_wf_recv recv_is_open recv_cap by metis

abbreviation post_messages :: "message set \<Rightarrow> string \<Rightarrow> message set" where
  "post_messages L p \<equiv> messages_on L (post_channel p)"

definition traced :: "message set \<Rightarrow> store \<Rightarrow> event heap \<Rightarrow> bool" where
  "traced L st ev \<longleftrightarrow>
     (\<forall>p c sub. store_at st p c = Some sub \<longrightarrow>
        set (buffered ev (su_ch sub)) \<subseteq> m_payload ` post_messages L p)"

lemma traced_subscribe:
  assumes "chans_ok st ev" and "traced L st ev" and mk: "make_chan 64 ev = (ch, ev')"
  shows "traced L (snd (store_subscribe p u ch c st)) ev'" and "traced L st ev'"
proof -
  have ev': "cells ev' = (cells ev)(ch \<mapsto> \<lparr>ch_buf = [], ch_cap = 64, ch_closed = False\<rparr>)"
    by (rule cells_make_chan [OF mk])
  then have "buffered ev' ch = []" "\<And>x. x \<noteq> ch \<Longrightarrow> buffered ev' x = buffered ev x"
    by (simp_all add: buffered_def)
  moreover note chans_ok_subscribe(2) [OF assms(1) mk]
  ultimately show "traced L (snd (store_subscribe p u ch c st)) ev'" "traced L st ev'"
    using assms(2) unfolding traced_def by (auto simp: store_at_subscribe split: if_splits)
qed

lemma traced_publish:
  assumes chans: "chans_ok st ev" and traced: "traced L st ev" and m: "m \<in> post_messages L p"
  shows "traced L st (offer_to (post_chans st p) (m_payload m) ev)"
  unfolding traced_def
proof (intro allI impI)
  fix q c sub
  assume at: "store_at st q c = Some sub"
  have old: "set (buffered ev (su_ch sub)) \<subseteq> m_payload ` post_messages L q"
    using traced at by (simp add: traced_def)
  show "set (buffered (offer_to (post_chans st p) (m_payload m) ev) (su_ch sub))
      \<subseteq> m_payload ` post_messages L q"
  proof (cases "su_ch sub \<in> post_chans st p")
    case True
    then obtain d sub' where "store_at st p d = Some sub'" "su_ch sub' = su_ch sub"
      by (auto simp: post_chans_def)
    with at chans have "q = p" unfolding chans_ok_def using store_chans_okD(2) by blast
    with m old buffered_offer_to_subset [of _ "m_payload m" ev "su_ch sub"] show ?thesis
      by blast
  next
    case False
    with old show ?thesis by simp
  qed
qed

context pubsub_bus begin

definition hub_inv :: "message set \<Rightarrow> 'b hub \<Rightarrow> bool" where
  "hub_inv L h \<longleftrightarrow>
     bus_ok post_channel L (hb_bus h) (hb_posts h) (hb_bridges h) (hb_cancelled h) (hb_next h) \<and>
     conns.counted (hb_posts h) (hb_store h) \<and> chans_ok (hb_store h) (hb_events h) \<and>
     traced L (hb_store h) (hb_events h)"

lemma hub_invD:
  assumes "hub_inv L h"
  shows "bus_ok post_channel L (hb_bus h) (hb_posts h) (hb_bridges h) (hb_cancelled h) (hb_next h)"
    and "conns.counted (hb_posts h) (hb_store h)" and "chans_ok (hb_store h) (hb_events h)"
    and "traced L (hb_store h) (hb_events h)"
  using assms by (auto simp: hub_inv_def)

lemma new_hub_inv: "binv bus \<Longrightarrow> live bus = {} \<Longrightarrow> hub_inv L (new_hub bus new_store)"
proof -
  assume "binv bus" "live bus = {}"
  moreover have "conns.counted [] new_store"
    by (rule conns.counted_Nil) (simp_all add: store_conns_def dom_def)
  ultimately show ?thesis
    by (simp add: hub_inv_def new_hub_def bus_ok_new chans_ok_def store_chans_ok_def traced_def)
qed

lemma acquire_finish_inv:
  assumes bus: "bus_ok post_channel L (hb_bus h) (hb_posts h) (hb_bridges h) (hb_cancelled h) (hb_next h)"
    and wf: "gm_wf (hb_posts h)" "store_wf (hb_store h)"
    and n: "\<And>q. refs_of (hb_posts h) q = int (store_subscribers q (hb_store h))"
    and pos: "\<And>q e. q \<noteq> p \<Longrightarrow> gm_get (hb_posts h) q = Some e \<Longrightarrow> 0 < en_refs e"
    and entry: "gm_get (hb_posts h) p = Some e" and new: "c \<notin> store_conns (hb_store h) p"
    and chans: "chans_ok (hb_store h) ev" "make_chan 64 ev = (ch, hb_events h)"
    and traced: "traced L (hb_store h) ev"
  obtains h' where "acquire_finish p u c ch e h = (Inr (ch, c), h')" "hub_inv L h'"
    "hb_store h' = snd (store_subscribe p u ch c (hb_store h))" "hb_events h' = hb_events h"
proof -
  let ?posts = "gm_put p (e\<lparr>en_refs := en_refs e + 1\<rparr>) (hb_posts h)"
  let ?st = "snd (store_subscribe p u ch c (hb_store h))"
  let ?h = "h\<lparr>hb_posts := ?posts, hb_store := ?st\<rparr>"
  have "fst (store_subscribe p u ch c (hb_store h)) = (c, gm_get (hb_store h) p = None)"
    by (simp add: store_subscribe_def split: option.splits)
  then have eq: "acquire_finish p u c ch e h = (Inr (ch, c), ?h)"
    by (cases "store_subscribe p u ch c (hb_store h)") (simp add: acquire_finish_def)
  have "conns.counted ?posts ?st"
    using conns.counted_add [OF wf n pos entry new, where x = "\<lparr>su_user = u, su_ch = ch\<rparr>"] by simp
  then have "hub_inv L ?h"
    unfolding hub_inv_def
    using bus_ok_count [OF bus entry] chans_ok_subscribe(1) [OF chans]
      traced_subscribe(1) [OF chans(1) traced chans(2)]
    by simp
  with eq show ?thesis by (intro that [of ?h]) simp_all
qed

lemma hub_acquire_cases:
  assumes inv: "hub_inv L h" and new: "c \<notin> store_conns (hb_store h) p"
  obtains (failed) err h' where "hub_acquire P p u c h = Inr (Inl err, h')" "hub_inv L h'"
      "hb_store h' = hb_store h"
  | (joined) ch h' where "hub_acquire P p u c h = Inr (Inr (ch, c), h')" "hub_inv L h'"
      "hb_store h' = snd (store_subscribe p u ch c (hb_store h))"
proof -
  note D = hub_invD [OF inv]
  note C = conns.countedD [OF D(2)]
  obtain ch ev where mk: "make_chan 64 (hb_events h) = (ch, ev)" by fastforce
  let ?h1 = "h\<lparr>hb_events := ev\<rparr>"
  show ?thesis
  proof (cases "gm_get (hb_posts h) p")
    case (Some e)
    obtain h' where "acquire_finish p u c ch e ?h1 = (Inr (ch, c), h')" "hub_inv L h'"
      "hb_store h' = snd (store_subscribe p u ch c (hb_store h))"
      by (rule acquire_finish_inv [of L ?h1 p e c "hb_events h" ch u])
        (use D C new mk Some in \<open>simp_all\<close>)
    with Some mk show ?thesis
      by (intro joined [of ch h']) (simp_all add: hub_acquire_def)
  next
    case None
    let ?ctx = "hb_next h"
    obtain res bus where call: "ps_subscribe P (post_channel p) (hb_bus h) = Inr (res, bus)"
      using subscribe_no_panic [OF bus_okD(1) [OF D(1)]] by blast
    show ?thesis
    proof (cases res)
      case (Inl err)
      let ?h = "cancel_ctx ?ctx (?h1\<lparr>hb_next := Suc ?ctx, hb_bus := bus\<rparr>)"
      have "hub_inv L ?h"
        unfolding hub_inv_def
        using D(2) bus_ok_failed [OF D(1) call [unfolded Inl]] chans_ok_subscribe(3) [OF D(3) mk]
          traced_subscribe(2) [OF D(3,4) mk]
        by (simp add: cancel_ctx_def)
      with None Inl call mk show ?thesis
        by (intro failed [of err ?h]) (simp_all add: hub_acquire_def cancel_ctx_def Let_def)
    next
      case (Inr rc)
      let ?e = "\<lparr>en_refs = 0, en_redis = rc, en_ctx = ?ctx\<rparr>"
      let ?h2 = "?h1\<lparr>hb_next := Suc ?ctx, hb_bus := bus, hb_posts := gm_put p ?e (hb_posts h),
        hb_bridges := hb_bridges h @ [\<lparr>br_ctx = ?ctx, br_key = p, br_ch = rc\<rparr>]\<rparr>"
      obtain h' where "acquire_finish p u c ch ?e ?h2 = (Inr (ch, c), h')" "hub_inv L h'"
        "hb_store h' = snd (store_subscribe p u ch c (hb_store h))"
      proof (rule acquire_finish_inv [of L ?h2 p ?e c "hb_events h" ch u])
        show "bus_ok post_channel L (hb_bus ?h2) (hb_posts ?h2) (hb_bridges ?h2) (hb_cancelled ?h2) (hb_next ?h2)"
          using bus_ok_subscribe [OF D(1) None call [unfolded Inr]] by simp
        show "gm_wf (hb_posts ?h2)" "store_wf (hb_store ?h2)" using C(1,2) by simp_all
        show "refs_of (hb_posts ?h2) q = int (store_subscribers q (hb_store ?h2))" for q
          using C(3) [of q] None by (cases "q = p") (simp_all add: refs_of_def)
        show "0 < en_refs e" if "q \<noteq> p" "gm_get (hb_posts ?h2) q = Some e" for q e
          using C(5) [of q e] that by simp
        show "gm_get (hb_posts ?h2) p = Some ?e" by simp
        show "c \<notin> store_conns (hb_store ?h2) p" using new by simp
        show "chans_ok (hb_store ?h2) (hb_events h)" "make_chan 64 (hb_events h) = (ch, hb_events ?h2)"
          "traced L (hb_store ?h2) (hb_events h)" using D(3,4) mk by simp_all
      qed (use that in simp_all)
      with None Inr call mk show ?thesis
        by (intro joined [of ch h']) (simp_all add: hub_acquire_def Let_def)
    qed
  qed
qed

lemma hub_release_cases:
  assumes inv: "hub_inv L h" and ok: "c \<in> store_conns (hb_store h) p \<or> hb_posts h = []"
  obtains h' where "hub_release P p u c h = Inr h'" "hub_inv L h'"
    "hb_store h' = snd (store_unsubscribe p u c (hb_store h))" "hb_events h' = hb_events h"
    "hb_posts h = [] \<Longrightarrow> hb_posts h' = []"
proof -
  note D = hub_invD [OF inv]
  note C = conns.countedD [OF D(2)]
  let ?st = "snd (store_unsubscribe p u c (hb_store h))"
  have chans: "chans_ok ?st (hb_events h)" by (rule chans_ok_unsubscribe [OF D(3)])
  have traced: "traced L ?st (hb_events h)"
    using D(4) by (auto simp: traced_def store_at_unsubscribe split: if_splits)
  show ?thesis
  proof (cases "gm_get (hb_posts h) p")
    case None
    then have "store_conns (hb_store h) p = {}" using C(6) by simp
    then have "gm_get (hb_store h) p = None" using store_conns_empty [OF C(2)] by simp
    then have "?st = hb_store h" by (simp add: store_unsubscribe_def)
    with None inv show ?thesis by (intro that [of h]) (simp_all add: hub_release_def)
  next
    case (Some e)
    then have mem: "c \<in> store_conns (hb_store h) p" using ok by auto
    note counted = conns.counted_remove(1,2) [OF D(2) Some mem, where u = u] conns.counted_remove(3) [OF D(2) Some mem]
    show ?thesis
    proof (cases "0 < en_refs e - 1")
      case True
      let ?h = "h\<lparr>hb_store := ?st, hb_posts := gm_put p (e\<lparr>en_refs := en_refs e - 1\<rparr>) (hb_posts h)\<rparr>"
      have "hub_inv L ?h"
        unfolding hub_inv_def
        using bus_ok_count [OF D(1) Some] chans traced counted True by simp
      with True Some show ?thesis
        by (intro that [of ?h]) (simp_all add: hub_release_def Let_def)
    next
      case False
      obtain err bus where call: "ps_unsubscribe P (post_channel p) (en_redis e) (hb_bus h) = Inr (err, bus)"
          "bus_ok post_channel L bus (gm_del p (hb_posts h)) (hb_bridges h) (en_ctx e # hb_cancelled h) (hb_next h)"
        by (rule bus_ok_unsubscribe [OF D(1) Some inj_post_channel])
      let ?h = "h\<lparr>hb_cancelled := en_ctx e # hb_cancelled h, hb_posts := gm_del p (hb_posts h),
                  hb_bus := bus, hb_store := ?st\<rparr>"
      have "hub_inv L ?h"
        unfolding hub_inv_def using call(2) chans traced counted False by simp
      with False Some call(1) show ?thesis
        by (intro that [of ?h]) (simp_all add: hub_release_def cancel_ctx_def Let_def)
    qed
  qed
qed

lemma bridge_step_cases:
  assumes inv: "hub_inv L h" and br: "br \<in> set (hb_bridges h)"
  obtains h' where "bridge_step P br cs h = Inr h'" "hub_inv L h'" "hb_store h' = hb_store h"
    "hb_posts h' = hb_posts h"
    "hb_events h' = hb_events h \<or>
       (\<exists>m\<in>post_messages L (br_key br).
          hb_events h' = offer_to (post_chans (hb_store h) (br_key br)) (m_payload m) (hb_events h))"
proof -
  note D = hub_invD [OF inv]
  show ?thesis
  proof (cases cs)
    case BridgeDone
    have "hub_inv L (bridge_returns br h)" if "br_ctx br \<in> set (hb_cancelled h)"
      using bus_ok_return [OF D(1) br that] D(2-4) by (simp add: hub_inv_def bridge_returns_def)
    with BridgeDone inv show ?thesis
      by (intro that [of "if br_ctx br \<in> set (hb_cancelled h) then bridge_returns br h else h"])
        (simp_all add: bridge_step_def bridge_returns_def)
  next
    case BridgeMessage
    obtain got bus where call: "ps_recv P (br_ch br) (hb_bus h) = (got, bus)" by fastforce
    note R = bus_ok_recv [OF D(1) br call]
    have base: "hub_inv L (h\<lparr>hb_bus := bus\<rparr>)" using R(1) D(2-4) by (simp add: hub_inv_def)
    show ?thesis
    proof (cases got)
      case Blocked
      with BridgeMessage call base show ?thesis
        by (intro that [of "h\<lparr>hb_bus := bus\<rparr>"]) (simp_all add: bridge_step_def)
    next
      case Drained
      then have "hub_inv L (bridge_returns br (h\<lparr>hb_bus := bus\<rparr>))"
        using bus_ok_return [OF R(1) br R(3)] D(2-4) by (simp add: hub_inv_def bridge_returns_def)
      with BridgeMessage Drained call show ?thesis
        by (intro that [of "bridge_returns br (h\<lparr>hb_bus := bus\<rparr>)"])
          (simp_all add: bridge_step_def bridge_returns_def)
    next
      case (Received m)
      note m = R(2) [OF Received]
      let ?ev = "offer_to (post_chans (hb_store h) (br_key br)) (m_payload m) (hb_events h)"
      have pub: "store_publish (br_key br) (m_payload m) (hb_store h) (hb_events h) = Inr ?ev"
        using D(3) conns.countedD(2) [OF D(2)] by (simp add: chans_ok_def store_publish_ok)
      have "hub_inv L (h\<lparr>hb_bus := bus, hb_events := ?ev\<rparr>)"
        using base chans_ok_offer [OF D(3)] traced_publish [OF D(3,4) m] by (simp add: hub_inv_def)
      with BridgeMessage Received call pub m show ?thesis
        by (intro that [of "h\<lparr>hb_bus := bus, hb_events := ?ev\<rparr>"]) (auto simp: bridge_step_def)
    qed
  qed
qed

lemma hub_close_ok:
  assumes inv: "hub_inv L h"
  obtains h' where "hub_close P h = Inr h'" "hub_inv L h'" "hb_store h' = []" "hb_posts h' = []"
    "hb_events h' = mark_closed (\<Union>p. post_chans (hb_store h) p) (hb_events h)"
proof -
  note D = hub_invD [OF inv]
  note C = conns.countedD [OF D(2)]
  obtain bus cs where loop: "close_entries post_channel P (hb_posts h) (hb_bus h, hb_cancelled h) = Inr (bus, cs)"
    and bus: "bus_ok post_channel L bus [] (hb_bridges h) cs (hb_next h)"
    by (rule bus_ok_close [OF D(1) C(1)])
  let ?ev = "mark_closed (\<Union>p. post_chans (hb_store h) p) (hb_events h)"
  let ?h = "h\<lparr>hb_bus := bus, hb_cancelled := cs, hb_posts := [], hb_store := [], hb_events := ?ev\<rparr>"
  have close: "store_close (hb_store h) (hb_events h) = Inr ([], ?ev)"
    using D(3) store_close_ok [OF C(2)] by (simp add: chans_ok_def)
  have "conns.counted [] []"
    by (rule conns.counted_Nil) (simp_all add: store_conns_def dom_def store_wf_def gm_wf_def)
  then have "hub_inv L ?h"
    unfolding hub_inv_def using D bus by (simp add: chans_ok_def traced_def store_chans_ok_def)
  with loop close show ?thesis
    by (intro that [of ?h]) (simp_all add: hub_close_def)
qed

lemma arrive_hub_inv:
  assumes inv: "hub_inv L h"
  obtains bus where "arrive m (hb_bus h) = Inr bus" "hub_inv (insert m L) (h\<lparr>hb_bus := bus\<rparr>)"
proof -
  note D = hub_invD [OF inv]
  obtain bus where call: "arrive m (hb_bus h) = Inr bus"
    "bus_ok post_channel (insert m L) bus (hb_posts h) (hb_bridges h) (hb_cancelled h) (hb_next h)"
    by (rule bus_ok_arrive [OF D(1)])
  have "traced (insert m L) (hb_store h) (hb_events h)"
    using D(4) messages_on_mono unfolding traced_def by (meson image_mono subset_trans)
  with D(2,3) call(2) have "hub_inv (insert m L) (h\<lparr>hb_bus := bus\<rparr>)" by (simp add: hub_inv_def)
  with call(1) show ?thesis by (rule that)
qed

lemma read_hub_inv:
  assumes inv: "hub_inv L h" and read: "recv_chan ch (hb_events h) = (got, ev)"
  shows "hub_inv L (h\<lparr>hb_events := ev\<rparr>)"
proof -
  note D = hub_invD [OF inv]
  have "traced L (hb_store h) ev"
    using D(4) recv_buffered_subset [OF read] unfolding traced_def by (meson subset_trans)
  with D chans_ok_recv [OF D(3) read] show ?thesis by (simp add: hub_inv_def)
qed

end

end
