(* ===== verification/RedisBus.thy ===== *)
theory RedisBus
  imports Pubsub
begin

text \<open>
  \<^verbatim>\<open>internal/pubsub/redis.go\<close>: the only implementation of the interface. One Redis
  connection carries every subscription of the process; \<open>rb_subs\<close> maps a channel name to the
  Go channels of its local consumers.

  The Redis client library is not part of the program. It is the record \<open>redis_client\<close> of the
  calls the code makes on it, over an arbitrary state \<open>'r\<close>; an error is \<open>Some\<close> of its text.
  Nothing is assumed of it in this theory, so every result holds for whatever it does.

  Each method body runs under the mutex and is one operation. \<^verbatim>\<open>Close\<close> is split where the code
  releases the mutex: \<open>redis_close\<close> is everything up to the wait, and the returned flag says
  whether the caller then waits for the reader goroutine (\<open>reader_exit\<close> ends that wait).
\<close>

record 'r redis_client =
  rc_publish :: "string \<Rightarrow> bytes \<Rightarrow> 'r \<Rightarrow> string option \<times> 'r"
  rc_open :: "'r \<Rightarrow> 'r"
  rc_subscribe :: "string \<Rightarrow> 'r \<Rightarrow> string option \<times> 'r"
  rc_unsubscribe :: "string \<Rightarrow> 'r \<Rightarrow> string option \<times> 'r"
  rc_close :: "'r \<Rightarrow> 'r"

text \<open>
  \<open>rb_subs = None\<close> is the nil map left by \<^verbatim>\<open>Close\<close>; \<open>rb_ps\<close> says whether the lazily created
  connection exists; \<open>rb_done\<close> is the channel \<open>readerDone\<close>: nil, open (\<open>Some False\<close>: the reader
  runs) or closed (\<open>Some True\<close>).
\<close>

record 'r redis_bus =
  rb_subs :: "(string, chan_id list) gomap option"
  rb_ps :: bool
  rb_closed :: bool
  rb_done :: "bool option"
  rb_msgs :: "message heap"
  rb_redis :: 'r

definition new_redis :: "'r \<Rightarrow> 'r redis_bus" where
  "new_redis r =
     \<lparr>rb_subs = Some [], rb_ps = False, rb_closed = False, rb_done = None,
      rb_msgs = empty_heap, rb_redis = r\<rparr>"

text \<open>Reading a nil map, or a missing key, gives the nil slice.\<close>

definition subs_of :: "'r redis_bus \<Rightarrow> string \<Rightarrow> chan_id list" where
  "subs_of b channel =
     (case rb_subs b of
        None \<Rightarrow> []
      | Some m \<Rightarrow> (case gm_get m channel of None \<Rightarrow> [] | Some cs \<Rightarrow> cs))"

definition redis_publish ::
    "'r redis_client \<Rightarrow> string \<Rightarrow> bytes \<Rightarrow> 'r redis_bus \<Rightarrow> bus_error option \<times> 'r redis_bus" where
  "redis_publish cl channel payload b =
     (if rb_closed b then (Some ErrClosed, b)
      else case rc_publish cl channel payload (rb_redis b) of
        (Some e, r) \<Rightarrow> (Some (PublishFailed channel e), b\<lparr>rb_redis := r\<rparr>)
      | (None, r) \<Rightarrow> (None, b\<lparr>rb_redis := r\<rparr>))"

definition add_consumer ::
    "string \<Rightarrow> 'r redis_bus \<Rightarrow> panic + ((bus_error + chan_id) \<times> 'r redis_bus)" where
  "add_consumer channel b =
     (let (out, h) = make_chan sub_buffer (rb_msgs b)
      in case rb_subs b of
           None \<Rightarrow> Inl NilMapWrite
         | Some m \<Rightarrow>
             Inr (Inr out,
                  b\<lparr>rb_msgs := h, rb_subs := Some (gm_put channel (subs_of b channel @ [out]) m)\<rparr>))"

definition ensure_reader :: "'r redis_client \<Rightarrow> 'r redis_bus \<Rightarrow> 'r redis_bus" where
  "ensure_reader cl b =
     (if rb_ps b then b
      else b\<lparr>rb_ps := True, rb_redis := rc_open cl (rb_redis b), rb_done := Some False\<rparr>)"

definition redis_subscribe ::
    "'r redis_client \<Rightarrow> string \<Rightarrow> 'r redis_bus \<Rightarrow> panic + ((bus_error + chan_id) \<times> 'r redis_bus)" where
  "redis_subscribe cl channel b =
     (if rb_closed b then Inr (Inl ErrClosed, b)
      else
        (let b1 = ensure_reader cl b
         in if subs_of b1 channel = [] then
              (case rc_subscribe cl channel (rb_redis b1) of
                 (Some e, r) \<Rightarrow> Inr (Inl (SubscribeFailed channel e), b1\<lparr>rb_redis := r\<rparr>)
               | (None, r) \<Rightarrow> add_consumer channel (b1\<lparr>rb_redis := r\<rparr>))
            else add_consumer channel b1))"

text \<open>The search loop of \<^verbatim>\<open>Unsubscribe\<close>: the first position that holds the channel, if any.\<close>

fun find_sub :: "chan_id list \<Rightarrow> chan_id \<Rightarrow> nat option" where
  "find_sub [] sub = None"
| "find_sub (ch # cs) sub = (if ch = sub then Some 0 else map_option Suc (find_sub cs sub))"

definition redis_unsubscribe ::
    "'r redis_client \<Rightarrow> string \<Rightarrow> chan_id \<Rightarrow> 'r redis_bus \<Rightarrow>
       panic + (bus_error option \<times> 'r redis_bus)" where
  "redis_unsubscribe cl channel sub b =
     (if rb_closed b then Inr (Some ErrClosed, b)
      else
        (let cs = subs_of b channel
         in case find_sub cs sub of
              None \<Rightarrow> Inr (None, b)
            | Some found \<Rightarrow>
                sum_bind (close_chan (cs ! found) (rb_msgs b)) (\<lambda>h.
                  let b1 = b\<lparr>rb_msgs := h\<rparr>; rest = take found cs @ drop (Suc found) cs
                  in if rest = [] then
                       (let b2 = b1\<lparr>rb_subs := map_option (gm_del channel) (rb_subs b1)\<rparr>
                        in if \<not> rb_ps b2 then Inl NilDereference
                           else case rc_unsubscribe cl channel (rb_redis b2) of
                             (Some e, r) \<Rightarrow>
                               Inr (Some (UnsubscribeFailed channel e), b2\<lparr>rb_redis := r\<rparr>)
                           | (None, r) \<Rightarrow> Inr (None, b2\<lparr>rb_redis := r\<rparr>))
                     else case rb_subs b1 of
                       None \<Rightarrow> Inl NilMapWrite
                     | Some m \<Rightarrow> Inr (None, b1\<lparr>rb_subs := Some (gm_put channel rest m)\<rparr>))))"

definition all_consumers :: "'r redis_bus \<Rightarrow> chan_id list" where
  "all_consumers b = (case rb_subs b of None \<Rightarrow> [] | Some m \<Rightarrow> concat (map snd m))"

definition redis_close ::
    "'r redis_client \<Rightarrow> 'r redis_bus \<Rightarrow> panic + (bool \<times> 'r redis_bus)" where
  "redis_close cl b =
     (if rb_closed b then Inr (False, b)
      else sum_bind (close_all (all_consumers b) (rb_msgs b)) (\<lambda>h.
        let b1 = b\<lparr>rb_closed := True, rb_msgs := h, rb_subs := None\<rparr>
        in if rb_ps b1 then Inr (True, b1\<lparr>rb_redis := rc_close cl (rb_redis b1)\<rparr>)
           else Inr (False, b1)))"

definition redis_fan_out :: "message \<Rightarrow> 'r redis_bus \<Rightarrow> panic + 'r redis_bus" where
  "redis_fan_out msg b =
     (if rb_closed b then Inr b
      else sum_map (\<lambda>h. b\<lparr>rb_msgs := h\<rparr>)
             (fan_out (subs_of b (m_channel msg)) msg (rb_msgs b)))"

text \<open>
  The reader goroutine: it hands every incoming message to \<open>redis_fan_out\<close> while it runs, and
  closes \<open>readerDone\<close> when the connection's message channel is closed.
\<close>

definition reader_message :: "message \<Rightarrow> 'r redis_bus \<Rightarrow> panic + 'r redis_bus" where
  "reader_message msg b = (if rb_done b = Some False then redis_fan_out msg b else Inr b)"

definition reader_exit :: "'r redis_bus \<Rightarrow> 'r redis_bus" where
  "reader_exit b = (if rb_done b = Some False then b\<lparr>rb_done := Some True\<rparr> else b)"

definition redis_recv :: "chan_id \<Rightarrow> 'r redis_bus \<Rightarrow> message received \<times> 'r redis_bus" where
  "redis_recv ch b = (let (r, h) = recv_chan ch (rb_msgs b) in (r, b\<lparr>rb_msgs := h\<rparr>))"

definition redis_pubsub :: "'r redis_client \<Rightarrow> 'r redis_bus pubsub" where
  "redis_pubsub cl =
     \<lparr>ps_publish = redis_publish cl,
      ps_subscribe = redis_subscribe cl,
      ps_unsubscribe = redis_unsubscribe cl,
      ps_close = (\<lambda>b. sum_map snd (redis_close cl b)),
      ps_recv = redis_recv\<rparr>"

subsection \<open>Equations of the operations\<close>

lemma subs_of_simps [simp]:
  "subs_of (b\<lparr>rb_msgs := h\<rparr>) = subs_of b"
  "subs_of (b\<lparr>rb_redis := r\<rparr>) = subs_of b"
  "subs_of (b\<lparr>rb_done := dn\<rparr>) = subs_of b"
  "subs_of (b\<lparr>rb_ps := p\<rparr>) = subs_of b"
  "subs_of (b\<lparr>rb_subs := None\<rparr>) c = []"
  "subs_of (b\<lparr>rb_subs := Some (gm_put d cs m)\<rparr>) c =
     (if c = d then cs else subs_of (b\<lparr>rb_subs := Some m\<rparr>) c)"
  "subs_of (b\<lparr>rb_subs := Some (gm_del d m)\<rparr>) c =
     (if c = d then [] else subs_of (b\<lparr>rb_subs := Some m\<rparr>) c)"
  by (auto simp: subs_of_def intro!: ext)

lemma subs_of_same: "rb_subs b = Some m \<Longrightarrow> subs_of (b\<lparr>rb_subs := Some m\<rparr>) c = subs_of b c"
  by (simp add: subs_of_def)

lemma subs_of_ensure [simp]: "subs_of (ensure_reader cl b) = subs_of b"
  by (auto simp: ensure_reader_def subs_of_def intro!: ext)

lemma ensure_reader_simps [simp]:
  "rb_ps (ensure_reader cl b)"
  "rb_msgs (ensure_reader cl b) = rb_msgs b"
  "rb_subs (ensure_reader cl b) = rb_subs b"
  "rb_closed (ensure_reader cl b) = rb_closed b"
  by (simp_all add: ensure_reader_def)

lemma find_sub_None: "find_sub cs ch = None \<longleftrightarrow> ch \<notin> set cs"
  by (induction cs) auto

lemma find_sub_Some: "find_sub cs ch = Some i \<Longrightarrow> i < length cs \<and> cs ! i = ch"
  by (induction cs arbitrary: i) (auto split: if_splits)

lemma find_sub_remove1:
  "find_sub cs ch = Some i \<Longrightarrow> take i cs @ drop (Suc i) cs = remove1 ch cs"
  by (induction cs arbitrary: i) (auto split: if_splits)

subsection \<open>The invariant\<close>

definition subs_ok :: "message heap \<Rightarrow> (string \<Rightarrow> chan_id list) \<Rightarrow> bool" where
  "subs_ok h S \<longleftrightarrow>
     (\<forall>c. distinct (S c)) \<and>
     (\<forall>c d ch. ch \<in> set (S c) \<longrightarrow> ch \<in> set (S d) \<longrightarrow> c = d) \<and>
     (\<forall>c ch. ch \<in> set (S c) \<longrightarrow>
        is_open h ch \<and> map_option ch_cap (cells h ch) = Some sub_buffer \<and>
        (\<forall>msg\<in>set (buffered h ch). m_channel msg = c))"

definition rb_inv :: "'r redis_bus \<Rightarrow> bool" where
  "rb_inv b \<longleftrightarrow>
     heap_wf (rb_msgs b) \<and>
     subs_ok (rb_msgs b) (subs_of b) \<and>
     (case rb_subs b of
        None \<Rightarrow> rb_closed b
      | Some m \<Rightarrow> \<not> rb_closed b \<and> gm_wf m \<and> [] \<notin> snd ` set m) \<and>
     ((\<exists>c. subs_of b c \<noteq> []) \<longrightarrow> rb_ps b) \<and>
     (rb_ps b \<longleftrightarrow> rb_done b \<noteq> None)"

lemma subs_okD:
  assumes "subs_ok h S"
  shows "distinct (S c)"
    and "ch \<in> set (S c) \<Longrightarrow> ch \<in> set (S d) \<Longrightarrow> c = d"
    and "ch \<in> set (S c) \<Longrightarrow> is_open h ch"
    and "ch \<in> set (S c) \<Longrightarrow> map_option ch_cap (cells h ch) = Some sub_buffer"
    and "ch \<in> set (S c) \<Longrightarrow> msg \<in> set (buffered h ch) \<Longrightarrow> m_channel msg = c"
  using assms unfolding subs_ok_def by blast+

lemma rb_inv_open:
  assumes "rb_inv b" and "\<not> rb_closed b"
  obtains m where "rb_subs b = Some m" "gm_wf m" "[] \<notin> snd ` set m"
  using assms by (auto simp: rb_inv_def split: option.splits)

lemma rb_invD:
  assumes "rb_inv b"
  shows "heap_wf (rb_msgs b)" and "subs_ok (rb_msgs b) (subs_of b)"
    and "rb_closed b \<Longrightarrow> rb_subs b = None" and "subs_of b c \<noteq> [] \<Longrightarrow> rb_ps b"
  using assms by (auto simp: rb_inv_def split: option.splits)

lemma rb_inv_new: "rb_inv (new_redis r)"
  by (simp add: rb_inv_def new_redis_def subs_ok_def subs_of_def)

lemma consumer_of_concat:
  "gm_wf m \<Longrightarrow> ch \<in> set (concat (map snd m)) \<longleftrightarrow>
     (\<exists>c cs. gm_get m c = Some cs \<and> ch \<in> set cs)"
  by (force simp: gm_get_Some_iff)

lemma distinct_consumers:
  assumes "gm_wf m"
    and "\<And>c cs. gm_get m c = Some cs \<Longrightarrow> distinct cs"
    and "\<And>c d cs ds ch. gm_get m c = Some cs \<Longrightarrow> gm_get m d = Some ds \<Longrightarrow>
           ch \<in> set cs \<Longrightarrow> ch \<in> set ds \<Longrightarrow> c = d"
  shows "distinct (concat (map snd m))"
  using assms
proof (induction m)
  case (Cons e m)
  obtain c cs where e: "e = (c, cs)" by (cases e)
  from Cons.prems(1) e have wf: "gm_wf m" and new: "gm_get m c = None"
    by (auto simp: gm_wf_def gm_get_None_iff)
  have lift: "gm_get (e # m) d = Some ds" if "gm_get m d = Some ds" for d ds
    using that new e by auto
  have "distinct (concat (map snd m))"
    using wf Cons.prems(2,3) lift by (intro Cons.IH) blast+
  moreover have "set cs \<inter> set (concat (map snd m)) = {}"
  proof (rule ccontr)
    assume "\<not> ?thesis"
    then obtain ch d ds where "ch \<in> set cs" "gm_get m d = Some ds" "ch \<in> set ds"
      using consumer_of_concat [OF wf] by blast
    with Cons.prems(3) [of c cs d ds ch] lift e new show False by auto
  qed
  moreover have "distinct cs" using Cons.prems(2) [of c cs] e by simp
  ultimately show ?case using e by auto
qed simp

lemma all_consumers_inv:
  assumes "rb_inv b"
  shows "distinct (all_consumers b)" and "\<forall>ch\<in>set (all_consumers b). is_open (rb_msgs b) ch"
    and "set (all_consumers b) = (\<Union>c. set (subs_of b c))"
proof -
  have "distinct (all_consumers b) \<and> set (all_consumers b) = (\<Union>c. set (subs_of b c))"
  proof (cases "rb_subs b")
    case None
    then show ?thesis by (simp add: all_consumers_def subs_of_def)
  next
    case (Some m)
    with assms have wf: "gm_wf m" by (simp add: rb_inv_def)
    have S: "subs_of b c = cs" if "gm_get m c = Some cs" for c cs
      using that Some by (simp add: subs_of_def)
    have "distinct (concat (map snd m))"
      using subs_okD(1,2) [OF rb_invD(2) [OF assms]] S
      by (intro distinct_consumers [OF wf]) metis+
    moreover have "set (concat (map snd m)) = (\<Union>c. set (subs_of b c))"
    proof (rule set_eqI)
      fix ch
      have "ch \<in> set (subs_of b c) \<longleftrightarrow> (\<exists>cs. gm_get m c = Some cs \<and> ch \<in> set cs)" for c
        using Some by (cases "gm_get m c") (simp_all add: subs_of_def)
      then show "ch \<in> set (concat (map snd m)) \<longleftrightarrow> ch \<in> (\<Union>c. set (subs_of b c))"
        unfolding consumer_of_concat [OF wf] by blast
    qed
    ultimately show ?thesis using Some by (simp add: all_consumers_def)
  qed
  then show "distinct (all_consumers b)" and "set (all_consumers b) = (\<Union>c. set (subs_of b c))"
    by auto
  then show "\<forall>ch\<in>set (all_consumers b). is_open (rb_msgs b) ch"
    using subs_okD(3) [OF rb_invD(2) [OF assms]] by auto
qed

subsection \<open>Every operation keeps the invariant and none panics\<close>

lemma subs_ok_add:
  assumes "heap_wf h" and "subs_ok h S" and "make_chan sub_buffer h = (out, h')"
  shows "subs_ok h' (S(c := S c @ [out]))"
    and "ch \<in> set (S d) \<Longrightarrow> ch \<noteq> out"
proof -
  have new: "cells h out = None" and h': "cells h' = (cells h)(out \<mapsto> \<lparr>ch_buf = [], ch_cap = sub_buffer, ch_closed = False\<rparr>)"
    using make_chan_fresh [OF assms(1,3)] cells_make_chan [OF assms(3)] by auto
  have old: "ch \<noteq> out" if "ch \<in> set (S d)" for ch d
    using is_open_allocated [OF subs_okD(3) [OF assms(2) that]] new by auto
  then show "ch \<in> set (S d) \<Longrightarrow> ch \<noteq> out" .
  have same: "is_open h' ch = is_open h ch" "cells h' ch = cells h ch" "buffered h' ch = buffered h ch"
    if "ch \<noteq> out" for ch
    using that h' by (auto simp: is_open_def buffered_def)
  have fresh: "is_open h' out" "map_option ch_cap (cells h' out) = Some sub_buffer" "buffered h' out = []"
    using h' by (auto simp: is_open_def buffered_def)
  have mem: "ch \<in> set ((S(c := S c @ [out])) d) \<longleftrightarrow> ch \<in> set (S d) \<or> (d = c \<and> ch = out)" for ch d
    by auto
  have "distinct ((S(c := S c @ [out])) d)" for d
    using subs_okD(1) [OF assms(2)] old by auto
  moreover have "d = d'" if "ch \<in> set ((S(c := S c @ [out])) d)" "ch \<in> set ((S(c := S c @ [out])) d')" for d d' ch
    using that old subs_okD(2) [OF assms(2)] unfolding mem by blast
  moreover have "is_open h' ch \<and> map_option ch_cap (cells h' ch) = Some sub_buffer \<and>
      (\<forall>msg\<in>set (buffered h' ch). m_channel msg = d)" if "ch \<in> set ((S(c := S c @ [out])) d)" for d ch
  proof (cases "ch = out")
    case True
    with fresh show ?thesis by simp
  next
    case False
    with that have "ch \<in> set (S d)" unfolding mem by simp
    with False same subs_okD(3-5) [OF assms(2)] show ?thesis by simp
  qed
  ultimately show "subs_ok h' (S(c := S c @ [out]))" unfolding subs_ok_def by blast
qed

lemma rb_inv_frame [simp]: "rb_inv (b\<lparr>rb_redis := r\<rparr>) = rb_inv b"
  by (simp add: rb_inv_def split: option.splits)

lemma rb_inv_msgs:
  "rb_inv b \<Longrightarrow> heap_wf h \<Longrightarrow> subs_ok h (subs_of b) \<Longrightarrow> rb_inv (b\<lparr>rb_msgs := h\<rparr>)"
  by (auto simp: rb_inv_def split: option.splits)

lemma rb_inv_ensure: "rb_inv b \<Longrightarrow> rb_inv (ensure_reader cl b)"
  by (auto simp: rb_inv_def ensure_reader_def split: option.splits)

lemma add_consumer_ok:
  assumes inv: "rb_inv b" and "\<not> rb_closed b" and "rb_ps b"
  obtains out b' where "add_consumer c b = Inr (Inr out, b')" "rb_inv b'"
    "subs_of b' = (subs_of b)(c := subs_of b c @ [out])"
    "\<And>d. out \<notin> set (subs_of b d)"
    "cells (rb_msgs b) out = None"
    "dom (cells (rb_msgs b')) = insert out (dom (cells (rb_msgs b)))"
    "buffered (rb_msgs b') = (buffered (rb_msgs b))(out := [])"
    "rb_redis b' = rb_redis b" "rb_closed b' = rb_closed b"
proof -
  obtain m where m: "rb_subs b = Some m" "gm_wf m" "[] \<notin> snd ` set m"
    using rb_inv_open [OF assms(1,2)] .
  obtain out h where mk: "make_chan sub_buffer (rb_msgs b) = (out, h)" by fastforce
  define b' where "b' = b\<lparr>rb_msgs := h, rb_subs := Some (gm_put c (subs_of b c @ [out]) m)\<rparr>"
  have wf: "heap_wf h" using heap_wf_make [OF rb_invD(1) [OF inv], of sub_buffer] mk by simp
  have S: "subs_of b' = (subs_of b)(c := subs_of b c @ [out])"
    using m(1) by (auto simp: b'_def subs_of_def)
  have ok: "subs_ok h (subs_of b')"
    unfolding S by (rule subs_ok_add(1) [OF rb_invD(1,2) [OF inv] mk])
  have "[] \<notin> snd ` set (gm_put c (subs_of b c @ [out]) m)"
    using m by (auto simp: gm_set_put)
  with wf ok m assms have "rb_inv b'"
    by (simp add: rb_inv_def b'_def)
  moreover have "buffered h = (buffered (rb_msgs b))(out := [])"
    using cells_make_chan [OF mk] by (auto simp: buffered_def)
  ultimately show ?thesis
    using that [of out b'] m(1) mk S make_chan_fresh [OF rb_invD(1) [OF inv] mk]
      cells_make_chan [OF mk] subs_ok_add(2) [OF rb_invD(1,2) [OF inv] mk]
    by (auto simp: add_consumer_def b'_def)
qed

lemma redis_subscribe_cases:
  assumes "rb_inv b"
  obtains (closed) "rb_closed b" "redis_subscribe cl c b = Inr (Inl ErrClosed, b)"
  | (failed) e r where "\<not> rb_closed b" "subs_of b c = []"
      "rc_subscribe cl c (rb_redis (ensure_reader cl b)) = (Some e, r)"
      "redis_subscribe cl c b = Inr (Inl (SubscribeFailed c e), (ensure_reader cl b)\<lparr>rb_redis := r\<rparr>)"
  | (ok) out b' where "\<not> rb_closed b" "redis_subscribe cl c b = Inr (Inr out, b')" "rb_inv b'"
      "subs_of b' = (subs_of b)(c := subs_of b c @ [out])" "\<And>d. out \<notin> set (subs_of b d)"
      "cells (rb_msgs b) out = None"
      "dom (cells (rb_msgs b')) = insert out (dom (cells (rb_msgs b)))"
      "buffered (rb_msgs b') = (buffered (rb_msgs b))(out := [])" "\<not> rb_closed b'"
      "rb_redis b' = (if subs_of b c = [] then snd (rc_subscribe cl c (rb_redis (ensure_reader cl b)))
                      else rb_redis b)"
proof (cases "rb_closed b")
  case True
  then show ?thesis by (intro closed) (simp_all add: redis_subscribe_def)
next
  case not_closed: False
  let ?b = "ensure_reader cl b"
  have base: "subs_of (?b\<lparr>rb_redis := r\<rparr>) = subs_of b" "rb_msgs (?b\<lparr>rb_redis := r\<rparr>) = rb_msgs b"
    "subs_of ?b = subs_of b" "rb_inv (?b\<lparr>rb_redis := r\<rparr>)" "rb_inv ?b" for r
    using rb_inv_ensure [OF assms] by auto
  show ?thesis
  proof (cases "subs_of b c = []")
    case True
    obtain err r where call: "rc_subscribe cl c (rb_redis ?b) = (err, r)" by fastforce
    show ?thesis
    proof (cases err)
      case None
      obtain out b' where "add_consumer c (?b\<lparr>rb_redis := r\<rparr>) = Inr (Inr out, b')" "rb_inv b'"
        "subs_of b' = (subs_of b)(c := subs_of b c @ [out])" "\<And>d. out \<notin> set (subs_of b d)"
        "cells (rb_msgs b) out = None"
        "dom (cells (rb_msgs b')) = insert out (dom (cells (rb_msgs b)))"
        "buffered (rb_msgs b') = (buffered (rb_msgs b))(out := [])" "rb_redis b' = r" "\<not> rb_closed b'"
        by (rule add_consumer_ok [OF base(4), of r c]) (use not_closed base in auto)
      with None call not_closed True show ?thesis
        by (intro ok [of out b']) (simp_all add: redis_subscribe_def)
    next
      case (Some e)
      with call not_closed True show ?thesis by (intro failed) (simp_all add: redis_subscribe_def)
    qed
  next
    case False
    then have "rb_ps b" using rb_invD(4) [OF assms] by simp
    then have id: "?b = b" by (simp add: ensure_reader_def)
    obtain out b' where "add_consumer c b = Inr (Inr out, b')" "rb_inv b'"
      "subs_of b' = (subs_of b)(c := subs_of b c @ [out])" "\<And>d. out \<notin> set (subs_of b d)"
      "cells (rb_msgs b) out = None"
      "dom (cells (rb_msgs b')) = insert out (dom (cells (rb_msgs b)))"
      "buffered (rb_msgs b') = (buffered (rb_msgs b))(out := [])" "rb_redis b' = rb_redis b"
      "\<not> rb_closed b'"
      by (rule add_consumer_ok [OF assms not_closed \<open>rb_ps b\<close>, of c]) (use not_closed in auto)
    with id not_closed False show ?thesis
      by (intro ok [of out b']) (simp_all add: redis_subscribe_def Let_def)
  qed
qed

lemma subs_ok_remove:
  assumes "subs_ok h S" and "ch \<in> set (S c)"
  shows "subs_ok (mark_closed {ch} h) (S(c := remove1 ch (S c)))"
proof -
  let ?S = "S(c := remove1 ch (S c))"
  have sub: "set (?S d) \<subseteq> set (S d) - {ch}" for d
    using subs_okD(1) [OF assms(1)] subs_okD(2) [OF assms(1,2)] by (auto simp: set_remove1_eq)
  have "distinct (?S d)" for d
    using subs_okD(1) [OF assms(1)] by simp
  moreover have "d = d'" if "x \<in> set (?S d)" "x \<in> set (?S d')" for d d' x
    using that sub subs_okD(2) [OF assms(1)] by blast
  moreover have "is_open (mark_closed {ch} h) x \<and>
      map_option ch_cap (cells (mark_closed {ch} h) x) = Some sub_buffer \<and>
      (\<forall>msg\<in>set (buffered (mark_closed {ch} h) x). m_channel msg = d)" if "x \<in> set (?S d)" for d x
  proof -
    from that sub have "x \<in> set (S d)" "x \<noteq> ch" by blast+
    with subs_okD(3-5) [OF assms(1)] show ?thesis by simp
  qed
  ultimately show ?thesis unfolding subs_ok_def by blast
qed

lemma redis_unsubscribe_cases:
  assumes "rb_inv b"
  obtains (closed) "rb_closed b" "redis_unsubscribe cl c ch b = Inr (Some ErrClosed, b)"
  | (unknown) "\<not> rb_closed b" "ch \<notin> set (subs_of b c)" "redis_unsubscribe cl c ch b = Inr (None, b)"
  | (removed) e b' where "\<not> rb_closed b" "ch \<in> set (subs_of b c)"
      "redis_unsubscribe cl c ch b = Inr (e, b')" "rb_inv b'" "\<not> rb_closed b'"
      "subs_of b' = (subs_of b)(c := remove1 ch (subs_of b c))"
      "rb_msgs b' = mark_closed {ch} (rb_msgs b)"
      "rb_redis b' = (if remove1 ch (subs_of b c) = [] then snd (rc_unsubscribe cl c (rb_redis b))
                      else rb_redis b)"
proof (cases "rb_closed b")
  case True
  then show ?thesis by (intro closed) (simp_all add: redis_unsubscribe_def)
next
  case not_closed: False
  show ?thesis
  proof (cases "ch \<in> set (subs_of b c)")
    case False
    then have "find_sub (subs_of b c) ch = None" by (simp add: find_sub_None)
    with False not_closed show ?thesis
      by (intro unknown) (simp_all add: redis_unsubscribe_def Let_def)
  next
    case True
    obtain m where m: "rb_subs b = Some m" "gm_wf m" "[] \<notin> snd ` set m"
      using rb_inv_open [OF assms not_closed] .
    obtain i where i: "find_sub (subs_of b c) ch = Some i"
      using True by (cases "find_sub (subs_of b c) ch") (auto simp: find_sub_None)
    note ch = find_sub_Some [OF i] find_sub_remove1 [OF i]
    from True have "subs_of b c \<noteq> []" by (cases "subs_of b c") simp_all
    then have ps: "rb_ps b" by (rule rb_invD(4) [OF assms])
    have closing: "close_chan ch (rb_msgs b) = Inr (mark_closed {ch} (rb_msgs b))"
      by (rule close_chan_open [OF subs_okD(3) [OF rb_invD(2) [OF assms] True]])
    let ?h = "mark_closed {ch} (rb_msgs b)" and ?rest = "remove1 ch (subs_of b c)"
    define m' where "m' = (if ?rest = [] then gm_del c m else gm_put c ?rest m)"
    obtain err r where call: "rc_unsubscribe cl c (rb_redis b) = (err, r)" by fastforce
    define b' where "b' = (if ?rest = [] then b\<lparr>rb_msgs := ?h, rb_subs := Some m', rb_redis := r\<rparr>
                           else b\<lparr>rb_msgs := ?h, rb_subs := Some m'\<rparr>)"
    have S: "subs_of b' = (subs_of b)(c := ?rest)"
      using m(1) by (auto simp: b'_def m'_def subs_of_def)
    have "gm_wf m'" "[] \<notin> snd ` set m'"
      using m by (auto simp: m'_def gm_set_put gm_set_del)
    moreover have "subs_ok ?h (subs_of b')"
      unfolding S by (rule subs_ok_remove [OF rb_invD(2) [OF assms] True])
    moreover have "rb_msgs b' = ?h" "rb_subs b' = Some m'" "rb_ps b' = rb_ps b"
      "rb_done b' = rb_done b" "rb_closed b' = rb_closed b"
      by (simp_all add: b'_def)
    ultimately have "rb_inv b'"
      using assms m not_closed ps by (auto simp: rb_inv_def)
    moreover have "\<exists>e. redis_unsubscribe cl c ch b = Inr (e, b')"
      using i ch closing not_closed m(1) ps call
      by (cases err) (auto simp: redis_unsubscribe_def b'_def m'_def Let_def)
    ultimately show ?thesis
      using not_closed True S removed call by (force simp: b'_def)
  qed
qed

lemma redis_close_ok:
  assumes "rb_inv b"
  obtains w b' where "redis_close cl b = Inr (w, b')" "rb_inv b'" "rb_closed b'"
    "w \<longleftrightarrow> \<not> rb_closed b \<and> rb_ps b"
    "rb_msgs b' = mark_closed (set (all_consumers b)) (rb_msgs b)" "subs_of b' = (\<lambda>_. [])"
proof (cases "rb_closed b")
  case True
  then have "rb_subs b = None" using rb_invD(3) [OF assms] by simp
  then have "all_consumers b = []" "subs_of b = (\<lambda>_. [])"
    by (auto simp: all_consumers_def subs_of_def)
  with True assms show ?thesis by (intro that [of False b]) (simp_all add: redis_close_def)
next
  case False
  let ?h = "mark_closed (set (all_consumers b)) (rb_msgs b)"
  have closing: "close_all (all_consumers b) (rb_msgs b) = Inr ?h"
    by (rule close_all_open) (use all_consumers_inv [OF assms] in auto)
  let ?b = "b\<lparr>rb_closed := True, rb_msgs := ?h, rb_subs := None\<rparr>"
  have S: "subs_of (?b\<lparr>rb_redis := r\<rparr>) = (\<lambda>_. [])" "subs_of ?b = (\<lambda>_. [])" for r
    by (auto simp: subs_of_def)
  have inv: "rb_inv ?b"
    using assms S by (simp add: rb_inv_def subs_ok_def)
  show ?thesis
  proof (cases "rb_ps b")
    case True
    with False closing inv S show ?thesis
      by (intro that [of True "?b\<lparr>rb_redis := rc_close cl (rb_redis b)\<rparr>"])
        (simp_all add: redis_close_def Let_def)
  next
    case no_ps: False
    with False closing inv S show ?thesis
      by (intro that [of False ?b]) (simp_all add: redis_close_def Let_def)
  qed
qed

lemma subs_ok_offer:
  assumes "subs_ok h S"
  shows "subs_ok (offer_to (set (S (m_channel msg))) msg h) S"
proof -
  let ?h = "offer_to (set (S (m_channel msg))) msg h"
  have "map_option ch_cap (cells ?h ch) = map_option ch_cap (cells h ch)" for ch
    by (cases "cells h ch") simp_all
  moreover have "m_channel x = c" if "ch \<in> set (S c)" "x \<in> set (buffered ?h ch)" for c ch x
  proof (cases "ch \<in> set (S (m_channel msg))")
    case True
    then have "c = m_channel msg" using subs_okD(2) [OF assms] that(1) by blast
    with that buffered_offer_to_subset [of _ msg h ch] subs_okD(5) [OF assms that(1)] show ?thesis by blast
  next
    case False
    with that subs_okD(5) [OF assms that(1)] show ?thesis by simp
  qed
  moreover have "is_open ?h ch" if "ch \<in> set (S c)" for c ch
    using subs_okD(3) [OF assms that] by simp
  ultimately show ?thesis
    using subs_okD(1,2,4) [OF assms] unfolding subs_ok_def by metis
qed

lemma redis_fan_out_ok:
  assumes "rb_inv b"
  shows "redis_fan_out msg b =
           Inr (b\<lparr>rb_msgs := offer_to (set (subs_of b (m_channel msg))) msg (rb_msgs b)\<rparr>)"
    and "rb_inv (b\<lparr>rb_msgs := offer_to (set (subs_of b (m_channel msg))) msg (rb_msgs b)\<rparr>)"
proof -
  note ok = rb_invD(2) [OF assms]
  have "fan_out (subs_of b (m_channel msg)) msg (rb_msgs b) =
      Inr (offer_to (set (subs_of b (m_channel msg))) msg (rb_msgs b))"
    by (rule fan_out_open) (use subs_okD(1,3) [OF ok] in auto)
  moreover have "subs_of b (m_channel msg) = []" if "rb_closed b"
    using rb_invD(3) [OF assms that] by (simp add: subs_of_def)
  ultimately show "redis_fan_out msg b =
      Inr (b\<lparr>rb_msgs := offer_to (set (subs_of b (m_channel msg))) msg (rb_msgs b)\<rparr>)"
    by (simp add: redis_fan_out_def)
  show "rb_inv (b\<lparr>rb_msgs := offer_to (set (subs_of b (m_channel msg))) msg (rb_msgs b)\<rparr>)"
    by (rule rb_inv_msgs [OF assms])
      (use rb_invD(1) [OF assms] subs_ok_offer [OF ok] in simp_all)
qed

lemma redis_recv_inv:
  assumes "rb_inv b" and "redis_recv ch b = (got, b')"
  shows "rb_inv b'" and "subs_of b' = subs_of b"
proof -
  obtain h where h: "recv_chan ch (rb_msgs b) = (got, h)" "b' = b\<lparr>rb_msgs := h\<rparr>"
    using assms(2) by (auto simp: redis_recv_def split: prod.splits)
  then show S: "subs_of b' = subs_of b" by simp
  note ok = rb_invD(2) [OF assms(1)]
  have "subs_ok h (subs_of b)"
    using subs_okD [OF ok] recv_is_open [OF h(1)] recv_cap [OF h(1)] recv_buffered_subset [OF h(1)]
    unfolding subs_ok_def by (metis subsetD)
  with rb_inv_msgs [OF assms(1) heap_wf_recv [OF rb_invD(1) [OF assms(1)] h(1)]] h(2)
  show "rb_inv b'" by simp
qed

lemma reader_exit_inv: "rb_inv b \<Longrightarrow> rb_inv (reader_exit b)"
  by (auto simp: rb_inv_def reader_exit_def split: option.splits)

lemma redis_publish_inv: "rb_inv b \<Longrightarrow> rb_inv (snd (redis_publish cl c p b))"
  by (simp add: redis_publish_def split: prod.splits option.splits)

subsection \<open>The contract of the interface\<close>

definition redis_live :: "'r redis_bus \<Rightarrow> (string \<times> chan_id) set" where
  "redis_live b = {(c, ch). ch \<in> set (subs_of b c)}"

abbreviation redis_queue :: "'r redis_bus \<Rightarrow> chan_id \<Rightarrow> message list" where
  "redis_queue b \<equiv> buffered (rb_msgs b)"

definition redis_made :: "'r redis_bus \<Rightarrow> chan_id set" where
  "redis_made b = dom (cells (rb_msgs b))"

lemma redis_live_iff [simp]: "(c, ch) \<in> redis_live b \<longleftrightarrow> ch \<in> set (subs_of b c)"
  by (simp add: redis_live_def)

lemma snd_redis_live: "ch \<in> snd ` redis_live b \<longleftrightarrow> (\<exists>c. ch \<in> set (subs_of b c))"
  by (force simp: redis_live_def)

lemma buffered_offer_to:
  "c \<in> A \<Longrightarrow> map_option ch_cap (cells h c) = Some sub_buffer \<Longrightarrow>
     buffered (offer_to A msg h) c = accept msg (buffered h c)"
  by (auto simp: buffered_def ch_buf_offer accept_def)

lemma redis_queue_fan_out:
  assumes "rb_inv b"
  shows "buffered (offer_to (set (subs_of b (m_channel msg))) msg (rb_msgs b)) d =
     (if (m_channel msg, d) \<in> redis_live b then accept msg (redis_queue b d) else redis_queue b d)"
  using subs_okD(4) [OF rb_invD(2) [OF assms]] by (simp add: buffered_offer_to)

lemma recv_chan_queue:
  "recv_chan ch h = (got, h') \<Longrightarrow>
     (case got of Received m \<Rightarrow> buffered h ch = m # buffered h' ch
      | _ \<Rightarrow> buffered h ch = [] \<and> buffered h' ch = [])"
  by (auto simp: recv_chan_def buffered_def split: option.splits list.splits if_splits)

interpretation redis: pubsub_bus "redis_pubsub cl" reader_message rb_inv redis_live redis_queue redis_made
proof unfold_locales
  fix b b' :: "'a redis_bus" and c and r :: "bus_error + chan_id" and e
  assume inv: "rb_inv b"
  show "\<exists>r b'. ps_subscribe (redis_pubsub cl) c b = Inr (r, b')"
    by (rule redis_subscribe_cases [OF inv, of cl c]) (auto simp: redis_pubsub_def)
  show "rb_inv b'" if "ps_subscribe (redis_pubsub cl) c b = Inr (r, b')"
    using that rb_inv_ensure [OF inv] inv
    by (cases rule: redis_subscribe_cases [OF inv, of cl c]) (auto simp: redis_pubsub_def)
  show "redis_live b' = redis_live b \<and> redis_queue b' = redis_queue b \<and> redis_made b' = redis_made b"
    if "ps_subscribe (redis_pubsub cl) c b = Inr (Inl e, b')"
    using that
    by (cases rule: redis_subscribe_cases [OF inv, of cl c])
      (auto simp: redis_pubsub_def redis_live_def redis_made_def)
next
  fix b b' :: "'a redis_bus" and c ch
  assume inv: "rb_inv b" and ok: "ps_subscribe (redis_pubsub cl) c b = Inr (Inr ch, b')"
  show "redis_live b' = insert (c, ch) (redis_live b) \<and> ch \<notin> redis_made b \<and>
      redis_made b' = insert ch (redis_made b) \<and> redis_queue b' = (redis_queue b)(ch := [])"
    using ok
    by (cases rule: redis_subscribe_cases [OF inv, of cl c])
      (auto simp: redis_pubsub_def redis_live_def redis_made_def split: if_splits)
next
  fix b :: "'a redis_bus" and c ch
  assume inv: "rb_inv b"
  note ok = rb_invD(2) [OF inv]
  have remove: "{(d, x). x \<in> set ((if d = c then remove1 ch (subs_of b c) else subs_of b d))} =
      redis_live b - {(c, ch)}"
    using subs_okD(1) [OF ok] by (auto simp: redis_live_def set_remove1_eq split: if_splits)
  show "\<exists>e b'. ps_unsubscribe (redis_pubsub cl) c ch b = Inr (e, b') \<and> rb_inv b' \<and>
      redis_live b' = redis_live b - {(c, ch)} \<and> redis_queue b' = redis_queue b \<and> redis_made b' = redis_made b"
  proof (rule redis_unsubscribe_cases [OF inv, of cl c ch], goal_cases)
    case 1
    then have "redis_live b = {}"
      using rb_invD(3) [OF inv] by (simp add: redis_live_def subs_of_def)
    with 1 inv show ?thesis by (simp add: redis_pubsub_def)
  next
    case 2
    then have "(c, ch) \<notin> redis_live b" by simp
    with 2 inv show ?thesis by (simp add: redis_pubsub_def)
  next
    case (3 e b')
    from 3(6) have "redis_live b' = redis_live b - {(c, ch)}"
      unfolding remove [symmetric] by (auto simp: redis_live_def)
    moreover from 3(7) have "redis_made b' = redis_made b" by (simp add: redis_made_def dom_mark_closed)
    moreover from 3(7) have "redis_queue b' = redis_queue b" by (auto intro!: ext)
    ultimately show ?thesis using 3 by (simp add: redis_pubsub_def)
  qed
next
  fix b b' :: "'a redis_bus" and ch got
  assume inv: "rb_inv b" and rc: "ps_recv (redis_pubsub cl) ch b = (got, b')"
  then have rc': "redis_recv ch b = (got, b')" by (simp add: redis_pubsub_def)
  then obtain h where h: "recv_chan ch (rb_msgs b) = (got, h)" "b' = b\<lparr>rb_msgs := h\<rparr>"
    by (auto simp: redis_recv_def split: prod.splits)
  have queue': "redis_queue b' = buffered h" using h(2) by simp
  have other: "buffered h d = redis_queue b d" if "d \<noteq> ch" for d
    using recv_other [OF h(1) that] by (simp add: buffered_def)
  have made: "redis_made b' = redis_made b"
    using h(2) recv_dom [OF h(1)] by (simp add: redis_made_def)
  show "rb_inv b' \<and> redis_live b' = redis_live b \<and> redis_made b' = redis_made b \<and>
      (\<forall>d. d \<noteq> ch \<longrightarrow> redis_queue b' d = redis_queue b d) \<and>
      (case got of Received m \<Rightarrow> redis_queue b ch = m # redis_queue b' ch
       | _ \<Rightarrow> redis_queue b ch = [] \<and> redis_queue b' ch = [])"
    unfolding queue'
    using redis_recv_inv [OF inv rc'] recv_chan_queue [OF h(1)] other made
    by (simp add: redis_live_def)
next
  fix b b' :: "'a redis_bus" and ch
  assume inv: "rb_inv b" and "ps_recv (redis_pubsub cl) ch b = (Drained, b')"
  then have "\<not> is_open (rb_msgs b) ch"
    by (auto simp: redis_pubsub_def redis_recv_def dest: recv_Drained split: prod.splits)
  with subs_okD(3) [OF rb_invD(2) [OF inv]] show "ch \<notin> snd ` redis_live b"
    by (auto simp: snd_redis_live)
next
  fix b :: "'a redis_bus" and m
  assume inv: "rb_inv b"
  show "\<exists>b'. reader_message m b = Inr b' \<and> rb_inv b' \<and> redis_live b' = redis_live b \<and>
      redis_made b' = redis_made b \<and>
      ((\<forall>d. redis_queue b' d = redis_queue b d) \<or>
       (\<forall>d. redis_queue b' d =
          (if (m_channel m, d) \<in> redis_live b then accept m (redis_queue b d) else redis_queue b d)))"
    using redis_fan_out_ok [OF inv, of m] redis_queue_fan_out [OF inv, of m] inv
    by (auto simp: reader_message_def redis_live_def redis_made_def dom_offer_to)
next
  fix b :: "'a redis_bus" and c ch
  assume "rb_inv b" "(c, ch) \<in> redis_live b"
  then show "ch \<in> redis_made b"
    using is_open_allocated [OF subs_okD(3) [OF rb_invD(2)]] by (auto simp: redis_made_def)
next
  fix b :: "'a redis_bus" and c ch m
  assume "rb_inv b" "(c, ch) \<in> redis_live b" "m \<in> set (redis_queue b ch)"
  then show "m_channel m = c" using subs_okD(5) [OF rb_invD(2)] by (simp, blast)
next
  fix b :: "'a redis_bus" and c ch d
  assume "rb_inv b" "(c, ch) \<in> redis_live b" "(d, ch) \<in> redis_live b"
  then show "c = d" using subs_okD(2) [OF rb_invD(2)] by (simp, blast)
qed

subsection \<open>Runs of the bus\<close>

text \<open>
  What can happen to a bus: any goroutine calls a method, a consumer receives from its Go
  channel, a message arrives from the broker, or the reader ends.
\<close>

datatype bus_event =
    BusPublish string bytes
  | BusSubscribe string
  | BusUnsubscribe string chan_id
  | BusClose
  | BusArrive message
  | BusReceive chan_id
  | BusReaderExit

fun bus_step :: "'r redis_client \<Rightarrow> bus_event \<Rightarrow> 'r redis_bus \<Rightarrow> panic + 'r redis_bus" where
  "bus_step cl (BusPublish c p) b = Inr (snd (redis_publish cl c p b))"
| "bus_step cl (BusSubscribe c) b = sum_map snd (redis_subscribe cl c b)"
| "bus_step cl (BusUnsubscribe c ch) b = sum_map snd (redis_unsubscribe cl c ch b)"
| "bus_step cl BusClose b = sum_map snd (redis_close cl b)"
| "bus_step cl (BusArrive msg) b = reader_message msg b"
| "bus_step cl (BusReceive ch) b = Inr (snd (redis_recv ch b))"
| "bus_step cl BusReaderExit b = Inr (reader_exit b)"

fun bus_run :: "'r redis_client \<Rightarrow> bus_event list \<Rightarrow> 'r redis_bus \<Rightarrow> panic + 'r redis_bus" where
  "bus_run cl [] b = Inr b"
| "bus_run cl (e # es) b = sum_bind (bus_step cl e b) (bus_run cl es)"

fun_cases bus_run_ConsE: "bus_run cl (e # es) b = Inr b'"

lemma bus_step_ok:
  assumes "rb_inv b"
  shows "\<exists>b'. bus_step cl e b = Inr b' \<and> rb_inv b'"
proof (cases e)
  case (BusSubscribe c)
  then show ?thesis
    using redis.subscribe_no_panic [OF assms, of cl c] redis.subscribe_inv [OF assms, of cl c]
    by (auto simp: redis_pubsub_def)
next
  case (BusUnsubscribe c ch)
  then show ?thesis
    using redis.unsubscribe [OF assms, of cl c ch] by (auto simp: redis_pubsub_def)
next
  case BusClose
  then show ?thesis by (cases rule: redis_close_ok [OF assms, of cl]) auto
next
  case (BusArrive msg)
  then show ?thesis using redis.arrive_ok [OF assms, of msg] by auto
next
  case (BusReceive ch)
  then show ?thesis
    using redis_recv_inv(1) [OF assms, of ch] by (cases "redis_recv ch b") auto
qed (simp_all add: reader_exit_inv redis_publish_inv assms)

lemma bus_run_ok: "rb_inv b \<Longrightarrow> \<exists>b'. bus_run cl es b = Inr b' \<and> rb_inv b'"
proof (induction es arbitrary: b)
  case (Cons e es)
  obtain b1 where "bus_step cl e b = Inr b1" "rb_inv b1"
    using bus_step_ok [OF Cons.prems] by blast
  with Cons.IH show ?case by simp
qed simp

text \<open>
  What the bus relies on in the Redis client, stated over the list \<open>sent\<close> of the SUBSCRIBE and
  UNSUBSCRIBE commands handed to the one connection, in their order: opening the connection and
  publishing (which uses another connection) hand over none, a call that succeeds hands over its
  own command, and a call that fails may or may not have done so. Nothing is said of when the server
  carries a command out: the client does not wait for its reply, so a \<^verbatim>\<open>Subscribe\<close> that returned
  nil may not be active yet (see \<^verbatim>\<open>internal/pubsub/redis_test.go\<close>). The server carries the commands
  of a connection out in their order, and \<open>subscribed_after\<close> is the set of channels it sends
  messages for after those it has carried out. (When a connection is lost, the library opens a
  new one and repeats the subscriptions that are due; that is inside the library.)
\<close>

datatype redis_command = SUBSCRIBE string | UNSUBSCRIBE string

fun run_command :: "redis_command \<Rightarrow> string set \<Rightarrow> string set" where
  "run_command (SUBSCRIBE c) s = insert c s"
| "run_command (UNSUBSCRIBE c) s = s - {c}"

definition subscribed_after :: "redis_command list \<Rightarrow> string set" where
  "subscribed_after cmds = fold run_command cmds {}"

definition redis_commands_ok :: "'r redis_client \<Rightarrow> ('r \<Rightarrow> redis_command list) \<Rightarrow> bool" where
  "redis_commands_ok cl sent \<longleftrightarrow>
     (\<forall>c p r. sent (snd (rc_publish cl c p r)) = sent r) \<and>
     (\<forall>r. sent (rc_open cl r) = sent r) \<and>
     (\<forall>c r. sent (snd (rc_subscribe cl c r)) = sent r @ [SUBSCRIBE c] \<or>
        (fst (rc_subscribe cl c r) \<noteq> None \<and> sent (snd (rc_subscribe cl c r)) = sent r)) \<and>
     (\<forall>c r. sent (snd (rc_unsubscribe cl c r)) = sent r @ [UNSUBSCRIBE c] \<or>
        (fst (rc_unsubscribe cl c r) \<noteq> None \<and> sent (snd (rc_unsubscribe cl c r)) = sent r))"

lemma subscribed_after_Nil [simp]: "subscribed_after [] = {}"
  by (simp add: subscribed_after_def)

lemma subscribed_after_snoc [simp]:
  "subscribed_after (cmds @ [x]) = run_command x (subscribed_after cmds)"
  by (simp add: subscribed_after_def)

text \<open>A channel that is subscribed in the end has been so since its last SUBSCRIBE.\<close>

lemma subscribed_since:
  assumes "c \<in> subscribed_after cmds"
  shows "\<exists>pre post. cmds = pre @ SUBSCRIBE c # post \<and>
           (\<forall>k \<ge> Suc (length pre). c \<in> subscribed_after (take k cmds))"
  using assms
proof (induction cmds rule: rev_induct)
  case (snoc x cmds)
  show ?case
  proof (cases "x = SUBSCRIBE c")
    case True
    with snoc.prems show ?thesis
      by (intro exI [of _ cmds] exI [of _ "[]"]) simp
  next
    case False
    with snoc.prems have "c \<in> subscribed_after cmds" by (cases x) auto
    from snoc.IH [OF this] obtain pre post where
      cmds: "cmds = pre @ SUBSCRIBE c # post"
      and since: "\<forall>k \<ge> Suc (length pre). c \<in> subscribed_after (take k cmds)" by blast
    have "c \<in> subscribed_after (take k (cmds @ [x]))" if "Suc (length pre) \<le> k" for k
    proof (cases "k \<le> length cmds")
      case True
      with since that show ?thesis by simp
    next
      case False
      with snoc.prems show ?thesis by simp
    qed
    with cmds show ?thesis
      by (intro exI [of _ pre] exI [of _ "post @ [x]"]) simp
  qed
qed simp

text \<open>What follows for any set of channels that grows with a SUBSCRIBE and shrinks with an
  UNSUBSCRIBE, in particular for the channels that the client has asked for.\<close>

definition redis_requests_ok :: "'r redis_client \<Rightarrow> ('r \<Rightarrow> string set) \<Rightarrow> bool" where
  "redis_requests_ok cl subscribed \<longleftrightarrow>
     (\<forall>c p r. subscribed (snd (rc_publish cl c p r)) = subscribed r) \<and>
     (\<forall>r. subscribed r \<subseteq> subscribed (rc_open cl r)) \<and>
     (\<forall>c r. subscribed r \<subseteq> subscribed (snd (rc_subscribe cl c r)) \<and>
        (fst (rc_subscribe cl c r) = None \<longrightarrow> c \<in> subscribed (snd (rc_subscribe cl c r)))) \<and>
     (\<forall>c r. subscribed r - {c} \<subseteq> subscribed (snd (rc_unsubscribe cl c r)))"

lemma redis_requests_okD:
  assumes "redis_requests_ok cl S"
  shows "S (snd (rc_publish cl c p r)) = S r"
    and "S r \<subseteq> S (rc_open cl r)"
    and "S r \<subseteq> S (snd (rc_subscribe cl c r))"
    and "fst (rc_subscribe cl c r) = None \<Longrightarrow> c \<in> S (snd (rc_subscribe cl c r))"
    and "S r - {c} \<subseteq> S (snd (rc_unsubscribe cl c r))"
  using assms by (simp_all add: redis_requests_ok_def)

lemma commands_requests:
  assumes "redis_commands_ok cl sent"
  shows "redis_requests_ok cl (\<lambda>r. subscribed_after (sent r))"
proof -
  have p: "sent (snd (rc_publish cl c p r)) = sent r" and o: "sent (rc_open cl r) = sent r"
    and s: "sent (snd (rc_subscribe cl c r)) = sent r @ [SUBSCRIBE c] \<or>
        (fst (rc_subscribe cl c r) \<noteq> None \<and> sent (snd (rc_subscribe cl c r)) = sent r)"
    and u: "sent (snd (rc_unsubscribe cl c r)) = sent r @ [UNSUBSCRIBE c] \<or>
        sent (snd (rc_unsubscribe cl c r)) = sent r" for c p r
    using assms by (auto simp: redis_commands_ok_def)
  have "subscribed_after (sent r) \<subseteq> subscribed_after (sent (snd (rc_subscribe cl c r))) \<and>
      (fst (rc_subscribe cl c r) = None \<longrightarrow> c \<in> subscribed_after (sent (snd (rc_subscribe cl c r))))"
    for c r using s [of c r] by auto
  moreover have "subscribed_after (sent r) - {c} \<subseteq> subscribed_after (sent (snd (rc_unsubscribe cl c r)))"
    for c r using u [of c r] by auto
  ultimately show ?thesis by (simp add: redis_requests_ok_def p o)
qed

definition served :: "('r \<Rightarrow> string set) \<Rightarrow> 'r redis_bus \<Rightarrow> bool" where
  "served subscribed b \<longleftrightarrow> (\<forall>c. subs_of b c \<noteq> [] \<longrightarrow> c \<in> subscribed (rb_redis b))"

lemma served_new [simp]: "served S (new_redis r)"
  by (simp add: served_def new_redis_def subs_of_def)

lemma served_ensure:
  "redis_requests_ok cl S \<Longrightarrow> served S b \<Longrightarrow> served S (ensure_reader cl b)"
proof -
  assume srv: "redis_requests_ok cl S" and sv: "served S b"
  have "S (rb_redis b) \<subseteq> S (rb_redis (ensure_reader cl b))"
    using redis_requests_okD(2) [OF srv] by (simp add: ensure_reader_def)
  with sv show ?thesis by (auto simp: served_def)
qed

lemma served_subscribe:
  assumes srv: "redis_requests_ok cl S" and inv: "rb_inv b" and sv: "served S b"
    and step: "redis_subscribe cl c b = Inr (res, b')"
  shows "served S b'"
proof (rule redis_subscribe_cases [OF inv, of cl c], goal_cases)
  case 1
  with step sv show ?thesis by simp
next
  case (2 e r)
  let ?b = "ensure_reader cl b"
  from 2 step have r: "r = snd (rc_subscribe cl c (rb_redis ?b))" and b': "b' = ?b\<lparr>rb_redis := r\<rparr>"
    by simp_all
  have "S (rb_redis ?b) \<subseteq> S r" unfolding r by (rule redis_requests_okD(3) [OF srv])
  with served_ensure [OF srv sv] b' show ?thesis by (auto simp: served_def)
next
  case (3 out b1)
  then have b': "b1 = b'" using step by simp
  show ?thesis
  proof (cases "subs_of b c = []")
    case True
    let ?b = "ensure_reader cl b"
    have r: "rb_redis b' = snd (rc_subscribe cl c (rb_redis ?b))" using 3(10) True b' by simp
    have none: "fst (rc_subscribe cl c (rb_redis ?b)) = None"
      using 3(1,2) True
      by (auto simp: redis_subscribe_def Let_def split: prod.splits option.splits)
    have "S (rb_redis ?b) \<subseteq> S (rb_redis b')" "c \<in> S (rb_redis b')"
      unfolding r by (rule redis_requests_okD(3) [OF srv], rule redis_requests_okD(4) [OF srv none])
    with served_ensure [OF srv sv] 3(4) b' show ?thesis by (auto simp: served_def)
  next
    case False
    with sv 3(4,10) b' show ?thesis by (auto simp: served_def)
  qed
qed

lemma served_unsubscribe:
  assumes srv: "redis_requests_ok cl S" and inv: "rb_inv b" and sv: "served S b"
    and step: "redis_unsubscribe cl c ch b = Inr (res, b')"
  shows "served S b'"
proof (rule redis_unsubscribe_cases [OF inv, of cl c ch], goal_cases)
  case (3 e b1)
  then have b': "b1 = b'" using step by simp
  show ?thesis
  proof (cases "remove1 ch (subs_of b c) = []")
    case True
    then have "S (rb_redis b) - {c} \<subseteq> S (rb_redis b')"
      using redis_requests_okD(5) [OF srv] 3(8) b' by simp
    with sv 3(6) b' True show ?thesis by (auto simp: served_def)
  next
    case False
    then have "rb_redis b' = rb_redis b" "subs_of b c \<noteq> []" using 3(8) b' by auto
    with sv 3(6) b' show ?thesis by (auto simp: served_def)
  qed
qed (use step sv in simp_all)

lemma served_step:
  assumes srv: "redis_requests_ok cl S" and inv: "rb_inv b" and sv: "served S b"
    and step: "bus_step cl e b = Inr b'"
  shows "served S b'"
proof (cases e)
  case (BusPublish c p)
  have "S (snd (rc_publish cl c p (rb_redis b))) = S (rb_redis b)"
    by (rule redis_requests_okD(1) [OF srv])
  with BusPublish step sv show ?thesis
    by (auto simp: redis_publish_def served_def split: prod.splits option.splits if_splits)
next
  case (BusSubscribe c)
  with step show ?thesis by (auto simp: sum_map_eq_Inr intro: served_subscribe [OF srv inv sv])
next
  case (BusUnsubscribe c ch)
  with step show ?thesis by (auto simp: sum_map_eq_Inr intro: served_unsubscribe [OF srv inv sv])
next
  case BusClose
  with step show ?thesis
    by (cases rule: redis_close_ok [OF inv, of cl]) (auto simp: served_def)
next
  case (BusArrive msg)
  with step sv redis_fan_out_ok(1) [OF inv, of msg] show ?thesis
    by (auto simp: reader_message_def served_def split: if_splits)
next
  case (BusReceive ch)
  with step sv show ?thesis by (auto simp: redis_recv_def served_def split: prod.splits)
next
  case BusReaderExit
  with step sv show ?thesis by (auto simp: reader_exit_def served_def split: if_splits)
qed

lemma served_run:
  "redis_requests_ok cl S \<Longrightarrow> rb_inv b \<Longrightarrow> served S b \<Longrightarrow> bus_run cl es b = Inr b' \<Longrightarrow> served S b'"
proof (induction es arbitrary: b)
  case (Cons e es)
  obtain b1 where "bus_step cl e b = Inr b1" "rb_inv b1" "bus_run cl es b1 = Inr b'"
    using Cons.prems bus_step_ok [OF Cons.prems(2), of cl e] by (auto elim: bus_run_ConsE)
  with Cons served_step show ?case by blast
qed simp

lemma run_inv: "bus_run cl es (new_redis r) = Inr b \<Longrightarrow> rb_inv b"
  using bus_run_ok [OF rb_inv_new, of cl es r] by auto

subsection \<open>Properties\<close>

text \<open>A client whose server accepts everything and remembers the subscribed names.\<close>

definition loopback_client :: "string list redis_client" where
  "loopback_client =
     \<lparr>rc_publish = (\<lambda>c p r. (None, r)),
      rc_open = (\<lambda>r. r),
      rc_subscribe = (\<lambda>c r. (None, c # r)),
      rc_unsubscribe = (\<lambda>c r. (None, removeAll c r)),
      rc_close = (\<lambda>r. [])\<rparr>"

text \<open>A client that accepts everything and keeps the list of the commands.\<close>

definition logging_client :: "redis_command list redis_client" where
  "logging_client =
     \<lparr>rc_publish = (\<lambda>c p r. (None, r)),
      rc_open = (\<lambda>r. r),
      rc_subscribe = (\<lambda>c r. (None, r @ [SUBSCRIBE c])),
      rc_unsubscribe = (\<lambda>c r. (None, r @ [UNSUBSCRIBE c])),
      rc_close = (\<lambda>r. r)\<rparr>"

lemma logging_ok: "redis_commands_ok logging_client (\<lambda>r. r)"
  by (simp add: redis_commands_ok_def logging_client_def)

text \<open>
  Whatever the goroutines do to a fresh bus, in whatever order, and whatever the Redis
  client answers, no operation panics: no send on a closed channel, no second close, no write
  to the nil map that \<^verbatim>\<open>Close\<close> leaves and no use of the connection before it exists.
\<close>

theorem bus_never_panics: "\<exists>b. bus_run cl es (new_redis r) = Inr b"
  using bus_run_ok [OF rb_inv_new, of cl es r] by auto

text \<open>
  Fan-out. While the reader runs, a message that arrives is put, once, into the buffer of
  every local consumer of exactly its channel that has room (a full buffer drops it for that
  consumer only), nothing else changes in any consumer's buffer, and the reader goes on.
\<close>

theorem bus_fan_out_exact:
  assumes "bus_run cl es (new_redis r) = Inr b" and "rb_done b = Some False"
  shows "\<exists>b'. reader_message msg b = Inr b' \<and> subs_of b' = subs_of b \<and> rb_done b' = Some False \<and>
     (\<forall>ch. buffered (rb_msgs b') ch =
        (if ch \<in> set (subs_of b (m_channel msg))
         then (if length (buffered (rb_msgs b) ch) < 64 then buffered (rb_msgs b) ch @ [msg]
               else buffered (rb_msgs b) ch)
         else buffered (rb_msgs b) ch))"
proof -
  note inv = run_inv [OF assms(1)]
  let ?b = "b\<lparr>rb_msgs := offer_to (set (subs_of b (m_channel msg))) msg (rb_msgs b)\<rparr>"
  have "reader_message msg b = Inr ?b"
    using redis_fan_out_ok(1) [OF inv] assms(2) by (simp add: reader_message_def)
  moreover have "buffered (rb_msgs ?b) ch =
      (if ch \<in> set (subs_of b (m_channel msg)) then accept msg (buffered (rb_msgs b) ch)
       else buffered (rb_msgs b) ch)" for ch
    using redis_queue_fan_out [OF inv, of msg ch] by simp
  ultimately show ?thesis
    using assms(2) by (intro exI [of _ ?b]) (simp add: accept_def sub_buffer_def)
qed

definition demo_bus :: "string list redis_bus" where
  "demo_bus =
     \<lparr>rb_subs = Some [(''post:1'', [0])], rb_ps = True, rb_closed = False, rb_done = Some False,
      rb_msgs = \<lparr>cells = [0 \<mapsto> \<lparr>ch_buf = [], ch_cap = 64, ch_closed = False\<rparr>], next_id = 1\<rparr>,
      rb_redis = [''post:1'']\<rparr>"

lemma demo_bus_run:
  "bus_run loopback_client [BusSubscribe ''post:1''] (new_redis []) = Inr demo_bus"
  by (simp add: demo_bus_def new_redis_def redis_subscribe_def subs_of_def ensure_reader_def
      loopback_client_def add_consumer_def make_chan_def empty_heap_def sub_buffer_def Let_def)

theorem bus_fan_out_exact_witness:
  "\<exists>b'. reader_message \<lparr>m_channel = ''post:1'', m_payload = ''hi''\<rparr> demo_bus = Inr b' \<and>
     buffered (rb_msgs b') 0 = [\<lparr>m_channel = ''post:1'', m_payload = ''hi''\<rparr>]"
proof -
  have "rb_done demo_bus = Some False" by (simp add: demo_bus_def)
  from bus_fan_out_exact [OF demo_bus_run this, of "\<lparr>m_channel = ''post:1'', m_payload = ''hi''\<rparr>"]
  show ?thesis by (auto simp: demo_bus_def subs_of_def buffered_def)
qed

text \<open>
  C11. No consumer is left behind: after any sequence of calls, for a channel name that has a
  local consumer, the commands handed to the Redis connection hold a SUBSCRIBE of that name after
  which the name stays subscribed: once the server has carried that command out, however many of
  the later ones it has carried out too, it sends the messages of the channel down the connection.
  So a channel is asked for before its first consumer gets its Go channel, and dropping one
  consumer never cuts off another one. It does not say that the subscription is active when
  \<^verbatim>\<open>Subscribe\<close> returns: the client does not wait for the server.
\<close>

theorem bus_consumers_served:
  assumes "redis_commands_ok cl sent" and "bus_run cl es (new_redis r) = Inr b"
    and "subs_of b c \<noteq> []"
  shows "\<exists>pre post. sent (rb_redis b) = pre @ SUBSCRIBE c # post \<and>
    (\<forall>k \<ge> Suc (length pre). c \<in> subscribed_after (take k (sent (rb_redis b))))"
proof (rule subscribed_since)
  show "c \<in> subscribed_after (sent (rb_redis b))"
    using served_run [OF commands_requests [OF assms(1)] rb_inv_new served_new assms(2)] assms(3)
    by (simp add: served_def)
qed

definition logging_bus :: "redis_command list redis_bus" where
  "logging_bus =
     \<lparr>rb_subs = Some [(''post:1'', [1])], rb_ps = True, rb_closed = False, rb_done = Some False,
      rb_msgs = \<lparr>cells = [0 \<mapsto> \<lparr>ch_buf = [], ch_cap = 64, ch_closed = True\<rparr>,
                          1 \<mapsto> \<lparr>ch_buf = [], ch_cap = 64, ch_closed = False\<rparr>], next_id = 2\<rparr>,
      rb_redis = [SUBSCRIBE ''post:1'']\<rparr>"

lemma logging_bus_run:
  "bus_run logging_client [BusSubscribe ''post:1'', BusSubscribe ''post:1'', BusUnsubscribe ''post:1'' 0]
     (new_redis []) = Inr logging_bus"
  by (simp add: logging_bus_def new_redis_def redis_subscribe_def redis_unsubscribe_def subs_of_def
      ensure_reader_def logging_client_def add_consumer_def make_chan_def empty_heap_def
      close_chan_def sub_buffer_def Let_def fun_eq_iff)

theorem bus_consumers_served_witness:
  "subs_of logging_bus ''post:1'' = [1] \<and>
   (\<forall>k. ''post:1'' \<in> subscribed_after (take (Suc k) (rb_redis logging_bus)))"
proof
  show one: "subs_of logging_bus ''post:1'' = [1]" by (simp add: logging_bus_def subs_of_def)
  then have "subs_of logging_bus ''post:1'' \<noteq> []" by simp
  from bus_consumers_served [OF logging_ok logging_bus_run this] obtain pre post where
    log: "rb_redis logging_bus = pre @ SUBSCRIBE ''post:1'' # post"
    and since: "\<forall>k \<ge> Suc (length pre). ''post:1'' \<in> subscribed_after (take k (rb_redis logging_bus))"
    by blast
  from log have "pre = []" by (cases pre) (simp_all add: logging_bus_def)
  with since show "\<forall>k. ''post:1'' \<in> subscribed_after (take (Suc k) (rb_redis logging_bus))" by simp
qed

text \<open>
  Consumers of one channel share one Redis subscription: while the bus is open and a
  channel has a consumer, another \<^verbatim>\<open>Subscribe\<close> to it succeeds without any call to the Redis
  client, returns a Go channel nobody else holds, with an empty buffer, and keeps all the
  earlier consumers.
\<close>

theorem bus_subscribe_shared:
  assumes "bus_run cl es (new_redis r) = Inr b" and "subs_of b c \<noteq> []"
  shows "\<exists>ch b'. redis_subscribe cl c b = Inr (Inr ch, b') \<and> rb_redis b' = rb_redis b \<and>
     subs_of b' c = subs_of b c @ [ch] \<and> (\<forall>d. ch \<notin> set (subs_of b d)) \<and>
     buffered (rb_msgs b') ch = []"
proof (rule redis_subscribe_cases [OF run_inv [OF assms(1)], of cl c], goal_cases)
  case 1
  then have "subs_of b c = []"
    using rb_invD(3) [OF run_inv [OF assms(1)]] by (simp add: subs_of_def)
  with assms(2) show ?thesis by simp
next
  case 2
  with assms(2) show ?thesis by simp
next
  case 3
  with assms(2) show ?thesis by force
qed

theorem bus_subscribe_shared_witness:
  "\<exists>ch b'. redis_subscribe loopback_client ''post:1'' demo_bus = Inr (Inr ch, b') \<and>
     rb_redis b' = [''post:1''] \<and> subs_of b' ''post:1'' = [0, ch]"
proof -
  have one: "subs_of demo_bus ''post:1'' = [0]" by (simp add: demo_bus_def subs_of_def)
  then have "subs_of demo_bus ''post:1'' \<noteq> []" by simp
  from bus_subscribe_shared [OF demo_bus_run this] show ?thesis
    unfolding one by (simp add: demo_bus_def) blast
qed

text \<open>
  C12. \<^verbatim>\<open>Close\<close> closes every consumer's channel exactly once, keeps what they still have buffered,
  and after it every method returns \<open>ErrClosed\<close> without effect; a second \<^verbatim>\<open>Close\<close> returns at
  once and changes nothing.
\<close>

theorem bus_close_final:
  assumes "bus_run cl es (new_redis r) = Inr b"
  shows "\<exists>w b'. redis_close cl b = Inr (w, b') \<and>
     (\<forall>c ch. ch \<in> set (subs_of b c) \<longrightarrow>
        \<not> is_open (rb_msgs b') ch \<and> buffered (rb_msgs b') ch = buffered (rb_msgs b) ch) \<and>
     redis_close cl b' = Inr (False, b') \<and>
     redis_publish cl c p b' = (Some ErrClosed, b') \<and>
     redis_subscribe cl c b' = Inr (Inl ErrClosed, b') \<and>
     redis_unsubscribe cl c ch b' = Inr (Some ErrClosed, b')"
proof -
  note inv = run_inv [OF assms]
  obtain w b' where cl: "redis_close cl b = Inr (w, b')" "rb_closed b'"
    "rb_msgs b' = mark_closed (set (all_consumers b)) (rb_msgs b)"
    using redis_close_ok [OF inv, of cl] by metis
  have "ch \<in> set (all_consumers b)" if "ch \<in> set (subs_of b c)" for c ch
    using that all_consumers_inv(3) [OF inv] by blast
  with cl show ?thesis
    by (intro exI [of _ w] exI [of _ b'])
      (simp add: redis_close_def redis_publish_def redis_subscribe_def redis_unsubscribe_def)
qed

theorem bus_close_final_witness:
  "\<exists>w b'. redis_close loopback_client demo_bus = Inr (w, b') \<and> \<not> is_open (rb_msgs b') 0 \<and>
     redis_close loopback_client b' = Inr (False, b')"
proof -
  have "0 \<in> set (subs_of demo_bus ''post:1'')" by (simp add: demo_bus_def subs_of_def)
  with bus_close_final [OF demo_bus_run] show ?thesis by metis
qed

text \<open>
  When the Redis connection drops for good, the reader just ends: it closes no consumer
  channel, no later message reaches any consumer, and receiving from a drained consumer
  channel waits instead of reporting the end. (The comment of the interface says that the
  returned channel is closed when the transport drops irrecoverably.)
\<close>

theorem bus_transport_drop_leaves_consumers:
  assumes "bus_run cl es (new_redis r) = Inr b" and "rb_done b = Some False"
    and "ch \<in> set (subs_of b c)"
  shows "is_open (rb_msgs (reader_exit b)) ch \<and>
     reader_message msg (reader_exit b) = Inr (reader_exit b) \<and>
     (buffered (rb_msgs b) ch = [] \<longrightarrow> fst (redis_recv ch (reader_exit b)) = Blocked)"
proof -
  have "is_open (rb_msgs b) ch"
    using subs_okD(3) [OF rb_invD(2) [OF run_inv [OF assms(1)]] assms(3)] .
  with assms(2) show ?thesis
    by (auto simp: reader_exit_def reader_message_def redis_recv_def recv_chan_def is_open_def
        buffered_def split: prod.splits)
qed

theorem bus_transport_drop_leaves_consumers_witness:
  "is_open (rb_msgs (reader_exit demo_bus)) 0 \<and> fst (redis_recv 0 (reader_exit demo_bus)) = Blocked"
proof -
  have "rb_done demo_bus = Some False" "0 \<in> set (subs_of demo_bus ''post:1'')"
    "buffered (rb_msgs demo_bus) 0 = []"
    by (simp_all add: demo_bus_def subs_of_def buffered_def)
  with bus_transport_drop_leaves_consumers [OF demo_bus_run] show ?thesis by blast
qed

end
