(* ===== verification/FeedSystem.thy ===== *)
theory FeedSystem
  imports FeedHub RedisBus
begin

text \<open>
  A whole gateway as far as the feed is concerned: the hub, its bridges, the bus below it and
  the SSE connections above it, as a step relation over the operations of
  \<^verbatim>\<open>internal/feed/hub.go\<close>. Each method and each turn of a bridge is one step, and any
  interleaving of them is a run.

  The callers' obligations are the guards: the handler in \<^verbatim>\<open>internal/handlers/sse.go\<close> releases
  exactly the connections it acquired, once each, \<^verbatim>\<open>Acquire\<close> and \<^verbatim>\<open>Close\<close> are not called after
  \<^verbatim>\<open>Close\<close>, and \<^verbatim>\<open>uuid.NewString()\<close> does not repeat itself. Delivery to a connection and its
  departure may come in any order, before or after \<^verbatim>\<open>Close\<close>.
\<close>

record conn =
  cn_post :: string
  cn_user :: string
  cn_id :: string
  cn_ch :: chan_id

record 'b gateway =
  gw_hub :: "'b hub"
  gw_conns :: "conn set"
  gw_uuids :: "string set"
  gw_arrived :: "message set"
  gw_closed :: bool

definition new_gateway :: "'b \<Rightarrow> 'b gateway" where
  "new_gateway bus =
     \<lparr>gw_hub = new_hub bus new_store, gw_conns = {}, gw_uuids = {}, gw_arrived = {}, gw_closed = False\<rparr>"

definition viewer_joins ::
    "'b pubsub \<Rightarrow> string \<Rightarrow> string \<Rightarrow> string \<Rightarrow> 'b gateway \<Rightarrow> panic + 'b gateway" where
  "viewer_joins P p u uuid g =
     sum_map (\<lambda>(res, h).
         case res of
           Inl _ \<Rightarrow> g\<lparr>gw_hub := h\<rparr>
         | Inr (ch, c) \<Rightarrow>
             g\<lparr>gw_hub := h, gw_uuids := insert c (gw_uuids g),
               gw_conns := insert \<lparr>cn_post = p, cn_user = u, cn_id = c, cn_ch = ch\<rparr> (gw_conns g)\<rparr>)
       (hub_acquire P p u uuid (gw_hub g))"

definition viewer_leaves :: "'b pubsub \<Rightarrow> conn \<Rightarrow> 'b gateway \<Rightarrow> panic + 'b gateway" where
  "viewer_leaves P k g =
     sum_map (\<lambda>h. g\<lparr>gw_hub := h, gw_conns := gw_conns g - {k}\<rparr>)
       (hub_release P (cn_post k) (cn_user k) (cn_id k) (gw_hub g))"

definition viewer_reads :: "conn \<Rightarrow> 'b gateway \<Rightarrow> event received \<times> 'b gateway" where
  "viewer_reads k g =
     (let (got, ev) = recv_chan (cn_ch k) (hb_events (gw_hub g))
      in (got, g\<lparr>gw_hub := (gw_hub g)\<lparr>hb_events := ev\<rparr>\<rparr>))"

inductive gateway_step ::
    "'b pubsub \<Rightarrow> (message \<Rightarrow> 'b \<Rightarrow> panic + 'b) \<Rightarrow> 'b gateway \<Rightarrow> (panic + 'b gateway) \<Rightarrow> bool"
  for P arrive where
  joins: "\<not> gw_closed g \<Longrightarrow> uuid \<notin> gw_uuids g \<Longrightarrow> gateway_step P arrive g (viewer_joins P p u uuid g)"
| leaves: "k \<in> gw_conns g \<Longrightarrow> gateway_step P arrive g (viewer_leaves P k g)"
| reads: "k \<in> gw_conns g \<Longrightarrow> gateway_step P arrive g (Inr (snd (viewer_reads k g)))"
| bridges: "br \<in> set (hb_bridges (gw_hub g)) \<Longrightarrow>
    gateway_step P arrive g (sum_map (\<lambda>h. g\<lparr>gw_hub := h\<rparr>) (bridge_step P br cs (gw_hub g)))"
| arrives: "gateway_step P arrive g
    (sum_map (\<lambda>bus. g\<lparr>gw_hub := (gw_hub g)\<lparr>hb_bus := bus\<rparr>, gw_arrived := insert m (gw_arrived g)\<rparr>)
      (arrive m (hb_bus (gw_hub g))))"
| closes: "\<not> gw_closed g \<Longrightarrow>
    gateway_step P arrive g (sum_map (\<lambda>h. g\<lparr>gw_hub := h, gw_closed := True\<rparr>) (hub_close P (gw_hub g)))"

inductive gateway_reach ::
    "'b pubsub \<Rightarrow> (message \<Rightarrow> 'b \<Rightarrow> panic + 'b) \<Rightarrow> 'b gateway \<Rightarrow> 'b gateway \<Rightarrow> bool"
  for P arrive g where
  start: "gateway_reach P arrive g g"
| step: "gateway_reach P arrive g g1 \<Longrightarrow> gateway_step P arrive g1 (Inr g2) \<Longrightarrow>
    gateway_reach P arrive g g2"

inductive_cases gateway_stepE: "gateway_step P arrive g r"

subsection \<open>The invariant of the gateway\<close>

text \<open>
  While the hub is open the connections are the entries of the store, each with its own
  channel. Once it is closed the store is empty and the channel of every connection that has
  not left yet is closed. In both phases a connection's channel holds only payloads of its post.
\<close>

definition conns_match :: "conn set \<Rightarrow> store \<Rightarrow> bool" where
  "conns_match K st \<longleftrightarrow>
     (\<forall>k\<in>K. store_at st (cn_post k) (cn_id k) = Some \<lparr>su_user = cn_user k, su_ch = cn_ch k\<rparr>) \<and>
     (\<forall>p c sub. store_at st p c = Some sub \<longrightarrow>
        \<lparr>cn_post = p, cn_user = su_user sub, cn_id = c, cn_ch = su_ch sub\<rparr> \<in> K)"

definition conns_traced :: "message set \<Rightarrow> conn set \<Rightarrow> event heap \<Rightarrow> bool" where
  "conns_traced L K ev \<longleftrightarrow>
     (\<forall>k\<in>K. set (buffered ev (cn_ch k)) \<subseteq> m_payload ` post_messages L (cn_post k))"

lemma conns_matchD:
  assumes "conns_match K st"
  shows "k \<in> K \<Longrightarrow> store_at st (cn_post k) (cn_id k) = Some \<lparr>su_user = cn_user k, su_ch = cn_ch k\<rparr>"
    and "store_at st p c = Some sub \<Longrightarrow>
      \<lparr>cn_post = p, cn_user = su_user sub, cn_id = c, cn_ch = su_ch sub\<rparr> \<in> K"
    and "k \<in> K \<Longrightarrow> cn_id k \<in> store_conns st (cn_post k)"
  using assms by (auto simp: conns_match_def store_conns_def)

lemma conns_match_store:
  assumes "conns_match K st"
  shows "store_conns st p = cn_id ` {k \<in> K. cn_post k = p}"
    and "post_chans st p = cn_ch ` {k \<in> K. cn_post k = p}"
proof -
  have ex: "\<exists>k\<in>K. cn_post k = p \<and> cn_id k = c \<and> cn_ch k = su_ch sub"
    if "store_at st p c = Some sub" for c sub
    using conns_matchD(2) [OF assms that] by force
  have at: "store_at st p (cn_id k) = Some \<lparr>su_user = cn_user k, su_ch = cn_ch k\<rparr>"
    if "k \<in> K" "cn_post k = p" for k
    using conns_matchD(1) [OF assms that(1)] that(2) by simp
  show "store_conns st p = cn_id ` {k \<in> K. cn_post k = p}"
    using ex at by (fastforce simp: store_conns_def)
  show "post_chans st p = cn_ch ` {k \<in> K. cn_post k = p}"
  proof (rule set_eqI, rule iffI)
    show "ch \<in> cn_ch ` {k \<in> K. cn_post k = p}" if "ch \<in> post_chans st p" for ch
      using that ex by (force simp: post_chans_def)
    show "ch \<in> post_chans st p" if "ch \<in> cn_ch ` {k \<in> K. cn_post k = p}" for ch
      using that at by (force simp: post_chans_def)
  qed
qed

lemma conns_match_traced:
  "conns_match K st \<Longrightarrow> traced L st ev \<Longrightarrow> conns_traced L K ev"
  unfolding conns_traced_def traced_def using conns_matchD(1) by fastforce

lemma conn_eqI:
  "cn_post k = cn_post k' \<Longrightarrow> cn_user k = cn_user k' \<Longrightarrow> cn_id k = cn_id k' \<Longrightarrow> cn_ch k = cn_ch k' \<Longrightarrow>
     k = (k' :: conn)"
  by simp

lemma conns_match_subscribe:
  assumes "conns_match K st" and "c \<notin> store_conns st p"
  shows "conns_match (insert \<lparr>cn_post = p, cn_user = u, cn_id = c, cn_ch = ch\<rparr> K)
    (snd (store_subscribe p u ch c st))"
proof -
  have "\<not> (cn_post k = p \<and> cn_id k = c)" if "k \<in> K" for k
    using conns_matchD(3) [OF assms(1) that] assms(2) by auto
  then show ?thesis
    using conns_matchD(1,2) [OF assms(1)] unfolding conns_match_def store_at_subscribe
    by (simp add: ball_conj_distrib) metis
qed

lemma conns_match_unsubscribe:
  assumes m: "conns_match K st" and k: "k \<in> K"
  shows "conns_match (K - {k}) (snd (store_unsubscribe (cn_post k) u (cn_id k) st))"
proof -
  have "\<not> (cn_post k' = cn_post k \<and> cn_id k' = cn_id k)" if "k' \<in> K - {k}" for k'
    using conns_matchD(1) [OF m, of k'] conns_matchD(1) [OF m k] that by (auto intro: conn_eqI)
  with conns_matchD(1,2) [OF m] show ?thesis
    by (auto simp: conns_match_def store_at_unsubscribe)
qed

context pubsub_bus begin

definition gw_inv :: "'b gateway \<Rightarrow> bool" where
  "gw_inv g \<longleftrightarrow>
     hub_inv (gw_arrived g) (gw_hub g) \<and>
     conns_traced (gw_arrived g) (gw_conns g) (hb_events (gw_hub g)) \<and>
     (\<forall>p. store_conns (hb_store (gw_hub g)) p \<subseteq> gw_uuids g) \<and>
     (if gw_closed g
      then hb_posts (gw_hub g) = [] \<and> hb_store (gw_hub g) = [] \<and>
        (\<forall>k\<in>gw_conns g. map_option ch_closed (cells (hb_events (gw_hub g)) (cn_ch k)) = Some True)
      else conns_match (gw_conns g) (hb_store (gw_hub g)))"

lemma gw_invD:
  assumes "gw_inv g"
  shows "hub_inv (gw_arrived g) (gw_hub g)"
    and "conns_traced (gw_arrived g) (gw_conns g) (hb_events (gw_hub g))"
    and "store_conns (hb_store (gw_hub g)) p \<subseteq> gw_uuids g"
    and "\<not> gw_closed g \<Longrightarrow> conns_match (gw_conns g) (hb_store (gw_hub g))"
    and "gw_closed g \<Longrightarrow> hb_posts (gw_hub g) = []"
    and "gw_closed g \<Longrightarrow> hb_store (gw_hub g) = []"
    and "gw_closed g \<Longrightarrow> k \<in> gw_conns g \<Longrightarrow>
      map_option ch_closed (cells (hb_events (gw_hub g)) (cn_ch k)) = Some True"
  using assms by (auto simp: gw_inv_def)

lemma new_gateway_inv: "binv bus \<Longrightarrow> live bus = {} \<Longrightarrow> gw_inv (new_gateway bus)"
  using new_hub_inv
  by (simp add: gw_inv_def new_gateway_def conns_traced_def conns_match_def store_conns_def)
    (simp add: new_hub_def dom_def fun_eq_iff)

lemma viewer_joins_ok:
  assumes inv: "gw_inv g" and closed: "\<not> gw_closed g" and new: "uuid \<notin> gw_uuids g"
  shows "\<exists>g'. viewer_joins P p u uuid g = Inr g' \<and> gw_inv g'"
proof -
  note D = gw_invD [OF inv]
  have fresh: "uuid \<notin> store_conns (hb_store (gw_hub g)) p" using new D(3) by blast
  note m = D(4) [OF closed]
  show ?thesis
  proof (rule hub_acquire_cases [OF D(1) fresh, of u], goal_cases)
    case (1 err h')
    have "conns_traced (gw_arrived g) (gw_conns g) (hb_events h')"
      using conns_match_traced [OF m] 1(2,3) hub_invD(4) by metis
    with 1 D(3) m closed show ?case
      by (auto simp: viewer_joins_def gw_inv_def)
  next
    case (2 ch h')
    let ?K = "insert \<lparr>cn_post = p, cn_user = u, cn_id = uuid, cn_ch = ch\<rparr> (gw_conns g)"
    have m': "conns_match ?K (hb_store h')"
      using conns_match_subscribe [OF m fresh] 2(3) by simp
    then have "conns_traced (gw_arrived g) ?K (hb_events h')"
      using conns_match_traced hub_invD(4) [OF 2(2)] by blast
    moreover have "store_conns (hb_store h') q \<subseteq> insert uuid (gw_uuids g)" for q
      using D(3) [of q] 2(3) by (auto simp: store_conns_def store_at_subscribe dom_def split: if_splits)
    ultimately show ?case
      using 2(1,2) m' closed by (simp add: viewer_joins_def gw_inv_def)
  qed
qed

lemma viewer_leaves_ok:
  assumes inv: "gw_inv g" and k: "k \<in> gw_conns g"
  shows "\<exists>g'. viewer_leaves P k g = Inr g' \<and> gw_inv g'"
proof -
  note D = gw_invD [OF inv]
  have "cn_id k \<in> store_conns (hb_store (gw_hub g)) (cn_post k) \<or> hb_posts (gw_hub g) = []"
    using D(4,5) conns_matchD(3) k by blast
  from hub_release_cases [OF D(1) this, of "cn_user k"]
  obtain h' where h': "hub_release P (cn_post k) (cn_user k) (cn_id k) (gw_hub g) = Inr h'"
      "hub_inv (gw_arrived g) h'"
      "hb_store h' = snd (store_unsubscribe (cn_post k) (cn_user k) (cn_id k) (hb_store (gw_hub g)))"
      "hb_events h' = hb_events (gw_hub g)" "hb_posts (gw_hub g) = [] \<Longrightarrow> hb_posts h' = []"
    by metis
  let ?g = "g\<lparr>gw_hub := h', gw_conns := gw_conns g - {k}\<rparr>"
  have "conns_traced (gw_arrived g) (gw_conns g - {k}) (hb_events h')"
    using D(2) h'(4) by (simp add: conns_traced_def)
  moreover have "store_conns (hb_store h') q \<subseteq> gw_uuids g" for q
    using D(3) [of q] h'(3) by (auto simp: store_conns_def store_at_unsubscribe split: if_splits)
  moreover have "conns_match (gw_conns g - {k}) (hb_store h')" if "\<not> gw_closed g"
    using conns_match_unsubscribe [OF D(4) [OF that] k] h'(3) by simp
  moreover have "hb_store h' = []" if "gw_closed g"
    using D(6) [OF that] h'(3) by (simp add: store_unsubscribe_def)
  ultimately have "gw_inv ?g"
    using h'(2,4,5) D(5,7) by (simp add: gw_inv_def)
  with h'(1) show ?thesis by (simp add: viewer_leaves_def)
qed

lemma viewer_reads_ok:
  assumes inv: "gw_inv g"
  shows "gw_inv (snd (viewer_reads k g))"
proof -
  note D = gw_invD [OF inv]
  obtain got ev where read: "recv_chan (cn_ch k) (hb_events (gw_hub g)) = (got, ev)" by fastforce
  have "conns_traced (gw_arrived g) (gw_conns g) ev"
    using D(2) recv_buffered_subset [OF read] unfolding conns_traced_def by (meson subset_trans)
  moreover have "map_option ch_closed (cells ev c) = map_option ch_closed (cells (hb_events (gw_hub g)) c)"
    for c by (rule recv_cases [OF read]) auto
  ultimately show ?thesis
    using D(3-7) read_hub_inv [OF D(1) read]
    by (simp add: viewer_reads_def read gw_inv_def)
qed

lemma bridges_ok:
  assumes inv: "gw_inv g" and br: "br \<in> set (hb_bridges (gw_hub g))"
  shows "\<exists>g'. sum_map (\<lambda>h. g\<lparr>gw_hub := h\<rparr>) (bridge_step P br cs (gw_hub g)) = Inr g' \<and> gw_inv g'"
proof -
  note D = gw_invD [OF inv]
  show ?thesis
  proof (rule bridge_step_cases [OF D(1) br, of cs], goal_cases)
    case (1 h')
    have "conns_traced (gw_arrived g) (gw_conns g) (hb_events h')"
    proof (cases "gw_closed g")
      case True
      then have "post_chans (hb_store (gw_hub g)) (br_key br) = {}"
        using D(6) by (simp add: post_chans_def)
      with 1(5) have "hb_events h' = hb_events (gw_hub g)" by auto
      with D(2) show ?thesis by simp
    next
      case False
      with D(4) 1(2,3) show ?thesis using conns_match_traced hub_invD(4) by metis
    qed
    moreover have "map_option ch_closed (cells (hb_events h') c) =
        map_option ch_closed (cells (hb_events (gw_hub g)) c)" for c
      using 1(5) by (auto simp: option.map_comp comp_def)
    ultimately have "gw_inv (g\<lparr>gw_hub := h'\<rparr>)"
      using 1 D(3-7) by (simp add: gw_inv_def)
    with 1(1) show ?case by simp
  qed
qed

lemma arrives_ok:
  assumes inv: "gw_inv g"
  shows "\<exists>g'. sum_map (\<lambda>bus. g\<lparr>gw_hub := (gw_hub g)\<lparr>hb_bus := bus\<rparr>, gw_arrived := insert m (gw_arrived g)\<rparr>)
      (arrive m (hb_bus (gw_hub g))) = Inr g' \<and> gw_inv g'"
proof -
  note D = gw_invD [OF inv]
  obtain bus where bus: "arrive m (hb_bus (gw_hub g)) = Inr bus"
    "hub_inv (insert m (gw_arrived g)) ((gw_hub g)\<lparr>hb_bus := bus\<rparr>)"
    by (rule arrive_hub_inv [OF D(1)])
  have "conns_traced (insert m (gw_arrived g)) (gw_conns g) (hb_events (gw_hub g))"
    using D(2) unfolding conns_traced_def messages_on_def by fastforce
  with bus D(3-7) show ?thesis by (simp add: gw_inv_def)
qed

lemma closes_ok:
  assumes inv: "gw_inv g" and closed: "\<not> gw_closed g"
  shows "\<exists>g'. sum_map (\<lambda>h. g\<lparr>gw_hub := h, gw_closed := True\<rparr>) (hub_close P (gw_hub g)) = Inr g' \<and> gw_inv g'"
proof -
  note D = gw_invD [OF inv]
  obtain h' where h': "hub_close P (gw_hub g) = Inr h'" "hub_inv (gw_arrived g) h'" "hb_store h' = []"
    "hb_posts h' = []"
    "hb_events h' = mark_closed (\<Union>p. post_chans (hb_store (gw_hub g)) p) (hb_events (gw_hub g))"
    by (rule hub_close_ok [OF D(1)]) blast
  have "map_option ch_closed (cells (hb_events h') (cn_ch k)) = Some True" if k: "k \<in> gw_conns g" for k
  proof -
    note at = conns_matchD(1) [OF D(4) [OF closed] k]
    then have "cn_ch k \<in> (\<Union>p. post_chans (hb_store (gw_hub g)) p)"
      by (force simp: post_chans_def)
    moreover have "is_open (hb_events (gw_hub g)) (cn_ch k)"
      using hub_invD(3) [OF D(1)] store_chans_okD(1) [OF _ at] by (simp add: chans_ok_def)
    ultimately show ?thesis using h'(5) by (auto simp: is_open_def)
  qed
  moreover have "conns_traced (gw_arrived g) (gw_conns g) (hb_events h')"
    using D(2) h'(5) by (simp add: conns_traced_def)
  moreover have "store_conns (hb_store h') p = {}" for p
    using h'(3) by (simp add: store_conns_def dom_def)
  ultimately have "gw_inv (g\<lparr>gw_hub := h', gw_closed := True\<rparr>)"
    using h'(2-4) by (simp del: map_option_eq_Some add: gw_inv_def)
  with h'(1) show ?thesis by simp
qed

theorem gateway_step_ok:
  assumes "gateway_step P arrive g r" and "gw_inv g"
  shows "\<exists>g'. r = Inr g' \<and> gw_inv g'"
  using assms
proof cases
  case (joins uuid p u)
  with viewer_joins_ok [OF assms(2)] show ?thesis by blast
next
  case (leaves k)
  with viewer_leaves_ok [OF assms(2)] show ?thesis by blast
next
  case (reads k)
  with viewer_reads_ok [OF assms(2)] show ?thesis by blast
next
  case (bridges br cs)
  with bridges_ok [OF assms(2)] show ?thesis by blast
next
  case (arrives m)
  with arrives_ok [OF assms(2)] show ?thesis by blast
next
  case closes
  with closes_ok [OF assms(2)] show ?thesis by blast
qed

lemma gateway_reach_inv:
  assumes "gateway_reach P arrive (new_gateway bus) g" and "binv bus" and "live bus = {}"
  shows "gw_inv g"
  using assms(1)
proof induction
  case start
  show ?case by (rule new_gateway_inv [OF assms(2,3)])
next
  case (step g1 g2)
  with gateway_step_ok show ?case by blast
qed

text \<open>What the invariant says about a gateway, for any bus.\<close>

lemma gateway_conns_finite: "gw_inv g \<Longrightarrow> \<not> gw_closed g \<Longrightarrow> finite {k \<in> gw_conns g. cn_post k = p}"
  and gateway_refs: "gw_inv g \<Longrightarrow> \<not> gw_closed g \<Longrightarrow>
    refs_of (hb_posts (gw_hub g)) p = int (card {k \<in> gw_conns g. cn_post k = p})"
proof -
  assume inv: "gw_inv g" and closed: "\<not> gw_closed g"
  note D = gw_invD [OF inv]
  note m = D(4) [OF closed]
  let ?st = "hb_store (gw_hub g)" and ?K = "{k \<in> gw_conns g. cn_post k = p}"
  note C = conns.countedD [OF hub_invD(2) [OF D(1)]]
  have inj: "inj_on cn_id ?K"
  proof (rule inj_onI)
    fix k k' assume "k \<in> ?K" "k' \<in> ?K" "cn_id k = cn_id k'"
    with conns_matchD(1) [OF m, of k] conns_matchD(1) [OF m, of k'] show "k = k'"
      by (auto intro: conn_eqI)
  qed
  have img: "cn_id ` ?K = store_conns ?st p"
    by (simp add: conns_match_store(1) [OF m])
  have fin: "finite (store_conns ?st p)" using conns.finite_members [OF C(2)] .
  show "finite ?K" using fin inj img by (metis finite_imageD)
  have "card ?K = card (store_conns ?st p)" using card_image [OF inj] img by simp
  then have "card ?K = store_subscribers p ?st" using conns.count_card [OF C(2)] by simp
  then show "refs_of (hb_posts (gw_hub g)) p = int (card ?K)"
    using C(3) by simp
qed

lemma gateway_viewed:
  assumes inv: "gw_inv g"
  shows "gm_get (hb_posts (gw_hub g)) p \<noteq> None \<longleftrightarrow>
    \<not> gw_closed g \<and> p \<in> cn_post ` gw_conns g"
proof (cases "gw_closed g")
  case True
  with gw_invD(5) [OF inv] show ?thesis by simp
next
  case False
  note D = gw_invD [OF inv]
  have "gm_get (hb_posts (gw_hub g)) p = None \<longleftrightarrow> store_conns (hb_store (gw_hub g)) p = {}"
    by (rule conns.countedD(6) [OF hub_invD(2) [OF D(1)]])
  also have "\<dots> \<longleftrightarrow> p \<notin> cn_post ` gw_conns g"
    unfolding conns_match_store(1) [OF D(4) [OF False]] by auto
  finally show ?thesis using False by simp
qed

lemma gateway_bus_inv: "gw_inv g \<Longrightarrow> binv (hb_bus (gw_hub g))"
  using gw_invD(1) hub_invD(1) bus_okD(1) by blast

lemma gateway_live:
  assumes inv: "gw_inv g"
  shows "(c, ch) \<in> live (hb_bus (gw_hub g)) \<longleftrightarrow>
    (\<exists>p e. c = post_channel p \<and> gm_get (hb_posts (gw_hub g)) p = Some e \<and> ch = en_redis e)"
  using bus_okD(3) [OF hub_invD(1) [OF gw_invD(1) [OF inv]]] by (auto simp: subscribed_to_def)

lemma gateway_isolated:
  assumes inv: "gw_inv g" and k: "k \<in> gw_conns g" and read: "viewer_reads k g = (Received e, g')"
  shows "\<exists>m\<in>gw_arrived g. m_channel m = post_channel (cn_post k) \<and> m_payload m = e"
proof -
  obtain ev where "recv_chan (cn_ch k) (hb_events (gw_hub g)) = (Received e, ev)"
    using read by (auto simp: viewer_reads_def split: prod.splits)
  from recv_chan_Received [OF this] have "e \<in> set (buffered (hb_events (gw_hub g)) (cn_ch k))" by simp
  then have "e \<in> m_payload ` post_messages (gw_arrived g) (cn_post k)"
    using gw_invD(2) [OF inv] k unfolding conns_traced_def by blast
  then show ?thesis by (auto simp: messages_on_def)
qed

lemma gateway_post_chans:
  assumes inv: "gw_inv g" and open': "\<not> gw_closed g"
  shows "ch \<in> post_chans (hb_store (gw_hub g)) p \<longleftrightarrow> (\<exists>k\<in>gw_conns g. cn_post k = p \<and> cn_ch k = ch)"
  unfolding conns_match_store(2) [OF gw_invD(4) [OF inv open']] by auto

lemma gateway_bridge_delivers:
  assumes inv: "gw_inv g" and open': "\<not> gw_closed g" and br: "br \<in> set (hb_bridges (gw_hub g))"
    and got: "ps_recv P (br_ch br) (hb_bus (gw_hub g)) = (Received m, bus)"
  shows "\<exists>h'. bridge_step P br BridgeMessage (gw_hub g) = Inr h' \<and> hb_store h' = hb_store (gw_hub g) \<and>
    m_channel m = post_channel (br_key br) \<and>
    (\<forall>k\<in>gw_conns g. buffered (hb_events h') (cn_ch k) =
       (if cn_post k = br_key br \<and> length (buffered (hb_events (gw_hub g)) (cn_ch k)) < 64
        then buffered (hb_events (gw_hub g)) (cn_ch k) @ [m_payload m]
        else buffered (hb_events (gw_hub g)) (cn_ch k)))"
proof -
  note D = gw_invD [OF inv]
  note H = hub_invD [OF D(1)]
  let ?h = "gw_hub g" and ?A = "post_chans (hb_store (gw_hub g)) (br_key br)"
  let ?ev = "offer_to ?A (m_payload m) (hb_events ?h)"
  have pub: "store_publish (br_key br) (m_payload m) (hb_store ?h) (hb_events ?h) = Inr ?ev"
    using H(3) conns.countedD(2) [OF H(2)] by (simp add: chans_ok_def store_publish_ok)
  have m: "m_channel m = post_channel (br_key br)"
    using bus_ok_recv(2) [OF H(1) br got] by (simp add: messages_on_def)
  have "buffered ?ev (cn_ch k) = (if cn_post k = br_key br \<and> length (buffered (hb_events ?h) (cn_ch k)) < 64
      then buffered (hb_events ?h) (cn_ch k) @ [m_payload m] else buffered (hb_events ?h) (cn_ch k))"
    if k: "k \<in> gw_conns g" for k
  proof -
    note at = conns_matchD(1) [OF D(4) [OF open'] k]
    have ok: "store_chans_ok (hb_store ?h) (hb_events ?h)" using H(3) by (simp add: chans_ok_def)
    obtain cell where cell: "cells (hb_events ?h) (cn_ch k) = Some cell" "ch_cap cell = 64"
      using H(3) at unfolding chans_ok_def by fastforce
    have "cn_ch k \<in> ?A \<longleftrightarrow> cn_post k = br_key br"
      unfolding gateway_post_chans [OF inv open']
      using k store_chans_okD(2) [OF ok at] conns_matchD(1) [OF D(4) [OF open']] by fastforce
    with cell show ?thesis by (simp add: buffered_def ch_buf_offer)
  qed
  with pub got m show ?thesis by (simp add: bridge_step_def)
qed

lemma gateway_bridges:
  assumes inv: "gw_inv g"
  shows "p \<in> cn_post ` gw_conns g \<Longrightarrow> \<not> gw_closed g \<Longrightarrow>
      \<exists>!br. br \<in> set (hb_bridges (gw_hub g)) \<and> br_key br = p \<and> br_ctx br \<notin> set (hb_cancelled (gw_hub g))"
    and "br \<in> set (hb_bridges (gw_hub g)) \<Longrightarrow>
      br_key br \<notin> cn_post ` gw_conns g \<or> gw_closed g \<Longrightarrow>
      bridge_step P br BridgeDone (gw_hub g) = Inr (bridge_returns br (gw_hub g))"
proof -
  note wf = bus_okD(2) [OF hub_invD(1) [OF gw_invD(1) [OF inv]]]
  note viewed = gateway_viewed [OF inv]
  show "\<exists>!br. br \<in> set (hb_bridges (gw_hub g)) \<and> br_key br = p \<and>
      br_ctx br \<notin> set (hb_cancelled (gw_hub g))"
    if "p \<in> cn_post ` gw_conns g" "\<not> gw_closed g"
  proof -
    have "gm_get (hb_posts (gw_hub g)) p \<noteq> None" using viewed [of p] that by simp
    then obtain e where e: "gm_get (hb_posts (gw_hub g)) p = Some e" by auto
    show ?thesis
    proof (rule ex1I [of _ "bridge_of p e"])
      show "bridge_of p e \<in> set (hb_bridges (gw_hub g)) \<and> br_key (bridge_of p e) = p \<and>
          br_ctx (bridge_of p e) \<notin> set (hb_cancelled (gw_hub g))"
        using bridges_wfD(6,7) [OF wf e] by simp
    qed (use bridges_wfD(5) [OF wf] e in fastforce)
  qed
  show "bridge_step P br BridgeDone (gw_hub g) = Inr (bridge_returns br (gw_hub g))"
    if "br \<in> set (hb_bridges (gw_hub g))" "br_key br \<notin> cn_post ` gw_conns g \<or> gw_closed g"
  proof -
    have "br_ctx br \<in> set (hb_cancelled (gw_hub g))"
      using bridges_wfD(5) [OF wf that(1)] viewed [of "br_key br"] that(2) by auto
    then show ?thesis by (simp add: bridge_step_def)
  qed
qed

lemma gateway_unknown_release:
  assumes inv: "gw_inv g" and open': "\<not> gw_closed g"
    and one: "{k \<in> gw_conns g. cn_post k = p} = {k}" and other: "c \<noteq> cn_id k"
  shows "\<exists>h'. hub_release P p u c (gw_hub g) = Inr h' \<and> gm_get (hb_posts h') p = None \<and>
    (\<forall>ch. (post_channel p, ch) \<notin> live (hb_bus h')) \<and>
    store_at (hb_store h') p (cn_id k) = Some \<lparr>su_user = cn_user k, su_ch = cn_ch k\<rparr>"
proof -
  note D = gw_invD [OF inv]
  note H = hub_invD [OF D(1)]
  have k: "k \<in> gw_conns g" "cn_post k = p" using one by auto
  obtain e where e: "gm_get (hb_posts (gw_hub g)) p = Some e" "en_refs e = 1"
    using gateway_refs [OF inv open', of p] one gateway_viewed [OF inv, of p] k open'
    by (force simp: refs_of_def)
  obtain err bus where call:
      "ps_unsubscribe P (post_channel p) (en_redis e) (hb_bus (gw_hub g)) = Inr (err, bus)"
      "live bus = live (hb_bus (gw_hub g)) - {(post_channel p, en_redis e)}"
    by (rule unsubscribeE [OF bus_okD(1) [OF H(1)]])
  have "store_at (snd (store_unsubscribe p u c (hb_store (gw_hub g)))) p (cn_id k) =
      Some \<lparr>su_user = cn_user k, su_ch = cn_ch k\<rparr>"
    using conns_matchD(1) [OF D(4) [OF open'] k(1)] k(2) other by (simp add: store_at_unsubscribe)
  moreover have "(post_channel p, ch) \<notin> live bus" for ch
    using call(2) bus_okD(3) [OF H(1)] e(1) by (auto simp: subscribed_to_def)
  ultimately show ?thesis
    using e call(1) by (simp add: hub_release_def cancel_ctx_def Let_def)
qed

end

subsection \<open>Properties: the feed over the Redis bus\<close>

abbreviation feed_step :: "'r redis_client \<Rightarrow> 'r redis_bus gateway \<Rightarrow> (panic + 'r redis_bus gateway) \<Rightarrow> bool" where
  "feed_step cl \<equiv> gateway_step (redis_pubsub cl) reader_message"

abbreviation feed_reach :: "'r redis_client \<Rightarrow> 'r \<Rightarrow> 'r redis_bus gateway \<Rightarrow> bool" where
  "feed_reach cl r \<equiv> gateway_reach (redis_pubsub cl) reader_message (new_gateway (new_redis r))"

lemma feed_reach_inv: "feed_reach cl r g \<Longrightarrow> redis.gw_inv g"
  by (rule redis.gateway_reach_inv [OF _ rb_inv_new]) (simp_all add: redis_live_def new_redis_def subs_of_def)

lemma feed_subs_of:
  assumes "redis.gw_inv g"
  shows "set (subs_of (hb_bus (gw_hub g)) c) =
    {en_redis e | p e. c = post_channel p \<and> gm_get (hb_posts (gw_hub g)) p = Some e}"
  using redis.gateway_live [OF assms, of c] by auto

text \<open>A run for the witnesses: one viewer of post 1, a message for it, its way to the viewer.\<close>

definition demo_conn :: conn where
  "demo_conn = \<lparr>cn_post = ''1'', cn_user = ''u'', cn_id = ''c'', cn_ch = 0\<rparr>"

definition demo_hub :: "string list redis_bus hub" where
  "demo_hub =
     \<lparr>hb_bus = demo_bus, hb_store = [(''1'', [(''c'', \<lparr>su_user = ''u'', su_ch = 0\<rparr>)])],
      hb_posts = [(''1'', \<lparr>en_refs = 1, en_redis = 0, en_ctx = 0\<rparr>)],
      hb_events = \<lparr>cells = [0 \<mapsto> \<lparr>ch_buf = [], ch_cap = 64, ch_closed = False\<rparr>], next_id = 1\<rparr>,
      hb_bridges = [\<lparr>br_ctx = 0, br_key = ''1'', br_ch = 0\<rparr>], hb_cancelled = [], hb_next = 1\<rparr>"

definition demo_gateway :: "string list redis_bus gateway" where
  "demo_gateway =
     \<lparr>gw_hub = demo_hub, gw_conns = {demo_conn}, gw_uuids = {''c''}, gw_arrived = {}, gw_closed = False\<rparr>"

lemma demo_joins:
  "viewer_joins (redis_pubsub loopback_client) ''1'' ''u'' ''c'' (new_gateway (new_redis [])) = Inr demo_gateway"
  by (simp add: viewer_joins_def new_gateway_def new_hub_def hub_acquire_def redis_pubsub_def
      redis_subscribe_def new_redis_def loopback_client_def subs_of_def ensure_reader_def
      add_consumer_def make_chan_def empty_heap_def sub_buffer_def post_channel_def
      acquire_finish_def store_subscribe_def new_store_def Let_def
      demo_gateway_def demo_hub_def demo_bus_def demo_conn_def)

lemma demo_reach: "feed_reach loopback_client [] demo_gateway"
proof (rule gateway_reach.step [OF gateway_reach.start])
  show "feed_step loopback_client (new_gateway (new_redis [])) (Inr demo_gateway)"
    unfolding demo_joins [symmetric] by (rule gateway_step.joins) (simp_all add: new_gateway_def)
qed

definition demo_message :: message where
  "demo_message = \<lparr>m_channel = ''post:1'', m_payload = ''hi''\<rparr>"

definition demo_arrived :: "string list redis_bus gateway" where
  "demo_arrived = demo_gateway
     \<lparr>gw_hub := demo_hub\<lparr>hb_bus := demo_bus\<lparr>rb_msgs :=
        \<lparr>cells = [0 \<mapsto> \<lparr>ch_buf = [demo_message], ch_cap = 64, ch_closed = False\<rparr>], next_id = 1\<rparr>\<rparr>\<rparr>,
      gw_arrived := {demo_message}\<rparr>"

lemma demo_arrived_reach: "feed_reach loopback_client [] demo_arrived"
proof (rule gateway_reach.step [OF demo_reach])
  have "Inr demo_arrived =
      sum_map (\<lambda>bus. demo_gateway\<lparr>gw_hub := (gw_hub demo_gateway)\<lparr>hb_bus := bus\<rparr>,
          gw_arrived := insert demo_message (gw_arrived demo_gateway)\<rparr>)
        (reader_message demo_message (hb_bus (gw_hub demo_gateway)))"
    by (simp add: demo_arrived_def demo_gateway_def demo_hub_def demo_bus_def demo_message_def
        reader_message_def redis_fan_out_def subs_of_def send_nb_def offer_def)
  then show "feed_step loopback_client demo_gateway (Inr demo_arrived)"
    using gateway_step.arrives by metis
qed

definition demo_delivered :: "string list redis_bus gateway" where
  "demo_delivered = demo_arrived
     \<lparr>gw_hub := demo_hub\<lparr>hb_events :=
        \<lparr>cells = [0 \<mapsto> \<lparr>ch_buf = [''hi''], ch_cap = 64, ch_closed = False\<rparr>], next_id = 1\<rparr>\<rparr>\<rparr>"

lemma demo_delivered_reach: "feed_reach loopback_client [] demo_delivered"
proof (rule gateway_reach.step [OF demo_arrived_reach])
  let ?br = "\<lparr>br_ctx = 0, br_key = ''1'', br_ch = 0\<rparr>"
  have "Inr demo_delivered = sum_map (\<lambda>h. demo_arrived\<lparr>gw_hub := h\<rparr>)
      (bridge_step (redis_pubsub loopback_client) ?br BridgeMessage (gw_hub demo_arrived))"
    by (simp add: demo_delivered_def demo_arrived_def demo_gateway_def demo_hub_def demo_bus_def
        demo_message_def bridge_step_def redis_pubsub_def redis_recv_def recv_chan_def
        store_publish_def send_nb_def offer_def)
  moreover have "?br \<in> set (hb_bridges (gw_hub demo_arrived))"
    by (simp add: demo_arrived_def demo_hub_def)
  ultimately show "feed_step loopback_client demo_arrived (Inr demo_delivered)"
    using gateway_step.bridges by metis
qed

text \<open>
  C1. In every interleaving of joins, leaves, reads, bridge turns, arriving messages and the
  shutdown, no step of the feed panics, whatever the Redis client answers: no send on a closed
  event channel, no channel closed twice, no connection lost from the tables.
\<close>

theorem feed_never_panics:
  assumes "feed_reach cl r g" and "feed_step cl g res"
  shows "\<exists>g'. res = Inr g'"
  using redis.gateway_step_ok [OF assms(2) feed_reach_inv [OF assms(1)]] by blast

theorem feed_never_panics_witness:
  "\<exists>g'. viewer_leaves (redis_pubsub loopback_client) demo_conn demo_delivered = Inr g'"
proof -
  have "demo_conn \<in> gw_conns demo_delivered"
    by (simp add: demo_delivered_def demo_arrived_def demo_gateway_def)
  from feed_never_panics [OF demo_delivered_reach gateway_step.leaves [OF this]] show ?thesis .
qed

text \<open>
  C2. Reference counting. While the hub is open, the count of a post is the number of its open
  connections, and the hub has an entry for exactly the posts that somebody is viewing.
\<close>

theorem feed_refcount:
  assumes "feed_reach cl r g" and "\<not> gw_closed g"
  shows "refs_of (hb_posts (gw_hub g)) p = int (card {k \<in> gw_conns g. cn_post k = p}) \<and>
    (gm_get (hb_posts (gw_hub g)) p \<noteq> None \<longleftrightarrow> (\<exists>k\<in>gw_conns g. cn_post k = p))"
  using redis.gateway_refs [OF feed_reach_inv [OF assms(1)] assms(2), of p]
    redis.gateway_viewed [OF feed_reach_inv [OF assms(1)], of p] assms(2)
  by (auto simp: image_iff)

theorem feed_refcount_witness: "refs_of (hb_posts demo_hub) ''1'' = 1"
proof -
  have "\<not> gw_closed demo_gateway" by (simp add: demo_gateway_def)
  from feed_refcount [OF demo_reach this, of "''1''"] have
    "refs_of (hb_posts (gw_hub demo_gateway)) ''1'' = int (card {k \<in> gw_conns demo_gateway. cn_post k = ''1''})"
    by blast
  moreover have "{k \<in> gw_conns demo_gateway. cn_post k = ''1''} = {demo_conn}"
    by (auto simp: demo_gateway_def demo_conn_def)
  ultimately show ?thesis by (simp add: demo_gateway_def)
qed

text \<open>
  C3. One Redis subscription per viewed post. While the hub is open, the bus has a consumer on
  a channel exactly when the channel is that of a post somebody is viewing, and then exactly
  one; after \<^verbatim>\<open>Close\<close> it has none.
\<close>

theorem feed_one_subscription:
  assumes "feed_reach cl r g"
  shows "length (subs_of (hb_bus (gw_hub g)) c) =
    (if \<not> gw_closed g \<and> (\<exists>k\<in>gw_conns g. c = post_channel (cn_post k)) then 1 else 0)"
proof -
  note inv = feed_reach_inv [OF assms]
  let ?subs = "subs_of (hb_bus (gw_hub g)) c" and ?posts = "hb_posts (gw_hub g)"
  have "rb_inv (hb_bus (gw_hub g))" by (rule redis.gateway_bus_inv [OF inv])
  then have dist: "distinct ?subs" using subs_okD(1) [OF rb_invD(2)] by blast
  show ?thesis
  proof (cases "\<exists>p e. c = post_channel p \<and> gm_get ?posts p = Some e")
    case True
    then obtain p e where p: "c = post_channel p" "gm_get ?posts p = Some e" by blast
    then have "set ?subs = {en_redis e}" unfolding feed_subs_of [OF inv] by auto
    with dist have "length ?subs = 1" using distinct_card by fastforce
    moreover have "\<not> gw_closed g \<and> p \<in> cn_post ` gw_conns g"
      using redis.gateway_viewed [OF inv, of p] p(2) by simp
    ultimately show ?thesis using p(1) by auto
  next
    case False
    then have "set ?subs = {}" unfolding feed_subs_of [OF inv] by auto
    moreover have "\<not> (\<not> gw_closed g \<and> (\<exists>k\<in>gw_conns g. c = post_channel (cn_post k)))"
      using False redis.gateway_viewed [OF inv] by (metis image_eqI not_None_eq)
    ultimately show ?thesis by auto
  qed
qed

theorem feed_one_subscription_witness: "length (subs_of demo_bus ''post:1'') = 1"
proof -
  have "''post:1'' = post_channel (cn_post demo_conn)" "gw_conns demo_gateway = {demo_conn}"
    "hb_bus (gw_hub demo_gateway) = demo_bus" "\<not> gw_closed demo_gateway"
    by (simp_all add: demo_gateway_def demo_hub_def demo_conn_def post_channel_def)
  with feed_one_subscription [OF demo_reach, of "''post:1''"] show ?thesis by auto
qed

text \<open>
  C4. Isolation. Whatever a connection receives, at any moment of any run, is the payload of a
  message that arrived from Redis on the channel of the post the connection views.
\<close>

theorem feed_isolation:
  assumes "feed_reach cl r g" and "k \<in> gw_conns g" and "viewer_reads k g = (Received e, g')"
  shows "\<exists>m\<in>gw_arrived g. m_channel m = post_channel (cn_post k) \<and> m_payload m = e"
  by (rule redis.gateway_isolated [OF feed_reach_inv [OF assms(1)] assms(2,3)])

theorem feed_isolation_witness:
  "\<exists>m\<in>{demo_message}. m_channel m = ''post:1'' \<and> m_payload m = ''hi''"
proof -
  have "demo_conn \<in> gw_conns demo_delivered"
    by (simp add: demo_delivered_def demo_arrived_def demo_gateway_def)
  moreover have "\<exists>g'. viewer_reads demo_conn demo_delivered = (Received ''hi'', g')"
    by (simp add: viewer_reads_def demo_delivered_def demo_conn_def recv_chan_def)
  moreover have "gw_arrived demo_delivered = {demo_message}" "post_channel (cn_post demo_conn) = ''post:1''"
    by (simp_all add: demo_delivered_def demo_arrived_def demo_conn_def post_channel_def)
  ultimately show ?thesis using feed_isolation [OF demo_delivered_reach] by metis
qed

text \<open>
  C5. Delivery. When a bridge takes a message from its Redis channel, the payload is appended to
  the channel of every connection that views the bridge's post and has room (64 places), and to
  no other connection's channel; the message was one for that post.
\<close>

theorem feed_bridge_delivers:
  assumes "feed_reach cl r g" and "\<not> gw_closed g" and "br \<in> set (hb_bridges (gw_hub g))"
    and "redis_recv (br_ch br) (hb_bus (gw_hub g)) = (Received m, bus)"
  shows "\<exists>h'. bridge_step (redis_pubsub cl) br BridgeMessage (gw_hub g) = Inr h' \<and>
    hb_store h' = hb_store (gw_hub g) \<and> m_channel m = post_channel (br_key br) \<and>
    (\<forall>k\<in>gw_conns g. buffered (hb_events h') (cn_ch k) =
       (if cn_post k = br_key br \<and> length (buffered (hb_events (gw_hub g)) (cn_ch k)) < 64
        then buffered (hb_events (gw_hub g)) (cn_ch k) @ [m_payload m]
        else buffered (hb_events (gw_hub g)) (cn_ch k)))"
  using redis.gateway_bridge_delivers [OF feed_reach_inv [OF assms(1)] assms(2,3)] assms(4)
  by (simp add: redis_pubsub_def)

theorem feed_bridge_delivers_witness:
  "\<exists>h'. bridge_step (redis_pubsub loopback_client) \<lparr>br_ctx = 0, br_key = ''1'', br_ch = 0\<rparr> BridgeMessage
      (gw_hub demo_arrived) = Inr h' \<and> buffered (hb_events h') 0 = [''hi'']"
proof -
  let ?br = "\<lparr>br_ctx = 0, br_key = ''1'', br_ch = 0\<rparr>"
  have "\<not> gw_closed demo_arrived" "?br \<in> set (hb_bridges (gw_hub demo_arrived))"
    "\<exists>bus. redis_recv (br_ch ?br) (hb_bus (gw_hub demo_arrived)) = (Received demo_message, bus)"
    "demo_conn \<in> gw_conns demo_arrived" "buffered (hb_events (gw_hub demo_arrived)) (cn_ch demo_conn) = []"
    "cn_post demo_conn = br_key ?br" "cn_ch demo_conn = 0" "m_payload demo_message = ''hi''"
    by (simp_all add: demo_arrived_def demo_gateway_def demo_hub_def demo_bus_def redis_recv_def
        recv_chan_def buffered_def demo_conn_def demo_message_def)
  with feed_bridge_delivers [OF demo_arrived_reach, of ?br demo_message] show ?thesis
    by (metis append_Nil length_0_conv zero_less_numeral)
qed

text \<open>
  C6. Bridges. While the hub is open, every viewed post has exactly one bridge whose context is
  not cancelled; and the bridge of a post that nobody views any more, or any bridge after
  \<^verbatim>\<open>Close\<close>, returns as soon as it takes the \<open>ctx.Done()\<close> case: no bridge goroutine is leaked.
\<close>

theorem feed_bridges:
  assumes "feed_reach cl r g"
  shows "(\<not> gw_closed g \<and> (\<exists>k\<in>gw_conns g. cn_post k = p) \<longrightarrow>
      (\<exists>!br. br \<in> set (hb_bridges (gw_hub g)) \<and> br_key br = p \<and> br_ctx br \<notin> set (hb_cancelled (gw_hub g)))) \<and>
    (\<forall>br\<in>set (hb_bridges (gw_hub g)). (\<forall>k\<in>gw_conns g. cn_post k \<noteq> br_key br) \<or> gw_closed g \<longrightarrow>
      bridge_step (redis_pubsub cl) br BridgeDone (gw_hub g) = Inr (bridge_returns br (gw_hub g)))"
proof (intro conjI impI ballI)
  note B = redis.gateway_bridges [OF feed_reach_inv [OF assms]]
  show "\<exists>!br. br \<in> set (hb_bridges (gw_hub g)) \<and> br_key br = p \<and> br_ctx br \<notin> set (hb_cancelled (gw_hub g))"
    if "\<not> gw_closed g \<and> (\<exists>k\<in>gw_conns g. cn_post k = p)"
    by (rule B(1)) (use that in auto)
  show "bridge_step (redis_pubsub cl) br BridgeDone (gw_hub g) = Inr (bridge_returns br (gw_hub g))"
    if "br \<in> set (hb_bridges (gw_hub g))" "(\<forall>k\<in>gw_conns g. cn_post k \<noteq> br_key br) \<or> gw_closed g" for br
    by (rule B(2) [OF that(1)]) (use that(2) in fastforce)
qed

theorem feed_bridges_witness:
  "\<exists>!br. br \<in> set (hb_bridges demo_hub) \<and> br_key br = ''1'' \<and> br_ctx br \<notin> set (hb_cancelled demo_hub)"
proof -
  have "\<not> gw_closed demo_gateway \<and> (\<exists>k\<in>gw_conns demo_gateway. cn_post k = ''1'')" "gw_hub demo_gateway = demo_hub"
    by (simp_all add: demo_gateway_def demo_conn_def)
  with feed_bridges [OF demo_reach, of "''1''"] show ?thesis by metis
qed

text \<open>
  Shutdown. After \<^verbatim>\<open>Close\<close> the hub has no entry and no subscription, and no connection waits:
  a read gets the payloads still buffered and then the end of the channel.
\<close>

theorem feed_shutdown:
  assumes "feed_reach cl r g" and "gw_closed g"
  shows "hb_posts (gw_hub g) = [] \<and> hb_store (gw_hub g) = [] \<and>
    (\<forall>k\<in>gw_conns g. fst (viewer_reads k g) =
       (case buffered (hb_events (gw_hub g)) (cn_ch k) of [] \<Rightarrow> Drained | e # _ \<Rightarrow> Received e))"
proof -
  note D = redis.gw_invD [OF feed_reach_inv [OF assms(1)]]
  have "fst (viewer_reads k g) =
      (case buffered (hb_events (gw_hub g)) (cn_ch k) of [] \<Rightarrow> Drained | e # _ \<Rightarrow> Received e)"
    if "k \<in> gw_conns g" for k
    using D(7) [OF assms(2) that]
    by (auto simp: viewer_reads_def recv_chan_def buffered_def split: prod.splits option.splits list.splits)
  with D(5,6) assms(2) show ?thesis by simp
qed

definition demo_closed :: "string list redis_bus gateway" where
  "demo_closed = (case hub_close (redis_pubsub loopback_client) (gw_hub demo_delivered) of
     Inr h \<Rightarrow> demo_delivered\<lparr>gw_hub := h, gw_closed := True\<rparr> | Inl _ \<Rightarrow> demo_delivered)"

lemma demo_closed:
  "feed_reach loopback_client [] demo_closed" "gw_closed demo_closed" "demo_conn \<in> gw_conns demo_closed"
  "buffered (hb_events (gw_hub demo_closed)) (cn_ch demo_conn) = [''hi'']"
proof -
  have open': "\<not> gw_closed demo_delivered"
    by (simp add: demo_delivered_def demo_arrived_def demo_gateway_def)
  obtain h where "hub_close (redis_pubsub loopback_client) (gw_hub demo_delivered) = Inr h"
    using redis.closes_ok [OF feed_reach_inv [OF demo_delivered_reach] open'] by (auto simp: sum_map_eq_Inr)
  then have "feed_step loopback_client demo_delivered (Inr demo_closed)"
    using gateway_step.closes [OF open', of "redis_pubsub loopback_client" reader_message]
    by (simp add: demo_closed_def)
  then show "feed_reach loopback_client [] demo_closed" by (rule gateway_reach.step [OF demo_delivered_reach])
  show "gw_closed demo_closed" "demo_conn \<in> gw_conns demo_closed"
    "buffered (hb_events (gw_hub demo_closed)) (cn_ch demo_conn) = [''hi'']"
    by (simp_all add: demo_closed_def demo_delivered_def demo_arrived_def demo_gateway_def demo_hub_def
        demo_bus_def demo_conn_def hub_close_def cancel_ctx_def redis_pubsub_def redis_unsubscribe_def
        subs_of_def post_channel_def close_chan_def loopback_client_def store_close_def buffered_def Let_def)
qed

theorem feed_shutdown_witness: "fst (viewer_reads demo_conn demo_closed) = Received ''hi''"
  using feed_shutdown [OF demo_closed(1,2)] demo_closed(3,4) by fastforce

text \<open>
  A \<^verbatim>\<open>Release\<close> with an id the store does not know is no no-op, although its comment calls it
  safe: with one viewer left it removes the entry and the Redis subscription, while the viewer
  stays registered in the store and gets no more events.
\<close>

theorem feed_unknown_release_cuts_viewer:
  assumes "feed_reach cl r g" and "\<not> gw_closed g"
    and "{k \<in> gw_conns g. cn_post k = p} = {k}" and "c \<noteq> cn_id k"
  shows "\<exists>h'. hub_release (redis_pubsub cl) p u c (gw_hub g) = Inr h' \<and> gm_get (hb_posts h') p = None \<and>
    subs_of (hb_bus h') (post_channel p) = [] \<and>
    store_at (hb_store h') p (cn_id k) = Some \<lparr>su_user = cn_user k, su_ch = cn_ch k\<rparr>"
  using redis.gateway_unknown_release [OF feed_reach_inv [OF assms(1)] assms(2-4), where u = u and cl = cl] by auto

theorem feed_unknown_release_cuts_viewer_witness:
  "\<exists>h'. hub_release (redis_pubsub loopback_client) ''1'' ''u'' ''gone'' demo_hub = Inr h' \<and>
     subs_of (hb_bus h') ''post:1'' = [] \<and> store_at (hb_store h') ''1'' ''c'' \<noteq> None"
proof -
  have "\<not> gw_closed demo_gateway" "''gone'' \<noteq> cn_id demo_conn" "gw_hub demo_gateway = demo_hub"
    "cn_id demo_conn = ''c''" "post_channel ''1'' = ''post:1''"
    by (simp_all add: demo_gateway_def demo_conn_def post_channel_def)
  moreover have "{k \<in> gw_conns demo_gateway. cn_post k = ''1''} = {demo_conn}"
    by (auto simp: demo_gateway_def demo_conn_def)
  ultimately show ?thesis
    using feed_unknown_release_cuts_viewer [OF demo_reach, of "''1''" demo_conn "''gone''" "''u''"]
    by auto
qed

end
