(* ===== verification/ChatStore.thy ===== *)
theory ChatStore
  imports Registry
begin

text \<open>
  \<^verbatim>\<open>internal/chat/wsstore.go\<close>: the WebSocket clients of one gateway and the rooms they are in.
  \<^verbatim>\<open>rooms\<close> and \<^verbatim>\<open>userRooms\<close> are the two directions of one relation, each a map of sets
  (\<^verbatim>\<open>map[string]struct{}\<close>, here a map to \<open>unit\<close>). The store makes the clients' channels itself
  and is the only one to send on them or close them, so it carries their heap.

  Every method holds the store's lock for its whole body.
\<close>

type_synonym chat_event = bytes

record client =
  cl_user :: string
  cl_send :: chan_id

type_synonym string_sets = "(string, (string, unit) gomap) gomap"

record ws_store =
  ws_clients :: "(string, client) gomap"
  ws_rooms :: string_sets
  ws_users :: string_sets
  ws_events :: "chat_event heap"

definition new_ws_store :: ws_store where
  "new_ws_store = \<lparr>ws_clients = [], ws_rooms = [], ws_users = [], ws_events = empty_heap\<rparr>"

text \<open>Adding to a set of the table, made when missing; removing, with an empty set deleted.\<close>

definition sets_add :: "string \<Rightarrow> string \<Rightarrow> string_sets \<Rightarrow> string_sets" where
  "sets_add k m t =
     (let members = (case gm_get t k of None \<Rightarrow> [] | Some members \<Rightarrow> members)
      in gm_put k (gm_put m () members) t)"

definition sets_remove :: "string \<Rightarrow> string \<Rightarrow> string_sets \<Rightarrow> string_sets" where
  "sets_remove k m t =
     (case gm_get t k of
        None \<Rightarrow> t
      | Some members \<Rightarrow>
          (let members = gm_del m members
           in if length members = 0 then gm_del k t else gm_put k members t))"

definition ws_register :: "string \<Rightarrow> ws_store \<Rightarrow> panic + (chan_id \<times> ws_store)" where
  "ws_register userID s =
     (let (ch, ev) = make_chan 64 (ws_events s)
      in sum_map (\<lambda>ev. (ch, s\<lparr>ws_events := ev,
             ws_clients := gm_put userID \<lparr>cl_user = userID, cl_send = ch\<rparr> (ws_clients s)\<rparr>))
           (case gm_get (ws_clients s) userID of
              Some old \<Rightarrow> close_chan (cl_send old) ev
            | None \<Rightarrow> Inr ev))"

definition ws_unregister :: "string \<Rightarrow> ws_store \<Rightarrow> panic + ws_store" where
  "ws_unregister userID s =
     (case gm_get (ws_clients s) userID of
        None \<Rightarrow> Inr s
      | Some c \<Rightarrow>
          sum_map (\<lambda>ev. s\<lparr>ws_clients := gm_del userID (ws_clients s), ws_events := ev\<rparr>)
            (close_chan (cl_send c) (ws_events s)))"

definition ws_join_room :: "string \<Rightarrow> string \<Rightarrow> ws_store \<Rightarrow> bool \<times> ws_store" where
  "ws_join_room roomID userID s =
     (if gm_get (ws_clients s) userID = None then (False, s)
      else if (case gm_get (ws_users s) userID of None \<Rightarrow> False | Some ur \<Rightarrow> gm_get ur roomID \<noteq> None)
      then (False, s)
      else (True, s\<lparr>ws_rooms := sets_add roomID userID (ws_rooms s),
                    ws_users := sets_add userID roomID (ws_users s)\<rparr>))"

definition ws_leave_room :: "string \<Rightarrow> string \<Rightarrow> ws_store \<Rightarrow> (bool \<times> bool) \<times> ws_store" where
  "ws_leave_room roomID userID s =
     (case gm_get (ws_rooms s) roomID of
        None \<Rightarrow> ((False, False), s)
      | Some members \<Rightarrow>
          if gm_get members userID = None then ((False, False), s)
          else ((True, length (gm_del userID members) = 0),
                s\<lparr>ws_rooms := sets_remove roomID userID (ws_rooms s),
                  ws_users := sets_remove userID roomID (ws_users s)\<rparr>))"

definition ws_rooms_for_user :: "string \<Rightarrow> ws_store \<Rightarrow> string list" where
  "ws_rooms_for_user userID s =
     (case gm_get (ws_users s) userID of None \<Rightarrow> [] | Some ur \<Rightarrow> map fst ur)"

fun deliver_all ::
    "(string, client) gomap \<Rightarrow> string list \<Rightarrow> chat_event \<Rightarrow> chat_event heap \<Rightarrow> panic + chat_event heap" where
  "deliver_all clients [] payload ev = Inr ev"
| "deliver_all clients (userID # us) payload ev =
     (case gm_get clients userID of
        None \<Rightarrow> deliver_all clients us payload ev
      | Some c \<Rightarrow> sum_bind (send_nb (cl_send c) payload ev) (deliver_all clients us payload))"

definition ws_deliver_to_room :: "string \<Rightarrow> chat_event \<Rightarrow> ws_store \<Rightarrow> panic + ws_store" where
  "ws_deliver_to_room roomID payload s =
     sum_map (\<lambda>ev. s\<lparr>ws_events := ev\<rparr>)
       (deliver_all (ws_clients s)
          (case gm_get (ws_rooms s) roomID of None \<Rightarrow> [] | Some members \<Rightarrow> map fst members)
          payload (ws_events s))"

definition ws_members :: "string \<Rightarrow> ws_store \<Rightarrow> nat" where
  "ws_members roomID s =
     (case gm_get (ws_rooms s) roomID of None \<Rightarrow> 0 | Some members \<Rightarrow> length members)"

definition ws_close :: "ws_store \<Rightarrow> panic + ws_store" where
  "ws_close s =
     sum_map (\<lambda>ev. s\<lparr>ws_clients := [], ws_events := ev, ws_rooms := [], ws_users := []\<rparr>)
       (close_all (map (\<lambda>(_, c). cl_send c) (ws_clients s)) (ws_events s))"

subsection \<open>A table of sets as a relation\<close>

definition in_sets :: "string_sets \<Rightarrow> string \<Rightarrow> string \<Rightarrow> bool" where
  "in_sets t k m \<longleftrightarrow> (case gm_get t k of None \<Rightarrow> False | Some members \<Rightarrow> gm_get members m \<noteq> None)"

definition sets_wf :: "string_sets \<Rightarrow> bool" where
  "sets_wf t \<longleftrightarrow> gm_wf t \<and> (\<forall>k members. gm_get t k = Some members \<longrightarrow> gm_wf members \<and> members \<noteq> [])"

lemma in_sets_Nil [simp]: "\<not> in_sets [] k m"
  by (simp add: in_sets_def)

lemma sets_wf_Nil [simp]: "sets_wf []"
  by (simp add: sets_wf_def)

lemma sets_wfD:
  "sets_wf t \<Longrightarrow> gm_wf t"
  "sets_wf t \<Longrightarrow> gm_get t k = Some members \<Longrightarrow> gm_wf members"
  "sets_wf t \<Longrightarrow> gm_get t k = Some members \<Longrightarrow> members \<noteq> []"
  by (auto simp: sets_wf_def)

lemma in_sets_add [simp]: "in_sets (sets_add k m t) j n \<longleftrightarrow> (j = k \<and> n = m) \<or> in_sets t j n"
  by (auto simp: in_sets_def sets_add_def split: option.splits)

lemma sets_wf_add: "sets_wf t \<Longrightarrow> sets_wf (sets_add k m t)"
  by (auto simp: sets_wf_def sets_add_def gm_wf_Cons split: option.splits if_splits)

lemma in_sets_remove [simp]:
  "in_sets (sets_remove k m t) j n \<longleftrightarrow> in_sets t j n \<and> \<not> (j = k \<and> n = m)"
proof (cases "gm_get t k")
  case (Some members)
  show ?thesis
  proof (cases "gm_del m members = []")
    case True
    then have "x = m" if "gm_get members x = Some y" for x y
      using that by (auto simp: gm_del_eq_Nil)
    with True Some show ?thesis
      by (auto simp: in_sets_def sets_remove_def split: option.splits)
  qed (use Some in \<open>auto simp: in_sets_def sets_remove_def split: option.splits if_splits\<close>)
qed (auto simp: in_sets_def sets_remove_def split: option.splits)

lemma sets_wf_remove: "sets_wf t \<Longrightarrow> sets_wf (sets_remove k m t)"
  by (auto simp: sets_wf_def sets_remove_def Let_def split: option.splits if_splits)

lemma in_sets_get: "gm_get t k = Some members \<Longrightarrow> {m. in_sets t k m} = fst ` set members"
  by (auto simp: in_sets_def map_of_eq_None_iff)

lemma in_sets_empty: "sets_wf t \<Longrightarrow> {m. in_sets t k m} = {} \<longleftrightarrow> gm_get t k = None"
  using in_sets_get sets_wfD(3) by (cases "gm_get t k") (auto simp: in_sets_def)

lemma sets_card:
  assumes "sets_wf t"
  shows "finite {m. in_sets t k m}"
    and "card {m. in_sets t k m} = (case gm_get t k of None \<Rightarrow> 0 | Some members \<Rightarrow> length members)"
proof -
  show "finite {m. in_sets t k m}"
    using in_sets_get by (cases "gm_get t k") (auto simp: in_sets_def)
  show "card {m. in_sets t k m} = (case gm_get t k of None \<Rightarrow> 0 | Some members \<Rightarrow> length members)"
  proof (cases "gm_get t k")
    case (Some members)
    then have "distinct (map fst members)" using sets_wfD(2) [OF assms] by (simp add: gm_wf_def)
    then have "card (fst ` set members) = length members" using distinct_card by fastforce
    with Some show ?thesis by (simp add: in_sets_get)
  qed (simp add: in_sets_def)
qed

subsection \<open>The invariant of the store\<close>

text \<open>
  The two tables are converse to each other and hold no empty set; every client has an open
  channel of its own. A member of a room need not be a client: \<^verbatim>\<open>Unregister\<close> leaves the rooms
  alone, and delivery skips such members.
\<close>

definition ws_registered :: "ws_store \<Rightarrow> string \<Rightarrow> bool" where
  "ws_registered s u \<longleftrightarrow> gm_get (ws_clients s) u \<noteq> None"

definition in_room :: "ws_store \<Rightarrow> string \<Rightarrow> string \<Rightarrow> bool" where
  "in_room s r u \<longleftrightarrow> in_sets (ws_rooms s) r u"

abbreviation room_members :: "ws_store \<Rightarrow> string \<Rightarrow> string set" where
  "room_members s r \<equiv> {u. in_room s r u}"

definition ws_wf :: "ws_store \<Rightarrow> bool" where
  "ws_wf s \<longleftrightarrow> sets_wf (ws_rooms s) \<and> sets_wf (ws_users s) \<and>
     (\<forall>r u. in_sets (ws_rooms s) r u \<longleftrightarrow> in_sets (ws_users s) u r)"

definition ws_chans_ok :: "ws_store \<Rightarrow> bool" where
  "ws_chans_ok s \<longleftrightarrow> heap_wf (ws_events s) \<and> gm_wf (ws_clients s) \<and>
     (\<forall>u c. gm_get (ws_clients s) u = Some c \<longrightarrow> is_open (ws_events s) (cl_send c) \<and>
        map_option ch_cap (cells (ws_events s) (cl_send c)) = Some 64) \<and>
     (\<forall>u v c d. gm_get (ws_clients s) u = Some c \<longrightarrow> gm_get (ws_clients s) v = Some d \<longrightarrow>
        cl_send c = cl_send d \<longrightarrow> u = v)"

lemma ws_wfD:
  assumes "ws_wf s"
  shows "sets_wf (ws_rooms s)" "sets_wf (ws_users s)"
    "in_sets (ws_users s) u r \<longleftrightarrow> in_room s r u"
  using assms by (auto simp: ws_wf_def in_room_def)

lemma ws_chans_okD:
  assumes "ws_chans_ok s"
  shows "heap_wf (ws_events s)" "gm_wf (ws_clients s)"
    "gm_get (ws_clients s) u = Some c \<Longrightarrow> is_open (ws_events s) (cl_send c)"
    "gm_get (ws_clients s) u = Some c \<Longrightarrow> map_option ch_cap (cells (ws_events s) (cl_send c)) = Some 64"
    "gm_get (ws_clients s) u = Some c \<Longrightarrow> gm_get (ws_clients s) v = Some d \<Longrightarrow>
      cl_send c = cl_send d \<Longrightarrow> u = v"
  using assms unfolding ws_chans_ok_def by blast+

lemma ws_new [simp]: "ws_wf new_ws_store" "ws_chans_ok new_ws_store" "\<not> in_room new_ws_store r u"
  by (simp_all add: ws_wf_def ws_chans_ok_def new_ws_store_def in_room_def)

lemma ws_join_fields [simp]:
  "ws_clients (snd (ws_join_room r u s)) = ws_clients s"
  "ws_events (snd (ws_join_room r u s)) = ws_events s"
  by (simp_all add: ws_join_room_def)

lemma ws_leave_fields [simp]:
  "ws_clients (snd (ws_leave_room r u s)) = ws_clients s"
  "ws_events (snd (ws_leave_room r u s)) = ws_events s"
  by (simp_all add: ws_leave_room_def split: option.splits)

lemma ws_join_iff:
  assumes "ws_wf s"
  shows "fst (ws_join_room r u s) \<longleftrightarrow> ws_registered s u \<and> \<not> in_room s r u"
    and "in_room (snd (ws_join_room r u s)) r' u' \<longleftrightarrow>
      in_room s r' u' \<or> (r' = r \<and> u' = u \<and> ws_registered s u)"
    and "ws_wf (snd (ws_join_room r u s))"
proof -
  have already: "(case gm_get (ws_users s) u of None \<Rightarrow> False | Some ur \<Rightarrow> gm_get ur r \<noteq> None)
      \<longleftrightarrow> in_room s r u"
    using ws_wfD(3) [OF assms, of u r] by (simp add: in_sets_def)
  show "fst (ws_join_room r u s) \<longleftrightarrow> ws_registered s u \<and> \<not> in_room s r u"
    by (simp add: ws_join_room_def already ws_registered_def)
  show "in_room (snd (ws_join_room r u s)) r' u' \<longleftrightarrow>
      in_room s r' u' \<or> (r' = r \<and> u' = u \<and> ws_registered s u)"
    unfolding ws_join_room_def already by (auto simp: in_room_def ws_registered_def)
  show "ws_wf (snd (ws_join_room r u s))"
    using assms unfolding ws_join_room_def already by (auto simp: ws_wf_def sets_wf_add)
qed

lemma ws_leave_iff:
  assumes "ws_wf s"
  shows "fst (ws_leave_room r u s) = (in_room s r u, room_members s r = {u})"
    and "in_room (snd (ws_leave_room r u s)) r' u' \<longleftrightarrow> in_room s r' u' \<and> \<not> (r' = r \<and> u' = u)"
    and "ws_wf (snd (ws_leave_room r u s))"
proof -
  show "fst (ws_leave_room r u s) = (in_room s r u, room_members s r = {u})"
  proof (cases "in_room s r u")
    case True
    then obtain members where m: "gm_get (ws_rooms s) r = Some members" "gm_get members u \<noteq> None"
      by (auto simp: in_room_def in_sets_def split: option.splits)
    have mem: "room_members s r = {x. gm_get members x \<noteq> None}"
      using m(1) by (simp add: in_room_def in_sets_def)
    have one: "gm_del u members = [] \<longleftrightarrow> room_members s r = {u}"
      unfolding mem by (rule gm_only_key [OF m(2)])
    have "fst (ws_leave_room r u s) = (True, gm_del u members = [])"
      using m by (simp add: ws_leave_room_def)
    then show ?thesis unfolding one using True by simp
  next
    case False
    then have "fst (ws_leave_room r u s) = (False, False)"
      by (auto simp: ws_leave_room_def in_room_def in_sets_def split: option.splits)
    with False show ?thesis by auto
  qed
  have same: "snd (ws_leave_room r u s) = s \<and> \<not> in_room s r u \<or>
      snd (ws_leave_room r u s) = s\<lparr>ws_rooms := sets_remove r u (ws_rooms s),
                  ws_users := sets_remove u r (ws_users s)\<rparr>"
    by (auto simp: ws_leave_room_def in_room_def in_sets_def split: option.splits)
  then show "in_room (snd (ws_leave_room r u s)) r' u' \<longleftrightarrow> in_room s r' u' \<and> \<not> (r' = r \<and> u' = u)"
    by (auto simp: in_room_def)
  show "ws_wf (snd (ws_leave_room r u s))"
    using same assms by (auto simp: ws_wf_def sets_wf_remove)
qed

lemma ws_rooms_for_user_iff:
  assumes "ws_wf s"
  shows "set (ws_rooms_for_user u s) = {r. in_room s r u}" and "distinct (ws_rooms_for_user u s)"
proof -
  have "set (ws_rooms_for_user u s) = {r. in_sets (ws_users s) u r}"
    using in_sets_get by (cases "gm_get (ws_users s) u") (auto simp: ws_rooms_for_user_def in_sets_def)
  then show "set (ws_rooms_for_user u s) = {r. in_room s r u}" using ws_wfD(3) [OF assms] by simp
  show "distinct (ws_rooms_for_user u s)"
    using sets_wfD(2) [OF ws_wfD(2) [OF assms]] by (auto simp: ws_rooms_for_user_def gm_wf_def split: option.splits)
qed

interpretation rooms: registry ws_wf room_members ws_members ws_registered
  "\<lambda>r u (_ :: unit) s. snd (ws_join_room r u s)"
  "\<lambda>r u s. snd (ws_leave_room r u s)"
  "\<lambda>r u s. snd (fst (ws_leave_room r u s))"
proof unfold_locales
  fix s r r' and u :: string and x :: unit
  assume wf: "ws_wf s"
  show "finite (room_members s r)" "ws_members r s = card (room_members s r)"
    using sets_card [OF ws_wfD(1) [OF wf]] by (simp_all add: in_room_def ws_members_def)
  show "ws_wf (snd (ws_join_room r u s))" by (rule ws_join_iff(3) [OF wf])
  show "ws_wf (snd (ws_leave_room r u s))" by (rule ws_leave_iff(3) [OF wf])
  show "room_members (snd (ws_join_room r u s)) r' =
      (if r' = r \<and> ws_registered s u then insert u (room_members s r) else room_members s r')"
    by (auto simp: ws_join_iff(2) [OF wf])
  show "room_members (snd (ws_leave_room r u s)) r' =
      (if r' = r then room_members s r - {u} else room_members s r')"
    by (auto simp: ws_leave_iff(2) [OF wf])
  show "snd (fst (ws_leave_room r u s)) \<longleftrightarrow> room_members s r = {u}"
    by (simp add: ws_leave_iff(1) [OF wf])
qed

subsection \<open>The clients' channels\<close>

definition room_chans :: "ws_store \<Rightarrow> string \<Rightarrow> chan_id set" where
  "room_chans s r = {cl_send c | u c. in_room s r u \<and> gm_get (ws_clients s) u = Some c}"

definition user_chan :: "ws_store \<Rightarrow> string \<Rightarrow> chan_id set" where
  "user_chan s u = (case gm_get (ws_clients s) u of None \<Rightarrow> {} | Some c \<Rightarrow> {cl_send c})"

lemma user_chan_iff [simp]: "ch \<in> user_chan s u \<longleftrightarrow> (\<exists>c. gm_get (ws_clients s) u = Some c \<and> cl_send c = ch)"
  by (auto simp: user_chan_def split: option.splits)

lemma deliver_all_fan_out:
  "deliver_all clients us p ev = fan_out (List.map_filter (\<lambda>u. map_option cl_send (gm_get clients u)) us) p ev"
  by (induction us arbitrary: ev) (auto simp: map_filter_simps comp_def split: option.splits intro!: arg_cong2 [where f = sum_bind])

lemma ws_deliver_ok:
  assumes wf: "ws_wf s" and ok: "ws_chans_ok s"
  shows "ws_deliver_to_room r p s = Inr (s\<lparr>ws_events := offer_to (room_chans s r) p (ws_events s)\<rparr>)"
proof -
  let ?us = "case gm_get (ws_rooms s) r of None \<Rightarrow> [] | Some members \<Rightarrow> map fst members"
  let ?f = "\<lambda>u. map_option cl_send (gm_get (ws_clients s) u)"
  have us: "set ?us = room_members s r"
    using in_sets_get by (cases "gm_get (ws_rooms s) r") (auto simp: in_room_def in_sets_def)
  have "distinct ?us"
    using sets_wfD(2) [OF ws_wfD(1) [OF wf]] by (auto simp: gm_wf_def split: option.splits)
  then have "distinct (List.map_filter ?f us)" if "us = ?us" for us
    unfolding that [symmetric] using ws_chans_okD(5) [OF ok]
    by (induction us) (auto simp: map_filter_simps map_filter_def split: option.splits, metis)
  then have dist: "distinct (List.map_filter ?f ?us)" by blast
  have set: "set (List.map_filter ?f ?us) = room_chans s r"
  proof (rule set_eqI)
    fix ch
    have "ch \<in> set (List.map_filter ?f ?us) \<longleftrightarrow> (\<exists>u\<in>set ?us. \<exists>c. gm_get (ws_clients s) u = Some c \<and> cl_send c = ch)"
      by (force simp: map_filter_def)
    then show "ch \<in> set (List.map_filter ?f ?us) \<longleftrightarrow> ch \<in> room_chans s r"
      unfolding us room_chans_def by auto
  qed
  have "\<forall>c\<in>room_chans s r. is_open (ws_events s) c"
    using ws_chans_okD(3) [OF ok] by (auto simp: room_chans_def)
  with dist set have "fan_out (List.map_filter ?f ?us) p (ws_events s) =
      Inr (offer_to (room_chans s r) p (ws_events s))"
    using fan_out_open by metis
  then show ?thesis by (simp add: ws_deliver_to_room_def deliver_all_fan_out)
qed

lemma ws_chans_ok_offer:
  assumes "ws_chans_ok s"
  shows "ws_chans_ok (s\<lparr>ws_events := offer_to A p (ws_events s)\<rparr>)"
proof -
  have "map_option ch_cap (cells (offer_to A p ev) c) = map_option ch_cap (cells ev c)" for ev :: "chat_event heap" and c
    by (cases "cells ev c") simp_all
  with assms show ?thesis by (simp add: ws_chans_ok_def)
qed

lemma ws_chans_ok_recv:
  "ws_chans_ok s \<Longrightarrow> recv_chan c (ws_events s) = (got, ev) \<Longrightarrow> ws_chans_ok (s\<lparr>ws_events := ev\<rparr>)"
  unfolding ws_chans_ok_def
  by (simp del: map_option_eq_Some add: recv_is_open [of c "ws_events s" got ev]
      recv_cap [of c "ws_events s" got ev] heap_wf_recv [of "ws_events s" c got ev])

lemma ws_register_ok:
  assumes ok: "ws_chans_ok s"
  obtains ch s' where "ws_register u s = Inr (ch, s')" "ws_chans_ok s'"
    "ws_rooms s' = ws_rooms s" "ws_users s' = ws_users s"
    "ws_clients s' = gm_put u \<lparr>cl_user = u, cl_send = ch\<rparr> (ws_clients s)"
    "ws_events s' = mark_closed (user_chan s u) (snd (make_chan 64 (ws_events s)))"
    "cells (ws_events s) ch = None" "fst (make_chan 64 (ws_events s)) = ch"
proof -
  note D = ws_chans_okD [OF ok]
  obtain ch ev where mk: "make_chan 64 (ws_events s) = (ch, ev)" by fastforce
  have none: "cells (ws_events s) ch = None" by (rule make_chan_fresh [OF D(1) mk])
  note ev = cells_make_chan [OF mk]
  have wf: "heap_wf ev" using heap_wf_make [OF D(1), of 64] mk by simp
  have old: "cl_send c \<noteq> ch" if "gm_get (ws_clients s) v = Some c" for v c
    using is_open_allocated [OF D(3) [OF that]] none by auto
  then have same: "cells ev (cl_send c) = cells (ws_events s) (cl_send c)"
    if "gm_get (ws_clients s) v = Some c" for v c using that ev by simp
  let ?ev = "mark_closed (user_chan s u) ev"
  let ?s = "s\<lparr>ws_events := ?ev, ws_clients := gm_put u \<lparr>cl_user = u, cl_send = ch\<rparr> (ws_clients s)\<rparr>"
  have eq: "ws_register u s = Inr (ch, ?s)"
  proof (cases "gm_get (ws_clients s) u")
    case (Some c)
    then have "is_open ev (cl_send c)" using D(3) same by (simp add: is_open_def)
    with Some mk show ?thesis by (simp add: ws_register_def close_chan_open user_chan_def)
  qed (use mk in \<open>simp add: ws_register_def user_chan_def\<close>)
  have other: "cl_send c \<notin> user_chan s u" if "gm_get (ws_clients s) v = Some c" "v \<noteq> u" for v c
    using D(5) that by auto
  have new: "ch \<notin> user_chan s u" using old by auto
  have live: "is_open ?ev (cl_send c) \<and> map_option ch_cap (cells ?ev (cl_send c)) = Some 64"
    if "gm_get (ws_clients ?s) v = Some c" for v c
  proof (cases "v = u")
    case True
    with that new ev show ?thesis by (auto simp: is_open_def)
  next
    case False
    then have v: "gm_get (ws_clients s) v = Some c" using that by simp
    with False D(3) [OF v] D(4) [OF v] other [OF v] same [OF v] show ?thesis
      by (simp del: map_option_eq_Some user_chan_iff add: is_open_def)
  qed
  have inj: "v = w" if "gm_get (ws_clients ?s) v = Some c" "gm_get (ws_clients ?s) w = Some d" "cl_send c = cl_send d"
    for v w c d
    using that old [of v c] old [of w d] D(5) [of v c w d]
    by (cases "v = u"; cases "w = u") (simp, force, force, simp)
  have ok': "ws_chans_ok ?s"
    unfolding ws_chans_ok_def
  proof (intro conjI)
    show "heap_wf (ws_events ?s)" "gm_wf (ws_clients ?s)" using wf D(2) by simp_all
    show "\<forall>v c. gm_get (ws_clients ?s) v = Some c \<longrightarrow> is_open (ws_events ?s) (cl_send c) \<and>
        map_option ch_cap (cells (ws_events ?s) (cl_send c)) = Some 64"
      using live by (simp del: map_option_eq_Some)
    show "\<forall>v w c d. gm_get (ws_clients ?s) v = Some c \<longrightarrow> gm_get (ws_clients ?s) w = Some d \<longrightarrow>
        cl_send c = cl_send d \<longrightarrow> v = w"
      by (intro allI impI) (rule inj)
  qed
  show ?thesis by (rule that [OF eq ok']) (use none mk in simp_all)
qed

lemma ws_unregister_ok:
  assumes ok: "ws_chans_ok s"
  shows "ws_unregister u s =
      Inr (s\<lparr>ws_clients := gm_del u (ws_clients s), ws_events := mark_closed (user_chan s u) (ws_events s)\<rparr>)"
    and "ws_chans_ok (s\<lparr>ws_clients := gm_del u (ws_clients s), ws_events := mark_closed (user_chan s u) (ws_events s)\<rparr>)"
proof -
  note D = ws_chans_okD [OF ok]
  show "ws_unregister u s =
      Inr (s\<lparr>ws_clients := gm_del u (ws_clients s), ws_events := mark_closed (user_chan s u) (ws_events s)\<rparr>)"
  proof (cases "gm_get (ws_clients s) u")
    case None
    then have "gm_del u (ws_clients s) = ws_clients s" by (simp add: delete_id map_of_eq_None_iff)
    with None show ?thesis by (simp add: ws_unregister_def user_chan_def)
  qed (use D(3) in \<open>simp add: ws_unregister_def close_chan_open user_chan_def\<close>)
  have "cl_send c \<notin> user_chan s u" if "gm_get (ws_clients s) v = Some c" "v \<noteq> u" for v c
    using D(5) that by auto
  with D show "ws_chans_ok (s\<lparr>ws_clients := gm_del u (ws_clients s), ws_events := mark_closed (user_chan s u) (ws_events s)\<rparr>)"
    unfolding ws_chans_ok_def by (auto split: if_splits)
qed

lemma ws_close_ok:
  assumes ok: "ws_chans_ok s"
  shows "ws_close s = Inr (new_ws_store\<lparr>ws_events := mark_closed (\<Union>u. user_chan s u) (ws_events s)\<rparr>)"
proof -
  note D = ws_chans_okD [OF ok]
  have entry: "gm_get (ws_clients s) u = Some c \<longleftrightarrow> (u, c) \<in> set (ws_clients s)" for u c
    by (rule gm_get_Some_iff [OF D(2)])
  let ?cs = "map (\<lambda>(_, c). cl_send c) (ws_clients s)"
  have "distinct ?cs" by (rule gm_distinct_map [OF D(2)]) (use D(5) entry in metis)
  moreover have "\<forall>c\<in>set ?cs. is_open (ws_events s) c" using D(3) entry by auto
  moreover have "set ?cs = (\<Union>u. user_chan s u)" by (force simp: entry)
  ultimately have "close_all ?cs (ws_events s) = Inr (mark_closed (\<Union>u. user_chan s u) (ws_events s))"
    using close_all_open by metis
  then show ?thesis by (simp add: ws_close_def new_ws_store_def)
qed

subsection \<open>Runs of the store\<close>

datatype ws_op =
    WsRegister string
  | WsUnregister string
  | WsJoin string string
  | WsLeave string string
  | WsDeliver string chat_event
  | WsReceive chan_id
  | WsClose

fun ws_step :: "ws_op \<Rightarrow> ws_store \<Rightarrow> panic + ws_store" where
  "ws_step (WsRegister u) s = sum_map snd (ws_register u s)"
| "ws_step (WsUnregister u) s = ws_unregister u s"
| "ws_step (WsJoin r u) s = Inr (snd (ws_join_room r u s))"
| "ws_step (WsLeave r u) s = Inr (snd (ws_leave_room r u s))"
| "ws_step (WsDeliver r p) s = ws_deliver_to_room r p s"
| "ws_step (WsReceive ch) s = Inr (s\<lparr>ws_events := snd (recv_chan ch (ws_events s))\<rparr>)"
| "ws_step WsClose s = ws_close s"

fun ws_run :: "ws_op list \<Rightarrow> ws_store \<Rightarrow> panic + ws_store" where
  "ws_run [] s = Inr s"
| "ws_run (e # es) s = sum_bind (ws_step e s) (ws_run es)"

definition ws_ok :: "ws_store \<Rightarrow> bool" where
  "ws_ok s \<longleftrightarrow> ws_wf s \<and> ws_chans_ok s"

lemma ws_wf_cong: "ws_rooms s' = ws_rooms s \<Longrightarrow> ws_users s' = ws_users s \<Longrightarrow> ws_wf s' = ws_wf s"
  by (simp add: ws_wf_def)

lemma ws_chans_ok_cong: "ws_clients s' = ws_clients s \<Longrightarrow> ws_events s' = ws_events s \<Longrightarrow> ws_chans_ok s' = ws_chans_ok s"
  by (simp add: ws_chans_ok_def)

lemma in_room_cong: "ws_rooms s' = ws_rooms s \<Longrightarrow> in_room s' = in_room s"
  by (intro ext) (simp add: in_room_def)

lemma ws_frame [simp]:
  "ws_wf (s\<lparr>ws_events := ev\<rparr>) = ws_wf s"
  "ws_wf (s\<lparr>ws_clients := cs\<rparr>) = ws_wf s"
  "in_room (s\<lparr>ws_events := ev\<rparr>) = in_room s"
  "in_room (s\<lparr>ws_clients := cs\<rparr>) = in_room s"
  by (rule ws_wf_cong in_room_cong; simp)+

lemma ws_step_ok:
  assumes "ws_ok s"
  shows "\<exists>s'. ws_step e s = Inr s' \<and> ws_ok s'"
proof -
  have wf: "ws_wf s" and ok: "ws_chans_ok s" using assms by (auto simp: ws_ok_def)
  show ?thesis
  proof (cases e)
    case (WsRegister u)
    with wf show ?thesis
      by (cases rule: ws_register_ok [OF ok, of u]) (simp add: ws_ok_def, metis ws_wf_cong)
  next
    case (WsUnregister u)
    with ws_unregister_ok [OF ok, of u] wf show ?thesis by (simp add: ws_ok_def)
  next
    case (WsJoin r u)
    have "ws_chans_ok (snd (ws_join_room r u s))"
      by (rule iffD2 [OF ws_chans_ok_cong ok]) simp_all
    with WsJoin ws_join_iff(3) [OF wf] show ?thesis by (simp add: ws_ok_def)
  next
    case (WsLeave r u)
    have "ws_chans_ok (snd (ws_leave_room r u s))"
      by (rule iffD2 [OF ws_chans_ok_cong ok]) simp_all
    with WsLeave ws_leave_iff(3) [OF wf] show ?thesis by (simp add: ws_ok_def)
  next
    case (WsDeliver r p)
    with ws_deliver_ok [OF wf ok] ws_chans_ok_offer [OF ok] wf show ?thesis
      by (simp add: ws_ok_def)
  next
    case (WsReceive ch)
    with ws_chans_ok_recv [OF ok, of ch] wf show ?thesis
      by (cases "recv_chan ch (ws_events s)") (simp add: ws_ok_def)
  next
    case WsClose
    have "ws_chans_ok (new_ws_store\<lparr>ws_events := mark_closed A (ws_events s)\<rparr>)" for A
      using ws_chans_okD(1) [OF ok] by (simp add: ws_chans_ok_def new_ws_store_def)
    with WsClose ws_close_ok [OF ok] show ?thesis
      by (simp add: ws_ok_def)
  qed
qed

lemma ws_run_ok: "ws_ok s \<Longrightarrow> \<exists>s'. ws_run es s = Inr s' \<and> ws_ok s'"
proof (induction es arbitrary: s)
  case (Cons e es)
  obtain s1 where "ws_step e s = Inr s1" "ws_ok s1" using ws_step_ok [OF Cons.prems] by blast
  with Cons.IH show ?case by simp
qed simp

lemma ws_run_inv:
  assumes "ws_run es new_ws_store = Inr s"
  shows "ws_wf s" and "ws_chans_ok s"
  using ws_run_ok [of new_ws_store es] assms by (auto simp: ws_ok_def)

lemma buffered_offer:
  "map_option ch_cap (cells ev ch) = Some n \<Longrightarrow>
    buffered (offer_to A p ev) ch =
      (if ch \<in> A \<and> length (buffered ev ch) < n then buffered ev ch @ [p] else buffered ev ch)"
  by (auto simp: buffered_def ch_buf_offer)

lemma room_chans_open: "ws_chans_ok s \<Longrightarrow> ch \<in> room_chans s r \<Longrightarrow> is_open (ws_events s) ch"
  using ws_chans_okD(3) by (auto simp: room_chans_def)

lemma room_chans_client:
  assumes "ws_chans_ok s" and "gm_get (ws_clients s) u = Some c"
  shows "cl_send c \<in> room_chans s r \<longleftrightarrow> in_room s r u"
  using ws_chans_okD(5) [OF assms(1) assms(2)] assms(2) unfolding room_chans_def by blast

subsection \<open>Properties\<close>

definition demo_ws :: ws_store where
  "demo_ws =
     \<lparr>ws_clients = [(''u'', \<lparr>cl_user = ''u'', cl_send = 0\<rparr>)],
      ws_rooms = [(''r'', [(''u'', ())])], ws_users = [(''u'', [(''r'', ())])],
      ws_events = \<lparr>cells = [0 \<mapsto> \<lparr>ch_buf = [], ch_cap = 64, ch_closed = False\<rparr>], next_id = 1\<rparr>\<rparr>"

lemma demo_ws_run: "ws_run [WsRegister ''u'', WsJoin ''r'' ''u''] new_ws_store = Inr demo_ws"
  by (simp add: new_ws_store_def ws_register_def make_chan_def empty_heap_def ws_join_room_def
      sets_add_def demo_ws_def Let_def)

text \<open>
  Whatever sequence of calls the WebSocket handlers, the hub's bridges and the shutdown make
  on a fresh store, none of them panics: a client's channel is closed once (by the registration
  that replaces it, by \<^verbatim>\<open>Unregister\<close> or by \<^verbatim>\<open>Close\<close>) and nothing is sent on it afterwards.
\<close>

theorem ws_never_panics: "\<exists>s. ws_run es new_ws_store = Inr s"
  using ws_run_ok [of new_ws_store es] by (auto simp: ws_ok_def)

text \<open>
  C10. The store implements the membership relation between rooms and users. \<^verbatim>\<open>JoinRoom\<close> adds the
  pair exactly for a registered user and reports whether it was new, \<^verbatim>\<open>LeaveRoom\<close> removes it and
  reports whether it was there and whether the room is now empty, \<^verbatim>\<open>RoomsForUser\<close> lists each
  room of the user once, and \<^verbatim>\<open>Members\<close> is the size of the room.
\<close>

theorem ws_membership:
  assumes "ws_run es new_ws_store = Inr s"
  shows "fst (ws_join_room r u s) = (ws_registered s u \<and> \<not> in_room s r u) \<and>
    room_members (snd (ws_join_room r u s)) r =
      (if ws_registered s u then insert u (room_members s r) else room_members s r) \<and>
    fst (ws_leave_room r u s) = (in_room s r u, room_members s r = {u}) \<and>
    room_members (snd (ws_leave_room r u s)) r = room_members s r - {u} \<and>
    set (ws_rooms_for_user u s) = {r. in_room s r u} \<and> distinct (ws_rooms_for_user u s) \<and>
    ws_members r s = card (room_members s r)"
proof -
  note wf = ws_run_inv(1) [OF assms]
  show ?thesis
    using ws_join_iff(1) [OF wf] ws_join_iff(2) [OF wf] ws_leave_iff(1) [OF wf]
      ws_leave_iff(2) [OF wf] ws_rooms_for_user_iff [OF wf] rooms.count_card [OF wf]
    by (auto simp: set_eq_iff)
qed

theorem ws_membership_witness: "fst (ws_leave_room ''r'' ''u'' demo_ws) = (True, True)"
proof -
  have "in_room demo_ws ''r'' ''u''" "room_members demo_ws ''r'' = {''u''}"
    by (auto simp: in_room_def in_sets_def demo_ws_def)
  with ws_membership [OF demo_ws_run, of "''r''" "''u''"] show ?thesis by simp
qed

text \<open>
  Delivery to a room appends the payload to the channel of every registered member that has
  room for it, and to no other client's channel.
\<close>

theorem ws_delivery_exact:
  assumes "ws_run es new_ws_store = Inr s"
  shows "\<exists>s'. ws_deliver_to_room r p s = Inr s' \<and> ws_clients s' = ws_clients s \<and>
    in_room s' = in_room s \<and>
    (\<forall>u c. gm_get (ws_clients s) u = Some c \<longrightarrow> buffered (ws_events s') (cl_send c) =
       (if in_room s r u \<and> length (buffered (ws_events s) (cl_send c)) < 64
        then buffered (ws_events s) (cl_send c) @ [p] else buffered (ws_events s) (cl_send c)))"
proof -
  note inv = ws_run_inv [OF assms]
  let ?s = "s\<lparr>ws_events := offer_to (room_chans s r) p (ws_events s)\<rparr>"
  have "buffered (ws_events ?s) (cl_send c) =
      (if in_room s r u \<and> length (buffered (ws_events s) (cl_send c)) < 64
       then buffered (ws_events s) (cl_send c) @ [p] else buffered (ws_events s) (cl_send c))"
    if "gm_get (ws_clients s) u = Some c" for u c
    using buffered_offer [OF ws_chans_okD(4) [OF inv(2) that]] room_chans_client [OF inv(2) that] by simp
  then show ?thesis
    using ws_deliver_ok [OF inv] by (intro exI [of _ ?s]) simp
qed

theorem ws_delivery_exact_witness:
  "\<exists>s'. ws_deliver_to_room ''r'' ''hi'' demo_ws = Inr s' \<and> buffered (ws_events s') 0 = [''hi'']"
proof -
  have "gm_get (ws_clients demo_ws) ''u'' = Some \<lparr>cl_user = ''u'', cl_send = 0\<rparr>" "in_room demo_ws ''r'' ''u''"
    "buffered (ws_events demo_ws) 0 = []"
    by (simp_all add: demo_ws_def in_room_def in_sets_def buffered_def)
  with ws_delivery_exact [OF demo_ws_run, of "''r''" "''hi''"] show ?thesis by fastforce
qed

text \<open>
  A second registration of a user replaces the first: the old channel is closed and keeps
  what it holds, the new one is empty, the user is still in the same rooms, and a delivery to
  one of them arrives in the new channel and no longer in the old one.
\<close>

theorem ws_register_replaces:
  assumes "ws_run es new_ws_store = Inr s" and "gm_get (ws_clients s) u = Some old" and "in_room s r u"
  shows "\<exists>ch s'. ws_register u s = Inr (ch, s') \<and> ch \<noteq> cl_send old \<and>
    \<not> is_open (ws_events s') (cl_send old) \<and> in_room s' = in_room s \<and>
    buffered (ws_events s') (cl_send old) = buffered (ws_events s) (cl_send old) \<and>
    (\<exists>s''. ws_deliver_to_room r p s' = Inr s'' \<and> buffered (ws_events s'') ch = [p] \<and>
       buffered (ws_events s'') (cl_send old) = buffered (ws_events s') (cl_send old))"
proof -
  note inv = ws_run_inv [OF assms(1)]
  obtain ch s' where reg: "ws_register u s = Inr (ch, s')" "ws_chans_ok s'"
    "ws_rooms s' = ws_rooms s" "ws_users s' = ws_users s"
    "ws_clients s' = gm_put u \<lparr>cl_user = u, cl_send = ch\<rparr> (ws_clients s)"
    "ws_events s' = mark_closed (user_chan s u) (snd (make_chan 64 (ws_events s)))"
    "cells (ws_events s) ch = None" "fst (make_chan 64 (ws_events s)) = ch"
    by (rule ws_register_ok [OF inv(2)])
  have old: "is_open (ws_events s) (cl_send old)" by (rule ws_chans_okD(3) [OF inv(2) assms(2)])
  then have ne: "ch \<noteq> cl_send old" using reg(7) is_open_allocated by metis
  obtain ev where mk: "make_chan 64 (ws_events s) = (ch, ev)" using reg(8) by (metis prod.collapse)
  have cells: "cells (ws_events s') (cl_send old) = map_option (ch_closed_update (\<lambda>_. True)) (cells (ws_events s) (cl_send old))"
    "buffered (ws_events s') ch = []"
    using reg(6) mk cells_make_chan [OF mk] assms(2) ne by (auto simp: buffered_def)
  have wf': "ws_wf s'" using inv(1) ws_wf_cong [OF reg(3,4)] by simp
  have rooms: "in_room s' = in_room s" by (rule in_room_cong [OF reg(3)])
  have new: "gm_get (ws_clients s') u = Some \<lparr>cl_user = u, cl_send = ch\<rparr>" using reg(5) by simp
  have "ch \<in> room_chans s' r"
    using room_chans_client [OF reg(2) new, of r] rooms assms(3) by simp
  then have got: "buffered (offer_to (room_chans s' r) p (ws_events s')) ch = [p]"
    using buffered_offer [OF ws_chans_okD(4) [OF reg(2) new]] cells(2) by simp
  have closed: "\<not> is_open (ws_events s') (cl_send old)" using cells(1) by (auto simp: is_open_def)
  then have "cl_send old \<notin> room_chans s' r"
    using room_chans_open [OF reg(2)] by blast
  then have kept: "buffered (offer_to (room_chans s' r) p (ws_events s')) (cl_send old) = buffered (ws_events s') (cl_send old)"
    by simp
  have "buffered (ws_events s') (cl_send old) = buffered (ws_events s) (cl_send old)"
    using cells(1) by (cases "cells (ws_events s) (cl_send old)") (auto simp: buffered_def)
  with reg(1) ne closed rooms ws_deliver_ok [OF wf' reg(2), of r p] got kept show ?thesis
    by (intro exI [of _ ch] exI [of _ s']) simp
qed

theorem ws_register_replaces_witness:
  "\<exists>ch s'. ws_register ''u'' demo_ws = Inr (ch, s') \<and> ch \<noteq> 0 \<and> \<not> is_open (ws_events s') 0 \<and> in_room s' ''r'' ''u''"
proof -
  have "gm_get (ws_clients demo_ws) ''u'' = Some \<lparr>cl_user = ''u'', cl_send = 0\<rparr>" "in_room demo_ws ''r'' ''u''"
    by (simp_all add: demo_ws_def in_room_def in_sets_def)
  from ws_register_replaces [OF demo_ws_run this] this(2) show ?thesis by fastforce
qed

text \<open>
  \<^verbatim>\<open>Unregister\<close> closes the user's channel but leaves the user in every room: the rooms keep
  their members and sizes, so the hub goes on serving a room whose only member is gone, until
  \<^verbatim>\<open>LeaveRoom\<close> is called. A delivery to such a room is safe and reaches the others only.
\<close>

theorem ws_unregister_keeps_rooms:
  assumes "ws_run es new_ws_store = Inr s" and "gm_get (ws_clients s) u = Some c"
  shows "\<exists>s'. ws_unregister u s = Inr s' \<and> \<not> ws_registered s' u \<and> \<not> is_open (ws_events s') (cl_send c) \<and>
    in_room s' = in_room s \<and> ws_members r s' = ws_members r s \<and>
    (\<exists>s''. ws_deliver_to_room r p s' = Inr s'' \<and>
       buffered (ws_events s'') (cl_send c) = buffered (ws_events s) (cl_send c))"
proof -
  note inv = ws_run_inv [OF assms(1)]
  let ?s = "s\<lparr>ws_clients := gm_del u (ws_clients s), ws_events := mark_closed (user_chan s u) (ws_events s)\<rparr>"
  note un = ws_unregister_ok [OF inv(2), of u]
  have wf: "ws_wf ?s" using inv(1) by simp
  have closed: "\<not> is_open (ws_events ?s) (cl_send c)" using assms(2) by (auto simp: is_open_def)
  then have "cl_send c \<notin> room_chans ?s r"
    using room_chans_open [OF un(2)] by blast
  then have "buffered (offer_to (room_chans ?s r) p (ws_events ?s)) (cl_send c) = buffered (ws_events s) (cl_send c)"
    by simp
  with un(1) closed ws_deliver_ok [OF wf un(2), of r p] show ?thesis
    by (intro exI [of _ ?s]) (simp add: ws_registered_def ws_members_def)
qed

theorem ws_unregister_keeps_rooms_witness:
  "\<exists>s'. ws_unregister ''u'' demo_ws = Inr s' \<and> \<not> ws_registered s' ''u'' \<and> in_room s' ''r'' ''u''"
proof -
  have "gm_get (ws_clients demo_ws) ''u'' = Some \<lparr>cl_user = ''u'', cl_send = 0\<rparr>" "in_room demo_ws ''r'' ''u''"
    by (simp_all add: demo_ws_def in_room_def in_sets_def)
  with ws_unregister_keeps_rooms [OF demo_ws_run] show ?thesis by metis
qed

end
