(* ===== verification/ChatHub.thy ===== *)
theory ChatHub
  imports ChatStore RedisBus
begin

text \<open>
  \<^verbatim>\<open>internal/chat/hub.go\<close>: the per-room bridge between the bus and the WebSocket store of one
  gateway. It is the second client of the interface \<^verbatim>\<open>pubsub.PubSub\<close>, and the reasoning about
  entries, bridges and subscriptions is that of \<open>Bridges\<close>; what differs is that a room is torn
  down when the store says it is empty and that a failed subscription is rolled back.

  As in the code, \<^verbatim>\<open>LeaveAllForUser\<close> does not hold the lock across its loop; in the step relation
  its turns are the steps \<open>leaves\<close>.
\<close>

record 'b chat_hub =
  ct_bus :: 'b
  ct_store :: ws_store
  ct_rooms :: entries
  ct_bridges :: "bridge list"
  ct_cancelled :: "nat list"
  ct_next :: nat

definition new_chat_hub :: "'b \<Rightarrow> ws_store \<Rightarrow> 'b chat_hub" where
  "new_chat_hub bus st =
     \<lparr>ct_bus = bus, ct_store = st, ct_rooms = [], ct_bridges = [], ct_cancelled = [], ct_next = 0\<rparr>"

definition chat_join_room ::
    "'b pubsub \<Rightarrow> string \<Rightarrow> string \<Rightarrow> 'b chat_hub \<Rightarrow> panic + (bus_error option \<times> 'b chat_hub)" where
  "chat_join_room P roomID userID h =
     (let (added, st) = ws_join_room roomID userID (ct_store h);
          h = h\<lparr>ct_store := st\<rparr>
      in if \<not> added then Inr (None, h)
         else case gm_get (ct_rooms h) roomID of
           Some entry \<Rightarrow>
             Inr (None, h\<lparr>ct_rooms := gm_put roomID (entry\<lparr>en_refs := en_refs entry + 1\<rparr>) (ct_rooms h)\<rparr>)
         | None \<Rightarrow>
             (let bridgeCtx = ct_next h;
                  h = h\<lparr>ct_next := Suc bridgeCtx\<rparr>
              in sum_bind (ps_subscribe P (room_channel roomID) (ct_bus h)) (\<lambda>(res, bus).
                   let h = h\<lparr>ct_bus := bus\<rparr>
                   in case res of
                        Inl err \<Rightarrow>
                          Inr (Some err, h\<lparr>ct_cancelled := bridgeCtx # ct_cancelled h,
                            ct_store := snd (ws_leave_room roomID userID (ct_store h))\<rparr>)
                      | Inr redisCh \<Rightarrow>
                          (let entry = \<lparr>en_refs = 0, en_redis = redisCh, en_ctx = bridgeCtx\<rparr>
                           in Inr (None, h\<lparr>
                                ct_rooms := gm_put roomID (entry\<lparr>en_refs := en_refs entry + 1\<rparr>) (ct_rooms h),
                                ct_bridges := ct_bridges h @
                                  [\<lparr>br_ctx = bridgeCtx, br_key = roomID, br_ch = redisCh\<rparr>]\<rparr>)))))"

definition chat_leave_room ::
    "'b pubsub \<Rightarrow> string \<Rightarrow> string \<Rightarrow> 'b chat_hub \<Rightarrow> panic + 'b chat_hub" where
  "chat_leave_room P roomID userID h =
     (let ((removed, roomEmpty), st) = ws_leave_room roomID userID (ct_store h);
          h = h\<lparr>ct_store := st\<rparr>
      in if \<not> removed then Inr h
         else case gm_get (ct_rooms h) roomID of
           None \<Rightarrow> Inr h
         | Some entry \<Rightarrow>
             (let entry = entry\<lparr>en_refs := en_refs entry - 1\<rparr>
              in if \<not> roomEmpty then Inr (h\<lparr>ct_rooms := gm_put roomID entry (ct_rooms h)\<rparr>)
                 else
                   (let h = h\<lparr>ct_cancelled := en_ctx entry # ct_cancelled h\<rparr>
                    in sum_bind (ps_unsubscribe P (room_channel roomID) (en_redis entry) (ct_bus h))
                         (\<lambda>(_, bus). Inr (h\<lparr>ct_bus := bus, ct_rooms := gm_del roomID (ct_rooms h)\<rparr>)))))"

fun leave_rooms ::
    "'b pubsub \<Rightarrow> string list \<Rightarrow> string \<Rightarrow> 'b chat_hub \<Rightarrow> panic + 'b chat_hub" where
  "leave_rooms P [] userID h = Inr h"
| "leave_rooms P (roomID # rs) userID h =
     sum_bind (chat_leave_room P roomID userID h) (leave_rooms P rs userID)"

definition chat_leave_all :: "'b pubsub \<Rightarrow> string \<Rightarrow> 'b chat_hub \<Rightarrow> panic + 'b chat_hub" where
  "chat_leave_all P userID h = leave_rooms P (ws_rooms_for_user userID (ct_store h)) userID h"

definition chat_bridge_returns :: "bridge \<Rightarrow> 'b chat_hub \<Rightarrow> 'b chat_hub" where
  "chat_bridge_returns br h = h\<lparr>ct_bridges := remove1 br (ct_bridges h)\<rparr>"

definition chat_bridge_step ::
    "'b pubsub \<Rightarrow> bridge \<Rightarrow> bridge_case \<Rightarrow> 'b chat_hub \<Rightarrow> panic + 'b chat_hub" where
  "chat_bridge_step P br c h =
     (case c of
        BridgeDone \<Rightarrow>
          Inr (if br_ctx br \<in> set (ct_cancelled h) then chat_bridge_returns br h else h)
      | BridgeMessage \<Rightarrow>
          (let (got, bus) = ps_recv P (br_ch br) (ct_bus h);
               h = h\<lparr>ct_bus := bus\<rparr>
           in case got of
                Blocked \<Rightarrow> Inr h
              | Drained \<Rightarrow> Inr (chat_bridge_returns br h)
              | Received msg \<Rightarrow>
                  sum_map (\<lambda>st. h\<lparr>ct_store := st\<rparr>)
                    (ws_deliver_to_room (br_key br) (m_payload msg) (ct_store h))))"

definition chat_close :: "'b pubsub \<Rightarrow> 'b chat_hub \<Rightarrow> panic + 'b chat_hub" where
  "chat_close P h =
     sum_bind (close_entries room_channel P (ct_rooms h) (ct_bus h, ct_cancelled h)) (\<lambda>(bus, cs).
       let h = h\<lparr>ct_bus := bus, ct_cancelled := cs, ct_rooms := []\<rparr>
       in sum_map (\<lambda>st. h\<lparr>ct_store := st\<rparr>) (ws_close (ct_store h)))"

subsection \<open>The invariant of the hub\<close>

context pubsub_bus begin

definition chat_inv :: "message set \<Rightarrow> 'b chat_hub \<Rightarrow> bool" where
  "chat_inv L h \<longleftrightarrow>
     bus_ok room_channel L (ct_bus h) (ct_rooms h) (ct_bridges h) (ct_cancelled h) (ct_next h) \<and>
     rooms.counted (ct_rooms h) (ct_store h) \<and> ws_chans_ok (ct_store h)"

lemma chat_invD:
  assumes "chat_inv L h"
  shows "bus_ok room_channel L (ct_bus h) (ct_rooms h) (ct_bridges h) (ct_cancelled h) (ct_next h)"
    and "rooms.counted (ct_rooms h) (ct_store h)" and "ws_chans_ok (ct_store h)"
    and "ws_wf (ct_store h)"
  using assms rooms.countedD(2) by (auto simp: chat_inv_def)

lemma new_chat_inv: "binv bus \<Longrightarrow> live bus = {} \<Longrightarrow> chat_inv L (new_chat_hub bus new_ws_store)"
  by (simp add: chat_inv_def new_chat_hub_def bus_ok_new rooms.counted_Nil)

lemma counted_cong:
  assumes "rooms.counted es s" and "ws_wf s'" and "in_room s' = in_room s"
  shows "rooms.counted es s'"
proof -
  have "ws_members r s' = ws_members r s" for r
    using rooms.count_card [OF assms(2)] rooms.count_card [OF rooms.countedD(2) [OF assms(1)]] assms(3) by simp
  with assms show ?thesis by (simp add: rooms.counted_def)
qed

lemma in_room_same:
  assumes "ws_wf s" and "\<not> in_room s r u"
  shows "in_room (snd (ws_leave_room r u (snd (ws_join_room r u s)))) = in_room s"
  by (intro ext) (auto simp: ws_leave_iff(2) [OF ws_join_iff(3) [OF assms(1)]] ws_join_iff(2) [OF assms(1)] assms(2))

text \<open>
  The three outcomes of \<^verbatim>\<open>JoinRoom\<close>: nothing to do (a stranger, or already a member), a failed
  subscription that is rolled back, and a new member.
\<close>

lemma chat_join_cases:
  assumes inv: "chat_inv L h"
  obtains (same) "chat_join_room P r u h = Inr (None, h)"
      "\<not> ws_registered (ct_store h) u \<or> in_room (ct_store h) r u"
  | (failed) err h' where "chat_join_room P r u h = Inr (Some err, h')" "chat_inv L h'"
      "in_room (ct_store h') = in_room (ct_store h)" "ct_rooms h' = ct_rooms h"
      "ws_clients (ct_store h') = ws_clients (ct_store h)" "ws_events (ct_store h') = ws_events (ct_store h)"
      "gm_get (ct_rooms h) r = None"
  | (joined) h' where "chat_join_room P r u h = Inr (None, h')" "chat_inv L h'"
      "ct_store h' = snd (ws_join_room r u (ct_store h))"
      "ws_registered (ct_store h) u" "\<not> in_room (ct_store h) r u"
proof -
  note D = chat_invD [OF inv]
  note C = rooms.countedD [OF D(2)]
  obtain added st where ws: "ws_join_room r u (ct_store h) = (added, st)" by fastforce
  then have st: "snd (ws_join_room r u (ct_store h)) = st" by simp
  note J = ws_join_iff [OF D(4), of r u, unfolded ws fst_conv snd_conv]
  have same_chans: "ws_clients st = ws_clients (ct_store h)" "ws_events st = ws_events (ct_store h)"
    using ws_join_fields [of r u "ct_store h"] by (simp_all add: ws)
  have chans: "ws_chans_ok st" by (rule iffD2 [OF ws_chans_ok_cong D(3)]) (rule same_chans)+
  show ?thesis
  proof (cases added)
    case False
    with ws have "ws_join_room r u (ct_store h) = (False, ct_store h)"
      unfolding ws_join_room_def by (simp split: if_splits)
    with False J(1) show ?thesis
      by (intro same) (auto simp: chat_join_room_def)
  next
    case True
    with ws have join: "ws_join_room r u (ct_store h) = (True, st)" by simp
    from True J(1) have reg: "ws_registered (ct_store h) u" and new: "\<not> in_room (ct_store h) r u" by auto
    show ?thesis
    proof (cases "gm_get (ct_rooms h) r")
      case (Some e)
      let ?h = "h\<lparr>ct_store := st, ct_rooms := gm_put r (e\<lparr>en_refs := en_refs e + 1\<rparr>) (ct_rooms h)\<rparr>"
      have "rooms.counted (ct_rooms ?h) st"
        unfolding st [symmetric] using C(1,2,3,5) Some new reg
        by (simp del: gm_get_put, intro rooms.counted_add) simp_all
      then have "chat_inv L ?h"
        using bus_ok_count [OF D(1) Some] chans by (simp add: chat_inv_def)
      with Some join reg new show ?thesis
        by (intro joined [of ?h]) (simp_all add: chat_join_room_def)
    next
      case None
      let ?ctx = "ct_next h"
      obtain res bus where call: "ps_subscribe P (room_channel r) (ct_bus h) = Inr (res, bus)"
        using subscribe_no_panic [OF bus_okD(1) [OF D(1)]] by blast
      show ?thesis
      proof (cases res)
        case (Inl err)
        let ?st' = "snd (ws_leave_room r u st)"
        let ?h = "h\<lparr>ct_store := ?st', ct_next := Suc ?ctx, ct_bus := bus, ct_cancelled := ?ctx # ct_cancelled h\<rparr>"
        have rel: "in_room ?st' = in_room (ct_store h)" using in_room_same [OF D(4) new] by (simp add: st)
        have "ws_chans_ok ?st'" by (rule iffD2 [OF ws_chans_ok_cong D(3)]) (simp_all add: same_chans)
        moreover have "rooms.counted (ct_rooms h) ?st'"
          by (rule counted_cong [OF D(2) ws_leave_iff(3) [OF J(3)] rel])
        ultimately have "chat_inv L ?h"
          using bus_ok_failed [OF D(1) call [unfolded Inl]] by (simp add: chat_inv_def)
        with None Inl call join rel same_chans show ?thesis
          by (intro failed [of err ?h]) (simp_all add: chat_join_room_def Let_def)
      next
        case (Inr rc)
        let ?e = "\<lparr>en_refs = 0, en_redis = rc, en_ctx = ?ctx\<rparr>"
        let ?es = "gm_put r ?e (ct_rooms h)"
        let ?h = "h\<lparr>ct_store := st, ct_next := Suc ?ctx, ct_bus := bus,
          ct_rooms := gm_put r (?e\<lparr>en_refs := en_refs ?e + 1\<rparr>) (ct_rooms h),
          ct_bridges := ct_bridges h @ [\<lparr>br_ctx = ?ctx, br_key = r, br_ch = rc\<rparr>]\<rparr>"
        have "refs_of ?es q = int (ws_members q (ct_store h))" for q
          using C(3) [of q] None by (cases "q = r") (simp_all add: refs_of_def)
        then have "rooms.counted (gm_put r (?e\<lparr>en_refs := en_refs ?e + 1\<rparr>) ?es) st"
          unfolding st [symmetric] using C(1,2,5) new reg by (intro rooms.counted_add) simp_all
        moreover have "gm_put r (?e\<lparr>en_refs := en_refs ?e + 1\<rparr>) ?es = ct_rooms ?h"
          by simp
        ultimately have "rooms.counted (ct_rooms ?h) st" by simp
        then have "chat_inv L ?h"
          using bus_ok_subscribe [OF D(1) None call [unfolded Inr], of 1] chans by (simp add: chat_inv_def)
        with None Inr call join reg new show ?thesis
          by (intro joined [of ?h]) (simp_all add: chat_join_room_def Let_def)
      qed
    qed
  qed
qed

lemma chat_leave_cases:
  assumes inv: "chat_inv L h"
  obtains h' where "chat_leave_room P r u h = Inr h'" "chat_inv L h'"
    "ct_store h' = snd (ws_leave_room r u (ct_store h))"
proof -
  note D = chat_invD [OF inv]
  note C = rooms.countedD [OF D(2)]
  obtain flags st where ws: "ws_leave_room r u (ct_store h) = (flags, st)" by fastforce
  then have st: "snd (ws_leave_room r u (ct_store h)) = st" by simp
  note V = ws_leave_iff [OF D(4), of r u, unfolded ws fst_conv snd_conv]
  have chans: "ws_chans_ok st"
    using ws_leave_fields [of r u "ct_store h"] by (intro iffD2 [OF ws_chans_ok_cong D(3)]) (simp_all add: ws)
  show ?thesis
  proof (cases "in_room (ct_store h) r u")
    case False
    then have "ws_leave_room r u (ct_store h) = ((False, False), ct_store h)"
      by (auto simp: ws_leave_room_def in_room_def in_sets_def split: option.splits)
    with inv show ?thesis by (intro that [of h]) (simp_all add: chat_leave_room_def)
  next
    case True
    then have mem: "u \<in> room_members (ct_store h) r" by simp
    obtain e where e: "gm_get (ct_rooms h) r = Some e" using C(6) [of r] True by (cases "gm_get (ct_rooms h) r") auto
    have leave: "ws_leave_room r u (ct_store h) = ((True, room_members (ct_store h) r = {u}), st)"
      using V(1) True ws by simp
    show ?thesis
    proof (cases "room_members (ct_store h) r = {u}")
      case False
      let ?h = "h\<lparr>ct_store := st, ct_rooms := gm_put r (e\<lparr>en_refs := en_refs e - 1\<rparr>) (ct_rooms h)\<rparr>"
      have "chat_inv L ?h"
        using rooms.counted_remove(1) [OF D(2) e mem False, unfolded st] bus_ok_count [OF D(1) e] chans
        by (simp add: chat_inv_def)
      with leave e False show ?thesis
        by (intro that [of ?h]) (simp_all add: chat_leave_room_def Let_def)
    next
      case one: True
      obtain err bus where call: "ps_unsubscribe P (room_channel r) (en_redis e) (ct_bus h) = Inr (err, bus)"
          "bus_ok room_channel L bus (gm_del r (ct_rooms h)) (ct_bridges h) (en_ctx e # ct_cancelled h) (ct_next h)"
        by (rule bus_ok_unsubscribe [OF D(1) e inj_room_channel])
      let ?h = "h\<lparr>ct_store := st, ct_cancelled := en_ctx e # ct_cancelled h, ct_bus := bus,
        ct_rooms := gm_del r (ct_rooms h)\<rparr>"
      have "chat_inv L ?h"
        using rooms.counted_remove(2) [OF D(2) e mem one, unfolded st] call(2) chans by (simp add: chat_inv_def)
      with leave e one call(1) show ?thesis
        by (intro that [of ?h]) (simp_all add: chat_leave_room_def Let_def)
    qed
  qed
qed

lemma leave_rooms_ok:
  assumes "chat_inv L h"
  shows "\<exists>h'. leave_rooms P rs u h = Inr h' \<and> chat_inv L h' \<and>
    ws_clients (ct_store h') = ws_clients (ct_store h) \<and> ws_events (ct_store h') = ws_events (ct_store h) \<and>
    (\<forall>r v. in_room (ct_store h') r v \<longleftrightarrow> in_room (ct_store h) r v \<and> \<not> (v = u \<and> r \<in> set rs))"
  using assms
proof (induction rs arbitrary: h)
  case (Cons r rs)
  obtain h1 where h1: "chat_leave_room P r u h = Inr h1" "chat_inv L h1"
      "ct_store h1 = snd (ws_leave_room r u (ct_store h))"
    by (rule chat_leave_cases [OF Cons.prems])
  have "in_room (ct_store h1) q v \<longleftrightarrow> in_room (ct_store h) q v \<and> \<not> (q = r \<and> v = u)" for q v
    using ws_leave_iff(2) [OF chat_invD(4) [OF Cons.prems]] h1(3) by simp
  with Cons.IH [OF h1(2)] h1 show ?case by auto
qed simp

lemma chat_bridge_cases:
  assumes inv: "chat_inv L h" and br: "br \<in> set (ct_bridges h)"
  obtains h' where "chat_bridge_step P br cs h = Inr h'" "chat_inv L h'" "ct_rooms h' = ct_rooms h"
    "ct_store h' = ct_store h \<or>
       (\<exists>m\<in>messages_on L (room_channel (br_key br)). ct_store h' = (ct_store h)\<lparr>ws_events :=
          offer_to (room_chans (ct_store h) (br_key br)) (m_payload m) (ws_events (ct_store h))\<rparr>)"
proof -
  note D = chat_invD [OF inv]
  show ?thesis
  proof (cases cs)
    case BridgeDone
    have "chat_inv L (chat_bridge_returns br h)" if "br_ctx br \<in> set (ct_cancelled h)"
      using bus_ok_return [OF D(1) br that] D(2,3) by (simp add: chat_inv_def chat_bridge_returns_def)
    with BridgeDone inv show ?thesis
      by (intro that [of "if br_ctx br \<in> set (ct_cancelled h) then chat_bridge_returns br h else h"])
        (simp_all add: chat_bridge_step_def chat_bridge_returns_def)
  next
    case BridgeMessage
    obtain got bus where call: "ps_recv P (br_ch br) (ct_bus h) = (got, bus)" by fastforce
    note R = bus_ok_recv [OF D(1) br call]
    have base: "chat_inv L (h\<lparr>ct_bus := bus\<rparr>)" using R(1) D(2,3) by (simp add: chat_inv_def)
    show ?thesis
    proof (cases got)
      case Blocked
      with BridgeMessage call base show ?thesis
        by (intro that [of "h\<lparr>ct_bus := bus\<rparr>"]) (simp_all add: chat_bridge_step_def)
    next
      case Drained
      then have "chat_inv L (chat_bridge_returns br (h\<lparr>ct_bus := bus\<rparr>))"
        using bus_ok_return [OF R(1) br R(3)] D(2,3) by (simp add: chat_inv_def chat_bridge_returns_def)
      with BridgeMessage Drained call show ?thesis
        by (intro that [of "chat_bridge_returns br (h\<lparr>ct_bus := bus\<rparr>)"])
          (simp_all add: chat_bridge_step_def chat_bridge_returns_def)
    next
      case (Received m)
      note m = R(2) [OF Received]
      let ?st = "(ct_store h)\<lparr>ws_events :=
          offer_to (room_chans (ct_store h) (br_key br)) (m_payload m) (ws_events (ct_store h))\<rparr>"
      have "rooms.counted (ct_rooms h) ?st" by (rule counted_cong [OF D(2)]) (simp_all add: D(4))
      then have "chat_inv L (h\<lparr>ct_bus := bus, ct_store := ?st\<rparr>)"
        using base ws_chans_ok_offer [OF D(3)] by (simp add: chat_inv_def)
      with BridgeMessage Received call m ws_deliver_ok [OF D(4,3)] show ?thesis
        by (intro that [of "h\<lparr>ct_bus := bus, ct_store := ?st\<rparr>"]) (auto simp: chat_bridge_step_def)
    qed
  qed
qed

lemma chat_close_ok:
  assumes inv: "chat_inv L h"
  obtains h' where "chat_close P h = Inr h'" "chat_inv L h'" "ct_rooms h' = []"
    "ct_store h' = new_ws_store\<lparr>ws_events := mark_closed (\<Union>u. user_chan (ct_store h) u) (ws_events (ct_store h))\<rparr>"
proof -
  note D = chat_invD [OF inv]
  obtain bus cs where loop: "close_entries room_channel P (ct_rooms h) (ct_bus h, ct_cancelled h) = Inr (bus, cs)"
    and bus: "bus_ok room_channel L bus [] (ct_bridges h) cs (ct_next h)"
    by (rule bus_ok_close [OF D(1) rooms.countedD(1) [OF D(2)]])
  let ?st = "new_ws_store\<lparr>ws_events := mark_closed (\<Union>u. user_chan (ct_store h) u) (ws_events (ct_store h))\<rparr>"
  let ?h = "h\<lparr>ct_bus := bus, ct_cancelled := cs, ct_rooms := [], ct_store := ?st\<rparr>"
  have "rooms.counted [] ?st" by (rule rooms.counted_Nil) simp_all
  moreover have "ws_chans_ok ?st"
    using ws_chans_okD(1) [OF D(3)] by (simp add: ws_chans_ok_def new_ws_store_def)
  ultimately have "chat_inv L ?h" using bus by (simp add: chat_inv_def)
  with loop ws_close_ok [OF D(3)] show ?thesis
    by (intro that [of ?h]) (simp_all add: chat_close_def)
qed

lemma chat_store_inv:
  assumes inv: "chat_inv L h" and "ws_wf st" "ws_chans_ok st" "in_room st = in_room (ct_store h)"
  shows "chat_inv L (h\<lparr>ct_store := st\<rparr>)"
  using chat_invD [OF inv] counted_cong [OF chat_invD(2) [OF inv] assms(2,4)] assms(3)
  by (simp add: chat_inv_def)

lemma chat_arrive:
  assumes inv: "chat_inv L h"
  obtains bus where "arrive m (ct_bus h) = Inr bus" "chat_inv (insert m L) (h\<lparr>ct_bus := bus\<rparr>)"
proof -
  note D = chat_invD [OF inv]
  obtain bus where "arrive m (ct_bus h) = Inr bus"
    "bus_ok room_channel (insert m L) bus (ct_rooms h) (ct_bridges h) (ct_cancelled h) (ct_next h)"
    by (rule bus_ok_arrive [OF D(1)])
  with D(2,3) show ?thesis by (intro that) (simp_all add: chat_inv_def)
qed

end

end
