(* ===== verification/ChatSystem.thy ===== *)
theory ChatSystem
  imports ChatHub
begin

text \<open>
  A whole gateway as far as the chat is concerned: WebSocket handlers that register, join,
  leave, read and unregister, the bridges, the arriving messages and the shutdown, in any
  interleaving and with any arguments (no guard restricts the callers). Two histories are kept
  for the statements: the channels each user was ever given, and the rooms each ever joined. A
  user joins with a \<^verbatim>\<open>JoinRoom\<close> that returns nil while the user is registered; a call that fails or
  that comes from a stranger is no join.
\<close>

record 'b chat_gateway =
  cg_hub :: "'b chat_hub"
  cg_given :: "(string \<times> chan_id) set"
  cg_joined :: "(string \<times> string) set"
  cg_arrived :: "message set"

definition new_chat_gateway :: "'b \<Rightarrow> 'b chat_gateway" where
  "new_chat_gateway bus =
     \<lparr>cg_hub = new_chat_hub bus new_ws_store, cg_given = {}, cg_joined = {}, cg_arrived = {}\<rparr>"

definition on_store :: "(ws_store \<Rightarrow> ws_store) \<Rightarrow> 'b chat_gateway \<Rightarrow> 'b chat_gateway" where
  "on_store f g = g\<lparr>cg_hub := (cg_hub g)\<lparr>ct_store := f (ct_store (cg_hub g))\<rparr>\<rparr>"

definition client_registers :: "string \<Rightarrow> 'b chat_gateway \<Rightarrow> panic + 'b chat_gateway" where
  "client_registers u g =
     sum_map (\<lambda>(ch, st). on_store (\<lambda>_. st) (g\<lparr>cg_given := insert (u, ch) (cg_given g)\<rparr>))
       (ws_register u (ct_store (cg_hub g)))"

definition client_joins :: "'b pubsub \<Rightarrow> string \<Rightarrow> string \<Rightarrow> 'b chat_gateway \<Rightarrow> panic + 'b chat_gateway" where
  "client_joins P r u g =
     sum_map (\<lambda>(res, h). g\<lparr>cg_hub := h,
         cg_joined := (if res = None \<and> ws_registered (ct_store (cg_hub g)) u
           then insert (r, u) (cg_joined g) else cg_joined g)\<rparr>)
       (chat_join_room P r u (cg_hub g))"

definition client_reads :: "chan_id \<Rightarrow> 'b chat_gateway \<Rightarrow> chat_event received \<times> 'b chat_gateway" where
  "client_reads ch g =
     (let (got, ev) = recv_chan ch (ws_events (ct_store (cg_hub g)))
      in (got, on_store (\<lambda>st. st\<lparr>ws_events := ev\<rparr>) g))"

inductive chat_step ::
    "'b pubsub \<Rightarrow> (message \<Rightarrow> 'b \<Rightarrow> panic + 'b) \<Rightarrow> 'b chat_gateway \<Rightarrow> (panic + 'b chat_gateway) \<Rightarrow> bool"
  for P arrive where
  registers: "chat_step P arrive g (client_registers u g)"
| unregisters: "chat_step P arrive g
    (sum_map (\<lambda>st. on_store (\<lambda>_. st) g) (ws_unregister u (ct_store (cg_hub g))))"
| joins: "chat_step P arrive g (client_joins P r u g)"
| leaves: "chat_step P arrive g (sum_map (\<lambda>h. g\<lparr>cg_hub := h\<rparr>) (chat_leave_room P r u (cg_hub g)))"
| leaves_all: "chat_step P arrive g (sum_map (\<lambda>h. g\<lparr>cg_hub := h\<rparr>) (chat_leave_all P u (cg_hub g)))"
| reads: "chat_step P arrive g (Inr (snd (client_reads ch g)))"
| bridges: "br \<in> set (ct_bridges (cg_hub g)) \<Longrightarrow>
    chat_step P arrive g (sum_map (\<lambda>h. g\<lparr>cg_hub := h\<rparr>) (chat_bridge_step P br cs (cg_hub g)))"
| arrives: "chat_step P arrive g
    (sum_map (\<lambda>bus. g\<lparr>cg_hub := (cg_hub g)\<lparr>ct_bus := bus\<rparr>, cg_arrived := insert m (cg_arrived g)\<rparr>)
      (arrive m (ct_bus (cg_hub g))))"
| closes: "chat_step P arrive g (sum_map (\<lambda>h. g\<lparr>cg_hub := h\<rparr>) (chat_close P (cg_hub g)))"

inductive chat_reach ::
    "'b pubsub \<Rightarrow> (message \<Rightarrow> 'b \<Rightarrow> panic + 'b) \<Rightarrow> 'b chat_gateway \<Rightarrow> 'b chat_gateway \<Rightarrow> bool"
  for P arrive g where
  start: "chat_reach P arrive g g"
| step: "chat_reach P arrive g g1 \<Longrightarrow> chat_step P arrive g1 (Inr g2) \<Longrightarrow> chat_reach P arrive g g2"

inductive_cases chat_stepE: "chat_step P arrive g r"

subsection \<open>The invariant of the gateway\<close>

text \<open>
  Clients use channels they were given, a channel belongs to one user, memberships were joined,
  and a channel holds only payloads of messages of rooms its user had joined.
\<close>

definition room_payloads :: "message set \<Rightarrow> (string \<times> string) set \<Rightarrow> string \<Rightarrow> bytes set" where
  "room_payloads L J u = {m_payload m | m r. (r, u) \<in> J \<and> m \<in> messages_on L (room_channel r)}"

definition history_ok ::
    "(string \<times> chan_id) set \<Rightarrow> (string \<times> string) set \<Rightarrow> message set \<Rightarrow> ws_store \<Rightarrow> bool" where
  "history_ok G J L st \<longleftrightarrow>
     (\<forall>u c. gm_get (ws_clients st) u = Some c \<longrightarrow> (u, cl_send c) \<in> G) \<and>
     (\<forall>u v ch. (u, ch) \<in> G \<longrightarrow> (v, ch) \<in> G \<longrightarrow> u = v) \<and>
     (\<forall>u ch. (u, ch) \<in> G \<longrightarrow> cells (ws_events st) ch \<noteq> None) \<and>
     (\<forall>r u. in_room st r u \<longrightarrow> (r, u) \<in> J) \<and>
     (\<forall>u ch. (u, ch) \<in> G \<longrightarrow> set (buffered (ws_events st) ch) \<subseteq> room_payloads L J u)"

lemma history_okD:
  assumes "history_ok G J L st"
  shows "gm_get (ws_clients st) u = Some c \<Longrightarrow> (u, cl_send c) \<in> G"
    and "(u, ch) \<in> G \<Longrightarrow> (v, ch) \<in> G \<Longrightarrow> u = v"
    and "(u, ch) \<in> G \<Longrightarrow> cells (ws_events st) ch \<noteq> None"
    and "in_room st r u \<Longrightarrow> (r, u) \<in> J"
    and "(u, ch) \<in> G \<Longrightarrow> set (buffered (ws_events st) ch) \<subseteq> room_payloads L J u"
  using assms unfolding history_ok_def by blast+

lemma room_payloads_mono: "L \<subseteq> L' \<Longrightarrow> J \<subseteq> J' \<Longrightarrow> room_payloads L J u \<subseteq> room_payloads L' J' u"
  unfolding room_payloads_def messages_on_def by blast

lemma history_ok_mono:
  assumes "history_ok G J L st" and "L \<subseteq> L'" and "J \<subseteq> J'"
  shows "history_ok G J' L' st"
  unfolding history_ok_def
proof (intro conjI allI impI)
  note D = history_okD [OF assms(1)]
  show "(u, cl_send c) \<in> G" if "gm_get (ws_clients st) u = Some c" for u c by (rule D(1) [OF that])
  show "u = v" if "(u, ch) \<in> G" "(v, ch) \<in> G" for u v ch by (rule D(2) [OF that])
  show "cells (ws_events st) ch \<noteq> None" if "(u, ch) \<in> G" for u ch by (rule D(3) [OF that])
  show "(r, u) \<in> J'" if "in_room st r u" for r u using D(4) [OF that] assms(3) by blast
  show "set (buffered (ws_events st) ch) \<subseteq> room_payloads L' J' u" if "(u, ch) \<in> G" for u ch
    using D(5) [OF that] room_payloads_mono [OF assms(2,3)] by (rule subset_trans)
qed

lemma history_ok_rooms:
  assumes "history_ok G J L st" and "ws_clients st' = ws_clients st" and "ws_events st' = ws_events st"
    and "\<And>r u. in_room st' r u \<Longrightarrow> (r, u) \<in> J"
  shows "history_ok G J L st'"
  using assms unfolding history_ok_def by simp

text \<open>Steps that shrink the store and leave the buffers alone.\<close>

lemma history_ok_shrink:
  assumes ok: "history_ok G J L st"
    and clients: "\<And>u c. gm_get (ws_clients st') u = Some c \<Longrightarrow> gm_get (ws_clients st) u = Some c"
    and rooms: "\<And>r u. in_room st' r u \<Longrightarrow> in_room st r u"
    and cells: "\<And>ch. cells (ws_events st) ch \<noteq> None \<Longrightarrow> cells (ws_events st') ch \<noteq> None"
    and buf: "\<And>ch. set (buffered (ws_events st') ch) \<subseteq> set (buffered (ws_events st) ch)"
  shows "history_ok G J L st'"
  unfolding history_ok_def
proof (intro conjI allI impI)
  note D = history_okD [OF ok]
  show "(u, cl_send c) \<in> G" if "gm_get (ws_clients st') u = Some c" for u c by (rule D(1) [OF clients [OF that]])
  show "u = v" if "(u, ch) \<in> G" "(v, ch) \<in> G" for u v ch by (rule D(2) [OF that])
  show "cells (ws_events st') ch \<noteq> None" if "(u, ch) \<in> G" for u ch by (rule cells [OF D(3) [OF that]])
  show "(r, u) \<in> J" if "in_room st' r u" for r u by (rule D(4) [OF rooms [OF that]])
  show "set (buffered (ws_events st') ch) \<subseteq> room_payloads L J u" if "(u, ch) \<in> G" for u ch
    using buf D(5) [OF that] by blast
qed

lemma mark_closed_allocated: "cells ev ch \<noteq> None \<Longrightarrow> cells (mark_closed A ev) ch \<noteq> None"
  by simp

lemma history_ok_deliver:
  assumes ok: "history_ok G J L st" and m: "m \<in> messages_on L (room_channel r)"
  shows "history_ok G J L (st\<lparr>ws_events := offer_to (room_chans st r) (m_payload m) (ws_events st)\<rparr>)"
proof -
  note D = history_okD [OF ok]
  let ?ev = "offer_to (room_chans st r) (m_payload m) (ws_events st)"
  have "set (buffered ?ev ch) \<subseteq> room_payloads L J u" if G: "(u, ch) \<in> G" for u ch
  proof (cases "ch \<in> room_chans st r")
    case True
    then obtain v c where v: "in_room st r v" "gm_get (ws_clients st) v = Some c" "cl_send c = ch"
      by (auto simp: room_chans_def)
    then have "v = u" using D(1) [OF v(2)] D(2) [OF _ G] by simp
    then have "m_payload m \<in> room_payloads L J u"
      using D(4) [OF v(1)] m unfolding room_payloads_def by blast
    with D(5) [OF G] buffered_offer_to_subset [of "room_chans st r" "m_payload m" "ws_events st" ch]
    show ?thesis by blast
  next
    case False
    with D(5) [OF G] show ?thesis by simp
  qed
  moreover have "cells ?ev ch \<noteq> None" if "(u, ch) \<in> G" for u ch using D(3) [OF that] by simp
  ultimately show ?thesis
    using D(1,2,4) unfolding history_ok_def by simp
qed

lemma history_ok_register:
  assumes ok: "history_ok G J L st" and chans: "ws_chans_ok st" and reg: "ws_register u st = Inr (ch, st')"
  shows "history_ok (insert (u, ch) G) J L st'"
proof -
  note D = history_okD [OF ok]
  obtain ch0 st0 where R: "ws_register u st = Inr (ch0, st0)" "ws_chans_ok st0"
    "ws_rooms st0 = ws_rooms st" "ws_users st0 = ws_users st"
    "ws_clients st0 = gm_put u \<lparr>cl_user = u, cl_send = ch0\<rparr> (ws_clients st)"
    "ws_events st0 = mark_closed (user_chan st u) (snd (make_chan 64 (ws_events st)))"
    "cells (ws_events st) ch0 = None" "fst (make_chan 64 (ws_events st)) = ch0"
    by (rule ws_register_ok [OF chans])
  with reg have eq: "ch0 = ch" "st0 = st'" by auto
  note R = R [unfolded eq]
  obtain ev where mk: "make_chan 64 (ws_events st) = (ch, ev)" using R(8) by (metis prod.collapse)
  note ev = cells_make_chan [OF mk]
  have new: "(v, ch) \<notin> G" for v using D(3) R(7) by blast
  have rooms: "in_room st' = in_room st" by (rule in_room_cong [OF R(3)])
  have cells: "cells (ws_events st') c \<noteq> None" if "c = ch \<or> cells (ws_events st) c \<noteq> None" for c
    using that R(6) mk ev by auto
  have buf: "buffered (ws_events st') c = (if c = ch then [] else buffered (ws_events st) c)" for c
  proof -
    have "buffered (ws_events st') c = buffered ev c" using R(6) mk by simp
    then show ?thesis by (simp add: buffered_def ev)
  qed
  show ?thesis
    unfolding history_ok_def
  proof (intro conjI allI impI)
    show "(v, cl_send c) \<in> insert (u, ch) G" if "gm_get (ws_clients st') v = Some c" for v c
      using that R(5) D(1) [of v c] by (auto split: if_splits)
    show "v = w" if "(v, c) \<in> insert (u, ch) G" "(w, c) \<in> insert (u, ch) G" for v w c
      using that new D(2) [of v c w] by auto
    show "cells (ws_events st') c \<noteq> None" if "(v, c) \<in> insert (u, ch) G" for v c
      using that cells D(3) [of v c] by auto
    show "(r, v) \<in> J" if "in_room st' r v" for r v using D(4) that rooms by simp
    show "set (buffered (ws_events st') c) \<subseteq> room_payloads L J v" if "(v, c) \<in> insert (u, ch) G" for v c
      using that D(5) [of v c] by (auto simp: buf)
  qed
qed

context pubsub_bus begin

definition cg_inv :: "'b chat_gateway \<Rightarrow> bool" where
  "cg_inv g \<longleftrightarrow> chat_inv (cg_arrived g) (cg_hub g) \<and>
     history_ok (cg_given g) (cg_joined g) (cg_arrived g) (ct_store (cg_hub g))"

lemma cg_invD:
  assumes "cg_inv g"
  shows "chat_inv (cg_arrived g) (cg_hub g)"
    and "history_ok (cg_given g) (cg_joined g) (cg_arrived g) (ct_store (cg_hub g))"
  using assms by (auto simp: cg_inv_def)

lemma new_chat_gateway_inv: "binv bus \<Longrightarrow> live bus = {} \<Longrightarrow> cg_inv (new_chat_gateway bus)"
  using new_chat_inv by (simp add: cg_inv_def new_chat_gateway_def history_ok_def)
    (simp add: new_chat_hub_def new_ws_store_def in_room_def)

lemma client_registers_ok:
  assumes inv: "cg_inv g"
  shows "\<exists>g'. client_registers u g = Inr g' \<and> cg_inv g'"
proof -
  note D = cg_invD [OF inv]
  note H = chat_invD [OF D(1)]
  obtain ch st where R: "ws_register u (ct_store (cg_hub g)) = Inr (ch, st)" "ws_chans_ok st"
    "ws_rooms st = ws_rooms (ct_store (cg_hub g))" "ws_users st = ws_users (ct_store (cg_hub g))"
    by (rule ws_register_ok [OF H(3)])
  have "ws_wf st" by (rule iffD2 [OF ws_wf_cong H(4)]) (rule R)+
  then have "chat_inv (cg_arrived g) ((cg_hub g)\<lparr>ct_store := st\<rparr>)"
    by (rule chat_store_inv [OF D(1) _ R(2) in_room_cong [OF R(3)]])
  with R(1) history_ok_register [OF D(2) H(3) R(1)] show ?thesis
    by (simp add: client_registers_def on_store_def cg_inv_def)
qed

lemma client_unregisters_ok:
  assumes inv: "cg_inv g"
  shows "\<exists>g'. sum_map (\<lambda>st. on_store (\<lambda>_. st) g) (ws_unregister u (ct_store (cg_hub g))) = Inr g' \<and> cg_inv g'"
proof -
  note D = cg_invD [OF inv]
  note H = chat_invD [OF D(1)]
  let ?st = "ct_store (cg_hub g)"
  let ?st' = "?st\<lparr>ws_clients := gm_del u (ws_clients ?st), ws_events := mark_closed (user_chan ?st u) (ws_events ?st)\<rparr>"
  note un = ws_unregister_ok [OF H(3), of u]
  have "chat_inv (cg_arrived g) ((cg_hub g)\<lparr>ct_store := ?st'\<rparr>)"
    by (rule chat_store_inv [OF D(1) _ un(2)]) (simp_all add: H(4))
  moreover have "history_ok (cg_given g) (cg_joined g) (cg_arrived g) ?st'"
    by (rule history_ok_shrink [OF D(2)]) (auto split: if_splits)
  ultimately show ?thesis using un(1) by (simp add: on_store_def cg_inv_def)
qed

lemma client_joins_ok:
  assumes inv: "cg_inv g"
  shows "\<exists>g'. client_joins P r u g = Inr g' \<and> cg_inv g'"
proof -
  note D = cg_invD [OF inv]
  show ?thesis
  proof (rule chat_join_cases [OF D(1), of r u], goal_cases)
    case 1
    have "history_ok (cg_given g) (insert (r, u) (cg_joined g)) (cg_arrived g) (ct_store (cg_hub g))"
      by (rule history_ok_mono [OF D(2)]) auto
    with 1 D show ?case by (simp add: client_joins_def cg_inv_def)
  next
    case (2 err h')
    have "history_ok (cg_given g) (cg_joined g) (cg_arrived g) (ct_store h')"
      by (rule history_ok_shrink [OF D(2)]) (simp_all add: 2)
    with 2 show ?case by (simp add: client_joins_def cg_inv_def)
  next
    case (3 h')
    let ?J = "insert (r, u) (cg_joined g)"
    have J: "history_ok (cg_given g) ?J (cg_arrived g) (ct_store (cg_hub g))"
      by (rule history_ok_mono [OF D(2)]) auto
    have room: "in_room (ct_store h') r' u' \<longleftrightarrow> in_room (ct_store (cg_hub g)) r' u' \<or> (r' = r \<and> u' = u)" for r' u'
      using ws_join_iff(2) [OF chat_invD(4) [OF D(1)]] 3(3,4) by simp
    have "history_ok (cg_given g) ?J (cg_arrived g) (ct_store h')"
      by (rule history_ok_rooms [OF J]) (use 3(3) room history_okD(4) [OF J] in \<open>auto\<close>)
    with 3 show ?case by (simp add: client_joins_def cg_inv_def)
  qed
qed

lemma client_leaves_ok:
  assumes inv: "cg_inv g"
  shows "\<exists>g'. sum_map (\<lambda>h. g\<lparr>cg_hub := h\<rparr>) (chat_leave_room P r u (cg_hub g)) = Inr g' \<and> cg_inv g'"
proof -
  note D = cg_invD [OF inv]
  obtain h' where h': "chat_leave_room P r u (cg_hub g) = Inr h'" "chat_inv (cg_arrived g) h'"
    "ct_store h' = snd (ws_leave_room r u (ct_store (cg_hub g)))"
    by (rule chat_leave_cases [OF D(1)])
  have "history_ok (cg_given g) (cg_joined g) (cg_arrived g) (ct_store h')"
    by (rule history_ok_shrink [OF D(2)]) (simp_all add: h'(3) ws_leave_iff(2) [OF chat_invD(4) [OF D(1)]])
  with h' show ?thesis by (simp add: cg_inv_def)
qed

lemma client_leaves_all_ok:
  assumes inv: "cg_inv g"
  shows "\<exists>g'. sum_map (\<lambda>h. g\<lparr>cg_hub := h\<rparr>) (chat_leave_all P u (cg_hub g)) = Inr g' \<and> cg_inv g'"
proof -
  note D = cg_invD [OF inv]
  obtain h' where h': "chat_leave_all P u (cg_hub g) = Inr h'" "chat_inv (cg_arrived g) h'"
    "ws_clients (ct_store h') = ws_clients (ct_store (cg_hub g))"
    "ws_events (ct_store h') = ws_events (ct_store (cg_hub g))"
    "\<And>r v. in_room (ct_store h') r v \<Longrightarrow> in_room (ct_store (cg_hub g)) r v"
    using leave_rooms_ok [OF D(1), of "ws_rooms_for_user u (ct_store (cg_hub g))" u]
    unfolding chat_leave_all_def by blast
  have "history_ok (cg_given g) (cg_joined g) (cg_arrived g) (ct_store h')"
    by (rule history_ok_shrink [OF D(2)]) (simp_all add: h'(3-5))
  with h'(1,2) show ?thesis by (simp add: cg_inv_def)
qed

lemma client_reads_ok:
  assumes inv: "cg_inv g"
  shows "cg_inv (snd (client_reads ch g))"
proof -
  note D = cg_invD [OF inv]
  note H = chat_invD [OF D(1)]
  obtain got ev where read: "recv_chan ch (ws_events (ct_store (cg_hub g))) = (got, ev)" by fastforce
  let ?st = "(ct_store (cg_hub g))\<lparr>ws_events := ev\<rparr>"
  have "chat_inv (cg_arrived g) ((cg_hub g)\<lparr>ct_store := ?st\<rparr>)"
    by (rule chat_store_inv [OF D(1) _ ws_chans_ok_recv [OF H(3) read]]) (simp_all add: H(4))
  moreover have "dom (cells ev) = dom (cells (ws_events (ct_store (cg_hub g))))" by (rule recv_dom [OF read])
  then have "history_ok (cg_given g) (cg_joined g) (cg_arrived g) ?st"
    using recv_buffered_subset [OF read] by (intro history_ok_shrink [OF D(2)]) (auto simp: dom_def set_eq_iff)
  ultimately show ?thesis by (simp add: client_reads_def read on_store_def cg_inv_def)
qed

lemma chat_bridges_ok:
  assumes inv: "cg_inv g" and br: "br \<in> set (ct_bridges (cg_hub g))"
  shows "\<exists>g'. sum_map (\<lambda>h. g\<lparr>cg_hub := h\<rparr>) (chat_bridge_step P br cs (cg_hub g)) = Inr g' \<and> cg_inv g'"
proof -
  note D = cg_invD [OF inv]
  show ?thesis
  proof (rule chat_bridge_cases [OF D(1) br, of cs], goal_cases)
    case (1 h')
    have "history_ok (cg_given g) (cg_joined g) (cg_arrived g) (ct_store h')"
      using 1(4) D(2) history_ok_deliver [OF D(2)] by auto
    with 1 show ?case by (simp add: cg_inv_def)
  qed
qed

lemma chat_arrives_ok:
  assumes inv: "cg_inv g"
  shows "\<exists>g'. sum_map (\<lambda>bus. g\<lparr>cg_hub := (cg_hub g)\<lparr>ct_bus := bus\<rparr>, cg_arrived := insert m (cg_arrived g)\<rparr>)
      (arrive m (ct_bus (cg_hub g))) = Inr g' \<and> cg_inv g'"
proof -
  note D = cg_invD [OF inv]
  obtain bus where "arrive m (ct_bus (cg_hub g)) = Inr bus"
    "chat_inv (insert m (cg_arrived g)) ((cg_hub g)\<lparr>ct_bus := bus\<rparr>)"
    by (rule chat_arrive [OF D(1)])
  moreover have "history_ok (cg_given g) (cg_joined g) (insert m (cg_arrived g)) (ct_store (cg_hub g))"
    by (rule history_ok_mono [OF D(2)]) auto
  ultimately show ?thesis by (simp add: cg_inv_def)
qed

lemma chat_closes_ok:
  assumes inv: "cg_inv g"
  shows "\<exists>g'. sum_map (\<lambda>h. g\<lparr>cg_hub := h\<rparr>) (chat_close P (cg_hub g)) = Inr g' \<and> cg_inv g'"
proof -
  note D = cg_invD [OF inv]
  obtain h' where h': "chat_close P (cg_hub g) = Inr h'" "chat_inv (cg_arrived g) h'"
    "ct_store h' = new_ws_store\<lparr>ws_events :=
       mark_closed (\<Union>u. user_chan (ct_store (cg_hub g)) u) (ws_events (ct_store (cg_hub g)))\<rparr>"
    by (rule chat_close_ok [OF D(1)])
  have "history_ok (cg_given g) (cg_joined g) (cg_arrived g) (ct_store h')"
    by (rule history_ok_shrink [OF D(2)]) (simp_all add: h'(3) new_ws_store_def in_room_def)
  with h'(1,2) show ?thesis by (simp add: cg_inv_def)
qed

theorem chat_step_ok:
  assumes "chat_step P arrive g r" and "cg_inv g"
  shows "\<exists>g'. r = Inr g' \<and> cg_inv g'"
  using assms
proof cases
  case (registers u)
  with client_registers_ok [OF assms(2)] show ?thesis by blast
next
  case (unregisters u)
  with client_unregisters_ok [OF assms(2)] show ?thesis by blast
next
  case (joins r' u)
  with client_joins_ok [OF assms(2)] show ?thesis by blast
next
  case (leaves r' u)
  with client_leaves_ok [OF assms(2)] show ?thesis by blast
next
  case (leaves_all u)
  with client_leaves_all_ok [OF assms(2)] show ?thesis by blast
next
  case (reads ch)
  with client_reads_ok [OF assms(2)] show ?thesis by blast
next
  case (bridges br cs)
  with chat_bridges_ok [OF assms(2)] show ?thesis by blast
next
  case (arrives m)
  with chat_arrives_ok [OF assms(2)] show ?thesis by blast
next
  case closes
  with chat_closes_ok [OF assms(2)] show ?thesis by blast
qed

lemma chat_reach_inv:
  assumes "chat_reach P arrive (new_chat_gateway bus) g" and "binv bus" and "live bus = {}"
  shows "cg_inv g"
  using assms(1)
proof induction
  case start
  show ?case by (rule new_chat_gateway_inv [OF assms(2,3)])
next
  case (step g1 g2)
  with chat_step_ok show ?case by blast
qed

text \<open>What the invariant says about a gateway, for any bus.\<close>

lemma cg_rooms:
  assumes inv: "cg_inv g"
  shows "refs_of (ct_rooms (cg_hub g)) r = int (card (room_members (ct_store (cg_hub g)) r))"
    and "gm_get (ct_rooms (cg_hub g)) r \<noteq> None \<longleftrightarrow> room_members (ct_store (cg_hub g)) r \<noteq> {}"
    and "(c, ch) \<in> live (ct_bus (cg_hub g)) \<longleftrightarrow>
      (\<exists>r e. c = room_channel r \<and> gm_get (ct_rooms (cg_hub g)) r = Some e \<and> ch = en_redis e)"
    and "binv (ct_bus (cg_hub g))"
proof -
  note D = chat_invD [OF cg_invD(1) [OF inv]]
  note C = rooms.countedD [OF D(2)]
  show "refs_of (ct_rooms (cg_hub g)) r = int (card (room_members (ct_store (cg_hub g)) r))"
    using C(3) rooms.count_card [OF D(4)] by simp
  show "gm_get (ct_rooms (cg_hub g)) r \<noteq> None \<longleftrightarrow> room_members (ct_store (cg_hub g)) r \<noteq> {}"
    using C(6) [of r] by simp
  show "(c, ch) \<in> live (ct_bus (cg_hub g)) \<longleftrightarrow>
      (\<exists>r e. c = room_channel r \<and> gm_get (ct_rooms (cg_hub g)) r = Some e \<and> ch = en_redis e)"
    using bus_okD(3) [OF D(1)] by (auto simp: subscribed_to_def)
  show "binv (ct_bus (cg_hub g))" by (rule bus_okD(1) [OF D(1)])
qed

lemma cg_isolated:
  assumes inv: "cg_inv g" and given: "(u, ch) \<in> cg_given g" and read: "client_reads ch g = (Received e, g')"
  shows "\<exists>m\<in>cg_arrived g. \<exists>r. (r, u) \<in> cg_joined g \<and> m_channel m = room_channel r \<and> m_payload m = e"
proof -
  obtain ev where "recv_chan ch (ws_events (ct_store (cg_hub g))) = (Received e, ev)"
    using read by (auto simp: client_reads_def split: prod.splits)
  from recv_chan_Received [OF this] have "e \<in> set (buffered (ws_events (ct_store (cg_hub g))) ch)" by simp
  then have "e \<in> room_payloads (cg_arrived g) (cg_joined g) u"
    using history_okD(5) [OF cg_invD(2) [OF inv] given] by blast
  then show ?thesis unfolding room_payloads_def messages_on_def by blast
qed

lemma cg_join:
  assumes inv: "cg_inv g"
  shows "\<exists>res h'. chat_join_room P r u (cg_hub g) = Inr (res, h') \<and>
    (\<forall>r' u'. in_room (ct_store h') r' u' \<longleftrightarrow> in_room (ct_store (cg_hub g)) r' u' \<or>
       (res = None \<and> ws_registered (ct_store (cg_hub g)) u \<and> r' = r \<and> u' = u)) \<and>
    (res \<noteq> None \<longrightarrow> ct_rooms h' = ct_rooms (cg_hub g)) \<and>
    (\<not> ws_registered (ct_store (cg_hub g)) u \<longrightarrow> res = None \<and> h' = cg_hub g)"
proof (rule chat_join_cases [OF cg_invD(1) [OF inv], of r u], goal_cases)
  case 1
  then show ?case by auto
next
  case (2 err h')
  have "ws_registered (ct_store (cg_hub g)) u"
  proof (rule ccontr)
    assume "\<not> ?thesis"
    then have "chat_join_room P r u (cg_hub g) = Inr (None, cg_hub g)"
      by (simp add: chat_join_room_def ws_join_room_def ws_registered_def)
    with 2(1) show False by simp
  qed
  with 2 show ?case by auto
next
  case (3 h')
  then show ?case
    using ws_join_iff(2) [OF chat_invD(4) [OF cg_invD(1) [OF inv]]] by auto
qed

lemma cg_leave_all:
  assumes inv: "cg_inv g"
  shows "\<exists>h'. chat_leave_all P u (cg_hub g) = Inr h' \<and>
    (\<forall>r v. in_room (ct_store h') r v \<longleftrightarrow> in_room (ct_store (cg_hub g)) r v \<and> v \<noteq> u)"
proof -
  note D = cg_invD(1) [OF inv]
  have "set (ws_rooms_for_user u (ct_store (cg_hub g))) = {r. in_room (ct_store (cg_hub g)) r u}"
    by (rule ws_rooms_for_user_iff(1) [OF chat_invD(4) [OF D]])
  with leave_rooms_ok [OF D, of "ws_rooms_for_user u (ct_store (cg_hub g))" u] show ?thesis
    unfolding chat_leave_all_def by (auto 4 3)
qed

lemma cg_bridge_delivers:
  assumes inv: "cg_inv g" and br: "br \<in> set (ct_bridges (cg_hub g))"
    and got: "ps_recv P (br_ch br) (ct_bus (cg_hub g)) = (Received m, bus)"
  shows "\<exists>h'. chat_bridge_step P br BridgeMessage (cg_hub g) = Inr h' \<and>
    m_channel m = room_channel (br_key br) \<and> in_room (ct_store h') = in_room (ct_store (cg_hub g)) \<and>
    (\<forall>u c. gm_get (ws_clients (ct_store (cg_hub g))) u = Some c \<longrightarrow>
       buffered (ws_events (ct_store h')) (cl_send c) =
       (if in_room (ct_store (cg_hub g)) (br_key br) u \<and>
           length (buffered (ws_events (ct_store (cg_hub g))) (cl_send c)) < 64
        then buffered (ws_events (ct_store (cg_hub g))) (cl_send c) @ [m_payload m]
        else buffered (ws_events (ct_store (cg_hub g))) (cl_send c)))"
proof -
  note D = chat_invD [OF cg_invD(1) [OF inv]]
  let ?st = "ct_store (cg_hub g)"
  let ?st' = "?st\<lparr>ws_events := offer_to (room_chans ?st (br_key br)) (m_payload m) (ws_events ?st)\<rparr>"
  have "buffered (ws_events ?st') (cl_send c) =
      (if in_room ?st (br_key br) u \<and> length (buffered (ws_events ?st) (cl_send c)) < 64
       then buffered (ws_events ?st) (cl_send c) @ [m_payload m] else buffered (ws_events ?st) (cl_send c))"
    if "gm_get (ws_clients ?st) u = Some c" for u c
    using buffered_offer [OF ws_chans_okD(4) [OF D(3) that]] room_chans_client [OF D(3) that] by simp
  moreover have "chat_bridge_step P br BridgeMessage (cg_hub g) = Inr ((cg_hub g)\<lparr>ct_bus := bus, ct_store := ?st'\<rparr>)"
    using got ws_deliver_ok [OF D(4,3)] by (simp add: chat_bridge_step_def)
  moreover have "m_channel m = room_channel (br_key br)"
    using bus_ok_recv(2) [OF D(1) br got] by (simp add: messages_on_def)
  ultimately show ?thesis by simp
qed

lemma cg_close:
  assumes inv: "cg_inv g"
  shows "\<exists>h'. chat_close P (cg_hub g) = Inr h' \<and> ct_rooms h' = [] \<and> live (ct_bus h') = {} \<and>
    ws_clients (ct_store h') = [] \<and> (\<forall>r u. \<not> in_room (ct_store h') r u) \<and>
    (\<forall>u c. gm_get (ws_clients (ct_store (cg_hub g))) u = Some c \<longrightarrow>
       fst (recv_chan (cl_send c) (ws_events (ct_store h'))) =
         (case buffered (ws_events (ct_store (cg_hub g))) (cl_send c) of [] \<Rightarrow> Drained | e # _ \<Rightarrow> Received e))"
proof -
  note D = cg_invD(1) [OF inv]
  let ?st = "ct_store (cg_hub g)"
  obtain h' where h': "chat_close P (cg_hub g) = Inr h'" "chat_inv (cg_arrived g) h'" "ct_rooms h' = []"
    "ct_store h' = new_ws_store\<lparr>ws_events := mark_closed (\<Union>u. user_chan ?st u) (ws_events ?st)\<rparr>"
    by (rule chat_close_ok [OF D])
  have "live (ct_bus h') = {}" using bus_okD(3) [OF chat_invD(1) [OF h'(2)]] h'(3) by simp
  moreover have "fst (recv_chan (cl_send c) (ws_events (ct_store h'))) =
      (case buffered (ws_events ?st) (cl_send c) of [] \<Rightarrow> Drained | e # _ \<Rightarrow> Received e)"
    if c: "gm_get (ws_clients ?st) u = Some c" for u c
  proof -
    obtain cell where "cells (ws_events ?st) (cl_send c) = Some cell"
      using ws_chans_okD(3) [OF chat_invD(3) [OF D] c] by (auto simp: is_open_def)
    moreover have "cl_send c \<in> (\<Union>u. user_chan ?st u)" using c by auto
    ultimately show ?thesis
      by (simp del: UN_iff add: h'(4) recv_chan_def buffered_def split: list.splits)
  qed
  ultimately show ?thesis
    using h' by (intro exI [of _ h']) (simp add: new_ws_store_def in_room_def)
qed

end

subsection \<open>Properties: the chat over the Redis bus\<close>

abbreviation ws_chat_step ::
    "'r redis_client \<Rightarrow> 'r redis_bus chat_gateway \<Rightarrow> (panic + 'r redis_bus chat_gateway) \<Rightarrow> bool" where
  "ws_chat_step cl \<equiv> chat_step (redis_pubsub cl) reader_message"

abbreviation ws_chat_reach :: "'r redis_client \<Rightarrow> 'r \<Rightarrow> 'r redis_bus chat_gateway \<Rightarrow> bool" where
  "ws_chat_reach cl r \<equiv> chat_reach (redis_pubsub cl) reader_message (new_chat_gateway (new_redis r))"

lemma ws_chat_inv: "ws_chat_reach cl r g \<Longrightarrow> redis.cg_inv g"
  by (rule redis.chat_reach_inv [OF _ rb_inv_new]) (simp_all add: redis_live_def new_redis_def subs_of_def)

text \<open>A run for the witnesses: one user registers and joins room r; then a message arrives.\<close>

definition demo_chat_bus :: "string list redis_bus" where
  "demo_chat_bus =
     \<lparr>rb_subs = Some [(''room:r'', [0])], rb_ps = True, rb_closed = False, rb_done = Some False,
      rb_msgs = \<lparr>cells = [0 \<mapsto> \<lparr>ch_buf = [], ch_cap = 64, ch_closed = False\<rparr>], next_id = 1\<rparr>,
      rb_redis = [''room:r'']\<rparr>"

definition demo_chat :: "string list redis_bus chat_gateway" where
  "demo_chat =
     \<lparr>cg_hub = \<lparr>ct_bus = demo_chat_bus, ct_store = demo_ws,
        ct_rooms = [(''r'', \<lparr>en_refs = 1, en_redis = 0, en_ctx = 0\<rparr>)],
        ct_bridges = [\<lparr>br_ctx = 0, br_key = ''r'', br_ch = 0\<rparr>], ct_cancelled = [], ct_next = 1\<rparr>,
      cg_given = {(''u'', 0)}, cg_joined = {(''r'', ''u'')}, cg_arrived = {}\<rparr>"

lemma demo_chat_reach: "ws_chat_reach loopback_client [] demo_chat"
proof -
  let ?g0 = "new_chat_gateway (new_redis ([] :: string list))"
  let ?st = "demo_ws\<lparr>ws_rooms := [], ws_users := []\<rparr>"
  let ?g1 = "on_store (\<lambda>_. ?st) (?g0\<lparr>cg_given := {(''u'', 0)}\<rparr>)"
  have "client_registers ''u'' ?g0 = Inr ?g1"
    by (simp add: client_registers_def new_chat_gateway_def new_chat_hub_def ws_register_def new_ws_store_def
        make_chan_def empty_heap_def on_store_def demo_ws_def)
  then have "ws_chat_step loopback_client ?g0 (Inr ?g1)" by (metis chat_step.registers)
  then have reach: "ws_chat_reach loopback_client [] ?g1" by (rule chat_reach.step [OF chat_reach.start])
  have "client_joins (redis_pubsub loopback_client) ''r'' ''u'' ?g1 = Inr demo_chat"
    by (simp add: client_joins_def ws_registered_def on_store_def new_chat_gateway_def new_chat_hub_def chat_join_room_def
        ws_join_room_def sets_add_def demo_ws_def redis_pubsub_def redis_subscribe_def new_redis_def
        loopback_client_def subs_of_def ensure_reader_def add_consumer_def make_chan_def empty_heap_def
        sub_buffer_def room_channel_def demo_chat_def demo_chat_bus_def Let_def)
  then have "ws_chat_step loopback_client ?g1 (Inr demo_chat)" by (metis chat_step.joins)
  with reach show ?thesis by (rule chat_reach.step)
qed

definition demo_chat_message :: message where
  "demo_chat_message = \<lparr>m_channel = ''room:r'', m_payload = ''hi''\<rparr>"

definition demo_chat_arrived :: "string list redis_bus chat_gateway" where
  "demo_chat_arrived = demo_chat
     \<lparr>cg_hub := (cg_hub demo_chat)\<lparr>ct_bus := demo_chat_bus\<lparr>rb_msgs :=
        \<lparr>cells = [0 \<mapsto> \<lparr>ch_buf = [demo_chat_message], ch_cap = 64, ch_closed = False\<rparr>], next_id = 1\<rparr>\<rparr>\<rparr>,
      cg_arrived := {demo_chat_message}\<rparr>"

lemma demo_chat_arrived_reach: "ws_chat_reach loopback_client [] demo_chat_arrived"
proof (rule chat_reach.step [OF demo_chat_reach])
  have "Inr demo_chat_arrived =
      sum_map (\<lambda>bus. demo_chat\<lparr>cg_hub := (cg_hub demo_chat)\<lparr>ct_bus := bus\<rparr>,
          cg_arrived := insert demo_chat_message (cg_arrived demo_chat)\<rparr>)
        (reader_message demo_chat_message (ct_bus (cg_hub demo_chat)))"
    by (simp add: demo_chat_arrived_def demo_chat_def demo_chat_bus_def demo_chat_message_def
        reader_message_def redis_fan_out_def subs_of_def send_nb_def offer_def)
  then show "ws_chat_step loopback_client demo_chat (Inr demo_chat_arrived)"
    using chat_step.arrives by metis
qed

definition demo_chat_delivered :: "string list redis_bus chat_gateway" where
  "demo_chat_delivered = demo_chat_arrived
     \<lparr>cg_hub := (cg_hub demo_chat)\<lparr>ct_store := demo_ws\<lparr>ws_events :=
        \<lparr>cells = [0 \<mapsto> \<lparr>ch_buf = [''hi''], ch_cap = 64, ch_closed = False\<rparr>], next_id = 1\<rparr>\<rparr>\<rparr>\<rparr>"

lemma demo_chat_delivered_reach: "ws_chat_reach loopback_client [] demo_chat_delivered"
proof (rule chat_reach.step [OF demo_chat_arrived_reach])
  let ?br = "\<lparr>br_ctx = 0, br_key = ''r'', br_ch = 0\<rparr>"
  have "Inr demo_chat_delivered = sum_map (\<lambda>h. demo_chat_arrived\<lparr>cg_hub := h\<rparr>)
      (chat_bridge_step (redis_pubsub loopback_client) ?br BridgeMessage (cg_hub demo_chat_arrived))"
    by (simp add: demo_chat_delivered_def demo_chat_arrived_def demo_chat_def demo_chat_bus_def demo_ws_def
        demo_chat_message_def chat_bridge_step_def redis_pubsub_def redis_recv_def recv_chan_def
        ws_deliver_to_room_def send_nb_def offer_def)
  moreover have "?br \<in> set (ct_bridges (cg_hub demo_chat_arrived))"
    by (simp add: demo_chat_arrived_def demo_chat_def)
  ultimately show "ws_chat_step loopback_client demo_chat_arrived (Inr demo_chat_delivered)"
    using chat_step.bridges by metis
qed

text \<open>
  C7. No step of the chat panics, in any interleaving and with any arguments: users may register
  twice, join rooms before registering, leave rooms they are not in, and \<^verbatim>\<open>Close\<close> may come at any
  time and more than once.
\<close>

theorem chat_never_panics:
  assumes "ws_chat_reach cl r g" and "ws_chat_step cl g res"
  shows "\<exists>g'. res = Inr g'"
  using redis.chat_step_ok [OF assms(2) ws_chat_inv [OF assms(1)]] by blast

theorem chat_never_panics_witness:
  "\<exists>g'. sum_map (\<lambda>h. demo_chat\<lparr>cg_hub := h\<rparr>) (chat_close (redis_pubsub loopback_client) (cg_hub demo_chat)) = Inr g'"
  by (rule chat_never_panics [OF demo_chat_reach chat_step.closes])

text \<open>
  C8. Rooms and subscriptions. At any moment the reference count of a room is the number of its
  members, and the bus has exactly one consumer on the channel of each room that has a member
  and none on any other channel.
\<close>

theorem chat_one_subscription:
  assumes "ws_chat_reach cl r g"
  shows "refs_of (ct_rooms (cg_hub g)) q = int (card (room_members (ct_store (cg_hub g)) q)) \<and>
    length (subs_of (ct_bus (cg_hub g)) c) =
      (if \<exists>q. c = room_channel q \<and> room_members (ct_store (cg_hub g)) q \<noteq> {} then 1 else 0)"
proof
  note R = redis.cg_rooms [OF ws_chat_inv [OF assms]]
  show "refs_of (ct_rooms (cg_hub g)) q = int (card (room_members (ct_store (cg_hub g)) q))" by (rule R(1))
  let ?subs = "subs_of (ct_bus (cg_hub g)) c"
  have dist: "distinct ?subs" using subs_okD(1) [OF rb_invD(2) [OF R(4)]] by blast
  have set: "set ?subs = {en_redis e | q e. c = room_channel q \<and> gm_get (ct_rooms (cg_hub g)) q = Some e}"
    using R(3) [of c] by auto
  show "length ?subs = (if \<exists>q. c = room_channel q \<and> room_members (ct_store (cg_hub g)) q \<noteq> {} then 1 else 0)"
  proof (cases "\<exists>q. c = room_channel q \<and> room_members (ct_store (cg_hub g)) q \<noteq> {}")
    case True
    then obtain q e where q: "c = room_channel q" "gm_get (ct_rooms (cg_hub g)) q = Some e" using R(2) by blast
    then have "set ?subs = {en_redis e}" unfolding set by auto
    with dist have "length ?subs = 1" using distinct_card by fastforce
    with True show ?thesis by simp
  next
    case False
    then have "gm_get (ct_rooms (cg_hub g)) q = None" if "c = room_channel q" for q using R(2) that by blast
    then have "set ?subs = {}" unfolding set by force
    with False show ?thesis by simp
  qed
qed

theorem chat_one_subscription_witness: "length (subs_of demo_chat_bus ''room:r'') = 1"
proof -
  have "''room:r'' = room_channel ''r''" "ct_bus (cg_hub demo_chat) = demo_chat_bus"
    "''u'' \<in> room_members (ct_store (cg_hub demo_chat)) ''r''"
    by (simp_all add: demo_chat_def demo_ws_def in_room_def in_sets_def room_channel_def)
  with chat_one_subscription [OF demo_chat_reach, of _ "''room:r''"] show ?thesis by (metis empty_iff)
qed



text \<open>
  Joining. \<^verbatim>\<open>JoinRoom\<close> makes a registered user a member, or returns the bus's error and leaves
  all memberships and entries as they were. For a user without a connection it returns nil and
  does nothing at all, so its caller cannot tell this from success.
\<close>

theorem chat_join_outcome:
  assumes "ws_chat_reach cl r g"
  shows "\<exists>res h'. chat_join_room (redis_pubsub cl) q u (cg_hub g) = Inr (res, h') \<and>
    (\<forall>q' u'. in_room (ct_store h') q' u' \<longleftrightarrow> in_room (ct_store (cg_hub g)) q' u' \<or>
       (res = None \<and> ws_registered (ct_store (cg_hub g)) u \<and> q' = q \<and> u' = u)) \<and>
    (res \<noteq> None \<longrightarrow> ct_rooms h' = ct_rooms (cg_hub g)) \<and>
    (\<not> ws_registered (ct_store (cg_hub g)) u \<longrightarrow> res = None \<and> h' = cg_hub g)"
  by (rule redis.cg_join [OF ws_chat_inv [OF assms]])

theorem chat_join_outcome_witness:
  "chat_join_room (redis_pubsub loopback_client) ''r'' ''nobody'' (cg_hub demo_chat) = Inr (None, cg_hub demo_chat)"
proof -
  have "\<not> ws_registered (ct_store (cg_hub demo_chat)) ''nobody''"
    by (simp add: ws_registered_def demo_chat_def demo_ws_def)
  with chat_join_outcome [OF demo_chat_reach, of "''r''" "''nobody''"] show ?thesis by auto
qed

text \<open>
  \<^verbatim>\<open>LeaveAllForUser\<close> takes the user out of every room and changes no other membership.
\<close>

theorem chat_leave_all_complete:
  assumes "ws_chat_reach cl r g"
  shows "\<exists>h'. chat_leave_all (redis_pubsub cl) u (cg_hub g) = Inr h' \<and>
    (\<forall>q v. in_room (ct_store h') q v \<longleftrightarrow> in_room (ct_store (cg_hub g)) q v \<and> v \<noteq> u)"
  by (rule redis.cg_leave_all [OF ws_chat_inv [OF assms]])

theorem chat_leave_all_complete_witness:
  "\<exists>h'. chat_leave_all (redis_pubsub loopback_client) ''u'' (cg_hub demo_chat) = Inr h' \<and>
     \<not> in_room (ct_store h') ''r'' ''u''"
  using chat_leave_all_complete [OF demo_chat_reach, of "''u''"] by auto

text \<open>
  Delivery. When the bridge of a room takes a message from its Redis channel, the message was
  one for that room, and its payload is appended to the channel of every connected member that
  has room for it and to no other connected client's channel.
\<close>

theorem chat_bridge_delivers:
  assumes "ws_chat_reach cl r g" and "br \<in> set (ct_bridges (cg_hub g))"
    and "redis_recv (br_ch br) (ct_bus (cg_hub g)) = (Received m, bus)"
  shows "\<exists>h'. chat_bridge_step (redis_pubsub cl) br BridgeMessage (cg_hub g) = Inr h' \<and>
    m_channel m = room_channel (br_key br) \<and> in_room (ct_store h') = in_room (ct_store (cg_hub g)) \<and>
    (\<forall>u c. gm_get (ws_clients (ct_store (cg_hub g))) u = Some c \<longrightarrow>
       buffered (ws_events (ct_store h')) (cl_send c) =
       (if in_room (ct_store (cg_hub g)) (br_key br) u \<and>
           length (buffered (ws_events (ct_store (cg_hub g))) (cl_send c)) < 64
        then buffered (ws_events (ct_store (cg_hub g))) (cl_send c) @ [m_payload m]
        else buffered (ws_events (ct_store (cg_hub g))) (cl_send c)))"
  using redis.cg_bridge_delivers [OF ws_chat_inv [OF assms(1)] assms(2), where cl = cl] assms(3)
  by (simp add: redis_pubsub_def)

theorem chat_bridge_delivers_witness:
  "\<exists>h'. chat_bridge_step (redis_pubsub loopback_client) \<lparr>br_ctx = 0, br_key = ''r'', br_ch = 0\<rparr> BridgeMessage
      (cg_hub demo_chat_arrived) = Inr h' \<and> buffered (ws_events (ct_store h')) 0 = [''hi'']"
proof -
  let ?br = "\<lparr>br_ctx = 0, br_key = ''r'', br_ch = 0\<rparr>"
  have "?br \<in> set (ct_bridges (cg_hub demo_chat_arrived))"
    "gm_get (ws_clients (ct_store (cg_hub demo_chat_arrived))) ''u'' = Some \<lparr>cl_user = ''u'', cl_send = 0\<rparr>"
    "in_room (ct_store (cg_hub demo_chat_arrived)) (br_key ?br) ''u''"
    "buffered (ws_events (ct_store (cg_hub demo_chat_arrived))) 0 = []" "m_payload demo_chat_message = ''hi''"
    by (simp_all add: demo_chat_arrived_def demo_chat_def demo_ws_def in_room_def in_sets_def buffered_def
        demo_chat_message_def)
  moreover have "\<exists>bus. redis_recv (br_ch ?br) (ct_bus (cg_hub demo_chat_arrived)) = (Received demo_chat_message, bus)"
    by (simp add: demo_chat_arrived_def redis_recv_def recv_chan_def)
  ultimately show ?thesis
    using chat_bridge_delivers [OF demo_chat_arrived_reach, of ?br demo_chat_message] by fastforce
qed

text \<open>
  Shutdown. \<^verbatim>\<open>Close\<close> empties the rooms and the clients, drops every Redis subscription, and no
  handler waits afterwards: a client's channel yields what it still holds and then its end.
\<close>

theorem chat_shutdown:
  assumes "ws_chat_reach cl r g"
  shows "\<exists>h'. chat_close (redis_pubsub cl) (cg_hub g) = Inr h' \<and> ct_rooms h' = [] \<and>
    (\<forall>c. subs_of (ct_bus h') c = []) \<and>
    ws_clients (ct_store h') = [] \<and> (\<forall>q u. \<not> in_room (ct_store h') q u) \<and>
    (\<forall>u c. gm_get (ws_clients (ct_store (cg_hub g))) u = Some c \<longrightarrow>
       fst (recv_chan (cl_send c) (ws_events (ct_store h'))) =
         (case buffered (ws_events (ct_store (cg_hub g))) (cl_send c) of [] \<Rightarrow> Drained | e # _ \<Rightarrow> Received e))"
proof -
  have "live = {} \<longleftrightarrow> (\<forall>c. subs_of b c = [])" if "live = redis_live b" for live and b :: "'a redis_bus"
    using that by (auto simp: redis_live_def)
  then show ?thesis using redis.cg_close [OF ws_chat_inv [OF assms], of cl] by simp
qed

theorem chat_shutdown_witness:
  "\<exists>h'. chat_close (redis_pubsub loopback_client) (cg_hub demo_chat_delivered) = Inr h' \<and>
     fst (recv_chan 0 (ws_events (ct_store h'))) = Received ''hi''"
proof -
  have "gm_get (ws_clients (ct_store (cg_hub demo_chat_delivered))) ''u'' = Some \<lparr>cl_user = ''u'', cl_send = 0\<rparr>"
    "buffered (ws_events (ct_store (cg_hub demo_chat_delivered))) 0 = [''hi'']"
    by (simp_all add: demo_chat_delivered_def demo_ws_def buffered_def)
  with chat_shutdown [OF demo_chat_delivered_reach] show ?thesis by fastforce
qed

end
