(* ===== verification/GoStrings.thy ===== *)
theory GoStrings
  imports Prelude "HOL-Library.Sublist" "HOL-Library.Char_ord"
begin

text \<open>
  What the program uses of Go's package \<^verbatim>\<open>strings\<close>, on byte strings. A Go string is a sequence
  of bytes, here a \<open>string\<close> (a list of 8-bit characters).

  \<open>str_index\<close> is \<^verbatim>\<open>strings.Index\<close> with \<open>None\<close> for -1; \<open>str_contains\<close> is \<^verbatim>\<open>strings.Contains\<close>;
  \<open>trim_space\<close> is \<^verbatim>\<open>strings.TrimSpace\<close>, which strips the UTF-8 encodings of all Unicode spaces;
  \<open>to_lower\<close> maps the ASCII letters, which is all \<^verbatim>\<open>strings.ToLower\<close> and \<^verbatim>\<open>strings.EqualFold\<close> do on
  ASCII text.
\<close>

subsection \<open>Searching\<close>

fun str_index :: "string \<Rightarrow> string \<Rightarrow> nat option" where
  "str_index [] sub = (if sub = [] then Some 0 else None)"
| "str_index (c # cs) sub = (if prefix sub (c # cs) then Some 0 else map_option Suc (str_index cs sub))"

definition str_contains :: "string \<Rightarrow> string \<Rightarrow> bool" where
  "str_contains s sub = (str_index s sub \<noteq> None)"

lemma str_index_Some:
  "str_index s sub = Some i \<Longrightarrow> i \<le> length s \<and> prefix sub (drop i s)"
  by (induction s sub arbitrary: i rule: str_index.induct) (auto split: if_splits)

lemma str_index_split:
  assumes "str_index s sub = Some i"
  shows "s = take i s @ sub @ drop (i + length sub) s"
proof -
  obtain rest where "drop i s = sub @ rest"
    using str_index_Some [OF assms] by (auto simp: prefix_def)
  moreover from this have "rest = drop (i + length sub) s"
    by (metis append_eq_conv_conj drop_drop add.commute)
  ultimately show ?thesis by (metis append_take_drop_id)
qed

lemma str_index_least:
  "str_index s sub = Some i \<Longrightarrow> j < i \<Longrightarrow> \<not> prefix sub (drop j s)"
proof (induction s sub arbitrary: i j rule: str_index.induct)
  case (2 c cs sub)
  then show ?case by (cases j) (auto split: if_splits)
qed (auto split: if_splits)

lemma str_index_None: "str_index s sub = None \<longleftrightarrow> \<not> sublist sub s"
proof (induction s sub rule: str_index.induct)
  case (2 c cs sub)
  then show ?case by (auto simp: sublist_Cons_right)
qed auto

lemma str_contains_iff: "str_contains s sub \<longleftrightarrow> sublist sub s"
  by (simp add: str_contains_def str_index_None)

text \<open>A one-character pattern.\<close>

lemma str_index_char_None [simp]: "str_index s [c] = None \<longleftrightarrow> c \<notin> set s"
  by (induction s) auto

lemma str_index_char_append: "c \<notin> set s \<Longrightarrow> str_index (s @ c # t) [c] = Some (length s)"
  by (induction s) auto

lemma str_index_char_Some:
  assumes "str_index s [c] = Some i"
  shows "i < length s" and "s ! i = c" and "c \<notin> set (take i s)"
proof -
  note split = str_index_split [OF assms]
  have pre: "prefix [c] (drop i s)" using str_index_Some [OF assms] by simp
  then obtain t where t: "drop i s = c # t" by (auto simp: prefix_def)
  then show i: "i < length s" by (metis drop_eq_Nil list.distinct(1) not_le)
  from t i show "s ! i = c" by (metis hd_drop_conv_nth list.sel(1))
  show "c \<notin> set (take i s)"
  proof
    assume "c \<in> set (take i s)"
    then obtain j where j: "j < i" "s ! j = c" using i by (auto simp: in_set_conv_nth)
    then have "drop j s = c # drop (Suc j) s" using i by (metis Cons_nth_drop_Suc order.strict_trans)
    with str_index_least [OF assms j(1)] show False by simp
  qed
qed

text \<open>A pattern of which no character but the first can be where it starts.\<close>

lemma str_index_append:
  assumes "\<And>j. j < length s \<Longrightarrow> \<not> prefix sub (drop j (s @ sub @ t))"
  shows "str_index (s @ sub @ t) sub = Some (length s)"
  using assms
proof (induction s)
  case Nil
  have "prefix sub (sub @ t)" by simp
  then show ?case by (cases "sub @ t") auto
next
  case (Cons c s)
  have "\<not> prefix sub (drop j (s @ sub @ t))" if "j < length s" for j
    using Cons.prems [of "Suc j"] that by simp
  moreover have "\<not> prefix sub (c # s @ sub @ t)" using Cons.prems [of 0] by simp
  ultimately show ?case using Cons.IH by simp
qed

subsection \<open>Trimming\<close>

definition chars_of :: "nat list \<Rightarrow> string" where
  "chars_of ns = map char_of ns"

text \<open>
  The code points with Unicode's property White Space, as UTF-8: the six ASCII ones, U+0085,
  U+00A0, U+1680, U+2000 to U+200A, U+2028, U+2029, U+202F, U+205F and U+3000.
\<close>

definition go_spaces :: "string list" where
  "go_spaces = map chars_of
     ([[9], [10], [11], [12], [13], [32], [194, 133], [194, 160], [225, 154, 128]] @
      map (\<lambda>n. [226, 128, n]) [128..<139] @
      [[226, 128, 168], [226, 128, 169], [226, 128, 175], [226, 129, 159], [227, 128, 128]])"

definition strip_one :: "string list \<Rightarrow> string \<Rightarrow> string option" where
  "strip_one ws s =
     (case find (\<lambda>w. w \<noteq> [] \<and> prefix w s) ws of None \<Rightarrow> None | Some w \<Rightarrow> Some (drop (length w) s))"

lemma strip_one_shorter: "strip_one ws s = Some s' \<Longrightarrow> length s' < length s"
  by (auto simp: strip_one_def find_Some_iff prefix_def split: option.splits)

function trim_left :: "string list \<Rightarrow> string \<Rightarrow> string" where
  "trim_left ws s = (case strip_one ws s of None \<Rightarrow> s | Some s' \<Rightarrow> trim_left ws s')"
  by pat_completeness auto
termination
  by (relation "measure (\<lambda>(_, s). length s)") (auto dest: strip_one_shorter)

declare trim_left.simps [simp del]

definition trim_space :: "string \<Rightarrow> string" where
  "trim_space s = rev (trim_left (map rev go_spaces) (rev (trim_left go_spaces s)))"

lemma trim_left_stop: "strip_one ws s = None \<Longrightarrow> trim_left ws s = s"
  by (simp add: trim_left.simps)

lemma trim_left_suffix: "suffix (trim_left ws s) s"
proof (induction ws s rule: trim_left.induct)
  case (1 ws s)
  show ?case
  proof (cases "strip_one ws s")
    case (Some s')
    then have "suffix s' s" by (auto simp: strip_one_def suffix_drop split: option.splits)
    with 1 Some show ?thesis by (auto simp: trim_left.simps [of ws s] intro: suffix_order.trans)
  qed (simp add: trim_left_stop)
qed

lemma trim_left_fixed: "strip_one ws (trim_left ws s) = None"
proof (induction ws s rule: trim_left.induct)
  case (1 ws s)
  then show ?case by (cases "strip_one ws s") (simp_all add: trim_left.simps [of ws s])
qed

definition no_outer_space :: "string \<Rightarrow> bool" where
  "no_outer_space s \<longleftrightarrow> strip_one go_spaces s = None \<and> strip_one (map rev go_spaces) (rev s) = None"

lemma trim_space_id: "no_outer_space s \<Longrightarrow> trim_space s = s"
  by (simp add: trim_space_def no_outer_space_def trim_left_stop)

lemma strip_one_prefix:
  assumes "prefix t s" and "strip_one ws s = None"
  shows "strip_one ws t = None"
  using assms prefix_order.trans [of _ t s]
  by (auto simp: strip_one_def find_None_iff split: option.splits)

text \<open>\<^verbatim>\<open>TrimSpace\<close> leaves a string without outer spaces, so a second call changes nothing.\<close>

lemma trim_space_no_outer: "no_outer_space (trim_space s)"
proof -
  let ?l = "trim_left go_spaces s" and ?rws = "map rev go_spaces"
  let ?r = "trim_left ?rws (rev ?l)"
  have "prefix (rev ?r) ?l"
    using trim_left_suffix [of ?rws "rev ?l"] by (simp add: suffix_to_prefix)
  with trim_left_fixed have "strip_one go_spaces (rev ?r) = None" using strip_one_prefix by blast
  then show ?thesis by (simp add: trim_space_def no_outer_space_def trim_left_fixed)
qed

lemma trim_space_idem [simp]: "trim_space (trim_space s) = trim_space s"
  by (rule trim_space_id [OF trim_space_no_outer])

lemma trim_space_strip: "strip_one go_spaces s = Some s' \<Longrightarrow> trim_space s = trim_space s'"
  by (simp add: trim_space_def trim_left.simps [of _ s])

text \<open>Visible ASCII characters are no spaces.\<close>

definition visible :: "char \<Rightarrow> bool" where
  "visible c \<longleftrightarrow> (32 :: nat) < of_char c \<and> (of_char c :: nat) < 127"

lemma go_spaces_invisible: "w \<in> set go_spaces \<Longrightarrow> c \<in> set w \<Longrightarrow> \<not> visible c"
proof -
  have "list_all (list_all (\<lambda>c. \<not> visible c)) go_spaces" by code_simp
  then show "w \<in> set go_spaces \<Longrightarrow> c \<in> set w \<Longrightarrow> \<not> visible c" by (auto simp: list_all_iff)
qed

lemma strip_one_visible:
  assumes "\<forall>c\<in>set s. visible c" and "\<forall>w\<in>set ws. \<exists>v\<in>set go_spaces. set w = set v"
  shows "strip_one ws s = None"
proof -
  have "\<not> (w \<noteq> [] \<and> prefix w s)" if w: "w \<in> set ws" for w
  proof
    assume p: "w \<noteq> [] \<and> prefix w s"
    then have "hd w \<in> set w" "hd w \<in> set s" by (auto simp: prefix_def)
    with assms w go_spaces_invisible show False by metis
  qed
  then have "find (\<lambda>w. w \<noteq> [] \<and> prefix w s) ws = None" unfolding find_None_iff by blast
  then show ?thesis by (simp add: strip_one_def)
qed

lemma no_outer_space_visible: "\<forall>c\<in>set s. visible c \<Longrightarrow> no_outer_space s"
  unfolding no_outer_space_def by (intro conjI strip_one_visible) auto

subsection \<open>Letter case\<close>

definition lower_char :: "char \<Rightarrow> char" where
  "lower_char c = (if 65 \<le> (of_char c :: nat) \<and> (of_char c :: nat) \<le> 90 then char_of ((of_char c :: nat) + 32) else c)"

definition to_lower :: "string \<Rightarrow> string" where
  "to_lower s = map lower_char s"

definition equal_fold :: "string \<Rightarrow> string \<Rightarrow> bool" where
  "equal_fold s t = (to_lower s = to_lower t)"

lemma lower_char_idem [simp]: "lower_char (lower_char c) = lower_char c"
  by (simp add: lower_char_def)

lemma to_lower_idem [simp]: "to_lower (to_lower s) = to_lower s"
  by (simp add: to_lower_def)

lemma length_to_lower [simp]: "length (to_lower s) = length s"
  by (simp add: to_lower_def)

lemma equal_fold_refl [simp]: "equal_fold s s"
  by (simp add: equal_fold_def)

lemma equal_fold_length: "equal_fold s t \<Longrightarrow> length s = length t"
  unfolding equal_fold_def by (metis length_to_lower)

subsection \<open>Decimal integers\<close>

text \<open>
  \<^verbatim>\<open>strconv.Atoi\<close> on a 64-bit platform: an optional sign, at least one decimal digit and nothing
  else, within the range of \<^verbatim>\<open>int64\<close>.
\<close>

definition digit_of :: "char \<Rightarrow> nat option" where
  "digit_of c = (let n = of_char c :: nat in if 48 \<le> n \<and> n \<le> 57 then Some (n - 48) else None)"

fun digits_value :: "nat \<Rightarrow> string \<Rightarrow> nat option" where
  "digits_value acc [] = Some acc"
| "digits_value acc (c # cs) =
     (case digit_of c of None \<Rightarrow> None | Some d \<Rightarrow> digits_value (10 * acc + d) cs)"

datatype atoi_error = AtoiSyntax string | AtoiRange string

definition atoi :: "string \<Rightarrow> atoi_error + int" where
  "atoi s =
     (let (neg, ds) = (case s of [] \<Rightarrow> (False, [])
                       | c # cs \<Rightarrow> if c = CHR ''-'' then (True, cs) else if c = CHR ''+'' then (False, cs) else (False, s))
      in if ds = [] then Inl (AtoiSyntax s)
         else case digits_value 0 ds of
           None \<Rightarrow> Inl (AtoiSyntax s)
         | Some n \<Rightarrow>
             (let v = if neg then - int n else int n
              in if - (2 ^ 63) \<le> v \<and> v < 2 ^ 63 then Inr v else Inl (AtoiRange s)))"

lemma atoi_range: "atoi s = Inr v \<Longrightarrow> - (2 ^ 63) \<le> v \<and> v < 2 ^ 63"
  by (auto simp: atoi_def Let_def split: if_splits option.splits list.splits prod.splits)

fun show_digits :: "nat \<Rightarrow> string" where
  "show_digits n = (if n < 10 then [char_of (48 + n)] else show_digits (n div 10) @ [char_of (48 + n mod 10)])"

declare show_digits.simps [simp del]

lemma digits_value_append:
  "digits_value acc (s @ t) = (case digits_value acc s of None \<Rightarrow> None | Some n \<Rightarrow> digits_value n t)"
  by (induction s arbitrary: acc) (auto split: option.splits)

lemma digit_of_char: "d < 10 \<Longrightarrow> digit_of (char_of (48 + d)) = Some d"
  by (simp add: digit_of_def Let_def)

lemma digits_value_show: "digits_value 0 (show_digits n) = Some n"
proof (induction n rule: show_digits.induct)
  case (1 n)
  then show ?case
    by (subst show_digits.simps) (simp add: digits_value_append digit_of_char)
qed

lemma show_digits_digit: "c \<in> set (show_digits n) \<Longrightarrow> digit_of c \<noteq> None"
proof (induction n rule: show_digits.induct)
  case (1 n)
  then show ?case
    by (subst (asm) (2) show_digits.simps) (auto simp: digit_of_char split: if_splits)
qed

lemma show_digits_neq_Nil: "show_digits n \<noteq> []"
  by (subst show_digits.simps) simp

lemma atoi_show:
  assumes "int n < 2 ^ 63"
  shows "atoi (show_digits n) = Inr (int n)"
proof -
  obtain c cs where s: "show_digits n = c # cs" using show_digits_neq_Nil by (cases "show_digits n") auto
  then have "digit_of c \<noteq> None" using show_digits_digit [of c n] by simp
  then have "c \<noteq> CHR ''-''" "c \<noteq> CHR ''+''" by (auto simp: digit_of_def Let_def)
  with s assms digits_value_show [of n] show ?thesis by (simp add: atoi_def)
qed

end
