(* ===== verification/Encoding.thy ===== *)
theory Encoding
  imports Prelude "HOL-Library.Word" "HOL-Library.Char_ord"
begin

text \<open>
  The encodings that \<^verbatim>\<open>internal/auth/refresh.go\<close> takes from Go's standard library:
  \<^verbatim>\<open>encoding/hex\<close> and \<^verbatim>\<open>base64.RawURLEncoding\<close>; the digest is in \<open>Sha256\<close>.
  The lemmas show what the program relies on: lengths, alphabets, and that both encodings can be
  undone.
\<close>

subsection \<open>Hexadecimal\<close>

definition hex_digit :: "nat \<Rightarrow> char" where
  "hex_digit n = (if n < 10 then char_of (48 + n) else char_of (87 + n))"

definition hex_byte :: "nat \<Rightarrow> string" where
  "hex_byte b = [hex_digit (b div 16), hex_digit (b mod 16)]"

definition hex_encode :: "nat list \<Rightarrow> string" where
  "hex_encode bs = concat (map hex_byte bs)"

definition is_hex :: "char \<Rightarrow> bool" where
  "is_hex c = (let n = of_char c :: nat in (48 \<le> n \<and> n \<le> 57) \<or> (97 \<le> n \<and> n \<le> 102))"

lemma code_hex_digit: "n < 16 \<Longrightarrow> of_char (hex_digit n) = (if n < 10 then 48 + n else 87 + n)"
  by (simp add: hex_digit_def take_bit_nat_eq_self)

lemma hex_digit_inj:
  assumes "m < 16" and "n < 16"
  shows "hex_digit m = hex_digit n \<longleftrightarrow> m = n"
proof
  assume "hex_digit m = hex_digit n"
  then have "of_char (hex_digit m) = (of_char (hex_digit n) :: nat)" by simp
  with assms show "m = n" by (simp add: code_hex_digit split: if_splits)
qed simp

lemma hex_digit_is_hex: "n < 16 \<Longrightarrow> is_hex (hex_digit n)"
  by (auto simp: is_hex_def code_hex_digit Let_def)

lemma length_hex_encode: "length (hex_encode bs) = 2 * length bs"
  by (induction bs) (simp_all add: hex_encode_def hex_byte_def)

lemma hex_encode_is_hex: "\<forall>b\<in>set bs. b < 256 \<Longrightarrow> \<forall>c\<in>set (hex_encode bs). is_hex c"
  by (auto simp: hex_encode_def hex_byte_def intro!: hex_digit_is_hex)

lemma hex_encode_inj:
  assumes "\<forall>b\<in>set bs. b < 256" and "\<forall>b\<in>set cs. b < 256" and "hex_encode bs = hex_encode cs"
  shows "bs = cs"
  using assms
proof (induction bs arbitrary: cs)
  case Nil
  then show ?case by (cases cs) (simp_all add: hex_encode_def hex_byte_def)
next
  case (Cons b bs)
  then obtain c cs' where cs: "cs = c # cs'" by (cases cs) (simp_all add: hex_encode_def hex_byte_def)
  have "b div 16 < 16" "c div 16 < 16" using Cons.prems cs by (simp_all add: div_less_iff_less_mult)
  with Cons.prems cs have hi: "b div 16 = c div 16" and lo: "b mod 16 = c mod 16"
    and tl: "hex_encode bs = hex_encode cs'"
    by (simp_all add: hex_encode_def hex_byte_def hex_digit_inj)
  from hi lo have "b = c" by (metis div_mult_mod_eq)
  moreover have "\<forall>b\<in>set bs. b < 256" "\<forall>b\<in>set cs'. b < 256" using Cons.prems cs by simp_all
  then have "bs = cs'" using tl by (rule Cons.IH)
  ultimately show ?case unfolding cs by (rule arg_cong2)
qed

subsection \<open>Base64 with the URL alphabet, unpadded\<close>

definition b64_char :: "nat \<Rightarrow> char" where
  "b64_char n =
     char_of (if n < 26 then 65 + n else if n < 52 then 71 + n else if n < 62 then n - 4
              else if n = 62 then 45 else 95)"

definition is_b64url :: "char \<Rightarrow> bool" where
  "is_b64url c =
     (let n = of_char c :: nat
      in (65 \<le> n \<and> n \<le> 90) \<or> (97 \<le> n \<and> n \<le> 122) \<or> (48 \<le> n \<and> n \<le> 57) \<or> n = 45 \<or> n = 95)"

fun b64_digits :: "nat list \<Rightarrow> nat list" where
  "b64_digits (a # b # c # bs) =
     a div 4 # (a mod 4 * 16 + b div 16) # (b mod 16 * 4 + c div 64) # c mod 64 # b64_digits bs"
| "b64_digits [a, b] = [a div 4, a mod 4 * 16 + b div 16, b mod 16 * 4]"
| "b64_digits [a] = [a div 4, a mod 4 * 16]"
| "b64_digits [] = []"

definition b64_encode :: "nat list \<Rightarrow> string" where
  "b64_encode bs = map b64_char (b64_digits bs)"

fun b64_undigits :: "nat list \<Rightarrow> nat list" where
  "b64_undigits (p # q # r # s # ds) =
     (p * 4 + q div 16) # (q mod 16 * 16 + r div 4) # (r mod 4 * 64 + s) # b64_undigits ds"
| "b64_undigits [p, q, r] = [p * 4 + q div 16, q mod 16 * 16 + r div 4]"
| "b64_undigits [p, q] = [p * 4 + q div 16]"
| "b64_undigits _ = []"

lemma digit_split: "y < (16 :: nat) \<Longrightarrow> (x * 16 + y) div 16 = x \<and> (x * 16 + y) mod 16 = y"
  "z < (4 :: nat) \<Longrightarrow> (x * 4 + z) div 4 = x \<and> (x * 4 + z) mod 4 = z"
  by simp_all

lemma byte_parts: "b < (256 :: nat) \<Longrightarrow> b div 4 < 64 \<and> b div 16 < 16 \<and> b div 64 < 4"
  by (simp add: div_less_iff_less_mult)

lemma b64_undigits_digits: "\<forall>b\<in>set bs. b < 256 \<Longrightarrow> b64_undigits (b64_digits bs) = bs"
proof (induction bs rule: b64_digits.induct)
  case (1 a b c bs)
  then have "b div 16 < 16" "c div 64 < 4" using byte_parts by simp_all
  with 1 show ?case using digit_split(1) [of "b div 16" "a mod 4"] digit_split(2) [of "c div 64" "b mod 16"]
    by (simp del: div_mult_self3 mod_mult_self3)
next
  case (2 a b)
  then have "b div 16 < 16" using byte_parts by simp
  then show ?case using digit_split(1) [of "b div 16" "a mod 4"] by simp
qed simp_all

lemma b64_digits_bound: "\<forall>b\<in>set bs. b < 256 \<Longrightarrow> \<forall>d\<in>set (b64_digits bs). d < 64"
proof (induction bs rule: b64_digits.induct)
  case (1 a b c bs)
  then have "a div 4 < 64" "b div 16 < 16" "c div 64 < 4" using byte_parts by simp_all
  moreover have "a mod 4 < 4" "b mod 16 < 16" by simp_all
  ultimately have "a mod 4 * 16 + b div 16 < 64" "b mod 16 * 4 + c div 64 < 64" by linarith+
  with 1 \<open>a div 4 < 64\<close> show ?case by simp
next
  case (2 a b)
  then have "a div 4 < 64" "b div 16 < 16" using byte_parts by simp_all
  moreover have "a mod 4 < 4" "b mod 16 < 16" by simp_all
  ultimately have "a mod 4 * 16 + b div 16 < 64" "b mod 16 * 4 < 64" by linarith+
  with \<open>a div 4 < 64\<close> show ?case by simp
next
  case (3 a)
  then have "a div 4 < 64" using byte_parts by simp
  moreover have "a mod 4 < 4" by simp
  ultimately show ?case by simp
qed simp

lemma code_b64_char:
  "n < 64 \<Longrightarrow> of_char (b64_char n) =
     (if n < 26 then 65 + n else if n < 52 then 71 + n else if n < 62 then n - 4 else if n = 62 then 45 else 95)"
  by (simp add: b64_char_def take_bit_nat_eq_self)

lemma b64_char_inj:
  assumes "m < 64" and "n < 64" and "b64_char m = b64_char n"
  shows "m = n"
proof -
  have "of_char (b64_char m) = (of_char (b64_char n) :: nat)" using assms(3) by simp
  with assms(1,2) show ?thesis by (simp add: code_b64_char split: if_splits)
qed

lemma b64_encode_inj:
  assumes "\<forall>b\<in>set bs. b < 256" and "\<forall>b\<in>set cs. b < 256" and "b64_encode bs = b64_encode cs"
  shows "bs = cs"
proof -
  note bound = b64_digits_bound [OF assms(1)] b64_digits_bound [OF assms(2)]
  have "b64_digits bs = b64_digits cs"
  proof (rule nth_equalityI)
    show len: "length (b64_digits bs) = length (b64_digits cs)"
      using assms(3) unfolding b64_encode_def by (metis length_map)
    fix i assume i: "i < length (b64_digits bs)"
    then have "b64_char (b64_digits bs ! i) = b64_char (b64_digits cs ! i)"
      using assms(3) len unfolding b64_encode_def by (metis nth_map)
    then show "b64_digits bs ! i = b64_digits cs ! i"
      using bound i len by (intro b64_char_inj) simp_all
  qed
  with assms(1,2) show ?thesis by (metis b64_undigits_digits)
qed

lemma length_b64_digits: "length (b64_digits bs) = (4 * length bs + 2) div 3"
  by (induction bs rule: b64_digits.induct) simp_all

lemma b64_encode_alphabet: "\<forall>b\<in>set bs. b < 256 \<Longrightarrow> \<forall>c\<in>set (b64_encode bs). is_b64url c"
  using b64_digits_bound [of bs] by (auto simp: b64_encode_def is_b64url_def code_b64_char Let_def)

end
