(* ===== verification/JsonPrint.thy ===== *)
theory JsonPrint
  imports Json Encoding
begin

text \<open>
  Printing JSON as \<^verbatim>\<open>json.Marshal\<close> does, and reading back what was printed.

  \<open>quote_body\<close> prints the inside of a string: the two delimiters and control characters escaped,
  the characters that are special in HTML as \<^verbatim>\<open>\u00XX\<close>, the separators U+2028 and U+2029 escaped,
  invalid UTF-8 replaced. \<open>json_compact\<close> is what the printer does to the text of a
  \<^verbatim>\<open>json.RawMessage\<close>. \<open>json_ok\<close> says which values the printer can produce: strings in valid
  UTF-8 and numbers in JSON's syntax.
\<close>

subsection \<open>Printing\<close>

definition u_escape :: "nat \<Rightarrow> bytes" where
  "u_escape n = [backslash, CHR ''u'', CHR ''0'', CHR ''0'', hex_digit (n div 16), hex_digit (n mod 16)]"

definition html_special :: "char \<Rightarrow> bool" where
  "html_special c = (c = CHR ''<'' \<or> c = CHR ''>'' \<or> c = CHR ''&'')"

definition quote_char :: "char \<Rightarrow> bytes" where
  "quote_char c =
     (if c = dquote \<or> c = backslash then [backslash, c]
      else if c = CHR 0x08 then [backslash, CHR ''b'']
      else if c = CHR 0x0C then [backslash, CHR ''f'']
      else if c = CHR 0x0A then [backslash, CHR ''n'']
      else if c = CHR 0x0D then [backslash, CHR ''r'']
      else if c = CHR 0x09 then [backslash, CHR ''t'']
      else if code c < 32 \<or> html_special c then u_escape (code c)
      else [c])"

definition sep_escape :: "bytes \<Rightarrow> bytes" where
  "sep_escape s = [backslash, CHR ''u'', CHR ''2'', CHR ''0'', CHR ''2'', hex_digit (code (s ! 2) mod 16)]"

function quote_body :: "bytes \<Rightarrow> bytes" where
  "quote_body [] = []"
| "quote_body (c # cs) =
     (if code c < 128 then quote_char c @ quote_body cs
      else if rune_len (c # cs) = 0 then [backslash] @ ''ufffd'' @ quote_body cs
      else if line_sep (c # cs) then sep_escape (c # cs) @ quote_body (drop 2 cs)
      else take (rune_len (c # cs)) (c # cs) @ quote_body (drop (rune_len (c # cs) - 1) cs))"
  by pat_completeness auto
termination
  by (relation "measure length") auto

declare quote_body.simps [simp del]

definition json_quote :: "bytes \<Rightarrow> bytes" where
  "json_quote s = dquote # quote_body s @ [dquote]"

fun json_print :: "json \<Rightarrow> bytes" and print_elems :: "json list \<Rightarrow> bytes"
  and print_members :: "(bytes \<times> bytes \<times> json) list \<Rightarrow> bytes" where
  "json_print JNull = ''null''"
| "json_print (JBool b) = (if b then ''true'' else ''false'')"
| "json_print (JNum n) = n"
| "json_print (JStr s) = json_quote s"
| "json_print (JArr vs) = CHR ''['' # print_elems vs @ [CHR '']'']"
| "json_print (JObj ms) = CHR ''{'' # print_members ms @ [CHR ''}'']"
| "print_elems [] = []"
| "print_elems (v # vs) = json_print v @ (if vs = [] then [] else CHR '','' # print_elems vs)"
| "print_members [] = []"
| "print_members ((k, raw, v) # ms) =
     json_quote k @ CHR '':'' # json_print v @ (if ms = [] then [] else CHR '','' # print_members ms)"

text \<open>Printing the text of a value again.\<close>

datatype scan = Outside | Inside | Escaped

definition scan_next :: "scan \<Rightarrow> char \<Rightarrow> scan" where
  "scan_next st c =
     (case st of
        Outside \<Rightarrow> if c = dquote then Inside else Outside
      | Inside \<Rightarrow> if c = dquote then Outside else if c = backslash then Escaped else Inside
      | Escaped \<Rightarrow> Inside)"

function json_compact :: "scan \<Rightarrow> bytes \<Rightarrow> bytes" where
  "json_compact st [] = []"
| "json_compact st (c # cs) =
     (if html_special c then u_escape (code c) @ json_compact (scan_next st c) cs
      else if line_sep (c # cs) then sep_escape (c # cs) @ json_compact st (drop 2 cs)
      else if st = Outside \<and> is_ws c then json_compact st cs
      else c # json_compact (scan_next st c) cs)"
  by pat_completeness auto
termination
  by (relation "measure (\<lambda>(_, s). length s)") auto

declare json_compact.simps [simp del]

subsection \<open>Values that are printed faithfully\<close>

function utf8_ok :: "bytes \<Rightarrow> bool" where
  "utf8_ok [] = True"
| "utf8_ok (c # cs) = (rune_len (c # cs) \<noteq> 0 \<and> utf8_ok (drop (rune_len (c # cs) - 1) cs))"
  by pat_completeness auto
termination
  by (relation "measure length") auto

declare utf8_ok.simps [simp del]

definition num_ok :: "bytes \<Rightarrow> bool" where
  "num_ok n \<longleftrightarrow> json_num n = Some (n, [])"

fun json_ok :: "json \<Rightarrow> bool" and elems_ok :: "json list \<Rightarrow> bool"
  and members_ok :: "(bytes \<times> bytes \<times> json) list \<Rightarrow> bool" where
  "json_ok (JNum n) = num_ok n"
| "json_ok (JStr s) = utf8_ok s"
| "json_ok (JArr vs) = elems_ok vs"
| "json_ok (JObj ms) = members_ok ms"
| "json_ok _ = True"
| "elems_ok [] = True"
| "elems_ok (v # vs) = (json_ok v \<and> elems_ok vs)"
| "members_ok [] = True"
| "members_ok ((k, raw, v) # ms) = (utf8_ok k \<and> raw = json_print v \<and> json_ok v \<and> members_ok ms)"

fun json_depth :: "json \<Rightarrow> nat" and elems_depth :: "json list \<Rightarrow> nat"
  and members_depth :: "(bytes \<times> bytes \<times> json) list \<Rightarrow> nat" where
  "json_depth (JArr vs) = Suc (elems_depth vs)"
| "json_depth (JObj ms) = Suc (members_depth ms)"
| "json_depth _ = 0"
| "elems_depth [] = 0"
| "elems_depth (v # vs) = max (json_depth v) (elems_depth vs)"
| "members_depth [] = 0"
| "members_depth ((k, raw, v) # ms) = max (json_depth v) (members_depth ms)"

subsection \<open>Strings read back\<close>

lemma char_of_eq_iff: "n < 256 \<Longrightarrow> char_of n = c \<longleftrightarrow> code c = n"
  by auto

lemma hex_val_digit: "n < 16 \<Longrightarrow> hex_val (hex_digit n) = Some n"
  by (auto simp: hex_val_def hex_digit_def Let_def)

lemma hex4_cons:
  assumes "a < 16" "b < 16" "c < 16" "d < 16"
  shows "hex4 (hex_digit a # hex_digit b # hex_digit c # hex_digit d # t) = Some (4096 * a + 256 * b + 16 * c + d)"
  using assms by (simp add: hex4_def hex_val_digit)

lemma rune_len_simps:
  "rune_len [] = 0"
  "code c < 128 \<Longrightarrow> rune_len (c # s) = 1"
  by (simp_all add: rune_len_def numeral_eq_Suc)

lemma rune_len_take:
  assumes "rune_len s = Suc n"
  shows "rune_len (take (Suc n) s @ t) = Suc n" and "n < length s" and "n < 4"
proof -
  consider "s = []" | a where "s = [a]" | a b where "s = [a, b]" | a b c where "s = [a, b, c]"
    | a b c d s' where "s = a # b # c # d # s'"
    by (metis list.exhaust)
  then have "rune_len (take (Suc n) s @ t) = Suc n \<and> n < length s \<and> n < 4"
    using assms by cases (auto simp: rune_len_def numeral_eq_Suc split: if_splits list.splits)
  then show "rune_len (take (Suc n) s @ t) = Suc n" "n < length s" "n < 4" by simp_all
qed

lemma hex_digit_chars:
  "hex_digit 0 = CHR ''0''" "hex_digit 2 = CHR ''2''" "hex_digit 13 = CHR ''d''" "hex_digit 15 = CHR ''f''"
  by (simp_all add: hex_digit_def char_of_eq_iff)

lemma quote_char_cases:
  "(\<exists>e. quote_char c = [backslash, e] \<and> e \<noteq> CHR ''u'' \<and> simple_escape e = Some c) \<or>
   quote_char c = u_escape (code c) \<or>
   quote_char c = [c] \<and> c \<noteq> dquote \<and> c \<noteq> backslash \<and> \<not> code c < 32 \<and> \<not> html_special c"
proof (cases "c \<in> {dquote, backslash, CHR 0x08, CHR 0x0C, CHR 0x0A, CHR 0x0D, CHR 0x09}")
  case True
  then show ?thesis by (auto simp: quote_char_def simple_escape_def)
next
  case False
  then show ?thesis by (simp add: quote_char_def)
qed

lemma json_str_char:
  assumes "code c < 128"
  shows "json_str (quote_char c @ t) = put_front [c] (json_str t)"
proof -
  consider (esc) e where "quote_char c = [backslash, e]" "e \<noteq> CHR ''u''" "simple_escape e = Some c"
    | (u) "quote_char c = u_escape (code c)"
    | (plain) "quote_char c = [c]" "c \<noteq> dquote" "c \<noteq> backslash" "\<not> code c < 32"
    using quote_char_cases [of c] by blast
  then show ?thesis
  proof cases
    case esc
    then show ?thesis by (simp add: json_str.simps)
  next
    case u
    have "hex4 (CHR ''0'' # CHR ''0'' # hex_digit (code c div 16) # hex_digit (code c mod 16) # t) = Some (code c)"
      using hex4_cons [of 0 0 "code c div 16" "code c mod 16" t] assms by (simp add: hex_digit_chars)
    moreover have "chars_of [code c] = [c]" by (simp add: chars_of_def)
    ultimately have "unicode_escape (CHR ''0'' # CHR ''0'' # hex_digit (code c div 16) # hex_digit (code c mod 16) # t) = Some ([c], 4)"
      using assms by (simp add: unicode_escape_def encode_rune_def)
    with u show ?thesis by (simp add: u_escape_def json_str.simps)
  next
    case plain
    then show ?thesis using assms by (simp add: json_str.simps rune_len_simps)
  qed
qed

lemma line_sep_cases:
  assumes "line_sep (c # cs)"
  obtains d e rest where "c # cs = c # d # e # rest" "code c = 226" "code d = 128" "code e = 168 \<or> code e = 169"
  using assms by (cases cs; cases "tl cs") (auto simp: line_sep_def numeral_eq_Suc)

lemma json_str_sep:
  assumes "line_sep (c # cs)"
  shows "json_str (sep_escape (c # cs) @ t) = put_front (take 3 (c # cs)) (json_str t)"
proof -
  from assms obtain d e rest where s: "c # cs = c # d # e # rest"
    and code: "code c = 226" "code d = 128" "code e = 168 \<or> code e = 169"
    by (rule line_sep_cases)
  have hex: "hex4 (CHR ''2'' # CHR ''0'' # CHR ''2'' # hex_digit (code e mod 16) # t) = Some (0x2020 + code e mod 16)"
    using hex4_cons [of 2 0 2 "code e mod 16" t] by (simp add: hex_digit_chars)
  have "chars_of [226, 128, code e] = [c, d, e]"
    using code by (simp add: chars_of_def char_of_eq_iff)
  then have "encode_rune (0x2020 + code e mod 16) = [c, d, e]"
    using code(3) by (auto simp: encode_rune_def)
  with hex have "unicode_escape (CHR ''2'' # CHR ''0'' # CHR ''2'' # hex_digit (code e mod 16) # t) = Some ([c, d, e], 4)"
    using code(3) by (auto simp: unicode_escape_def)
  then show ?thesis unfolding s by (simp add: sep_escape_def json_str.simps)
qed

lemma json_str_rune:
  assumes "\<not> code c < 128" and "rune_len (c # cs) = Suc n"
  shows "json_str (take (Suc n) (c # cs) @ t) = put_front (take (Suc n) (c # cs)) (json_str t)"
proof -
  have eq: "take (Suc n) (c # cs) @ t = c # (take n cs @ t)" by simp
  have len: "rune_len (c # (take n cs @ t)) = Suc n" and le: "n \<le> length cs"
    using rune_len_take(1) [OF assms(2), of t] rune_len_take(2) [OF assms(2)] by simp_all
  have "c \<noteq> dquote" "c \<noteq> backslash" "\<not> code c < 32" using assms(1) by auto
  then have "json_str (c # (take n cs @ t)) =
      put_front (take (Suc n) (c # (take n cs @ t))) (json_str (drop n (take n cs @ t)))"
    using len by (subst json_str.simps) simp
  with le show ?thesis unfolding eq by simp
qed

lemma json_str_quote: "utf8_ok s \<Longrightarrow> json_str (quote_body s @ dquote # rest) = Some (s, rest)"
proof (induction s rule: quote_body.induct)
  case 1
  show ?case by (simp add: quote_body.simps json_str.simps)
next
  case (2 c cs)
  obtain n where n: "rune_len (c # cs) = Suc n" and ok: "utf8_ok (drop n cs)"
    using "2.prems" by (cases "rune_len (c # cs)") (auto simp: utf8_ok.simps)
  have le: "n \<le> length cs" using rune_len_take(2) [OF n] by simp
  consider (ascii) "code c < 128" | (sep) "\<not> code c < 128" "line_sep (c # cs)"
    | (rune) "\<not> code c < 128" "\<not> line_sep (c # cs)" by blast
  then show ?case
  proof cases
    case ascii
    then have "n = 0" using n by (simp add: rune_len_simps)
    with ascii "2.IH"(1) ok show ?thesis
      by (simp add: quote_body.simps json_str_char put_front_def)
  next
    case sep
    from sep(2) obtain d e rest' where s: "cs = d # e # rest'" "code c = 226" "code d = 128" "code e = 168 \<or> code e = 169"
      by (rule line_sep_cases) auto
    have "n = 2" using n s by (auto simp: rune_len_def is_cont_def numeral_eq_Suc)
    with sep "2.IH"(3) n ok show ?thesis
      by (simp add: quote_body.simps json_str_sep [OF sep(2) [unfolded s(1)]] put_front_def s(1))
  next
    case rune
    have "quote_body (c # cs) @ dquote # rest = take (Suc n) (c # cs) @ (quote_body (drop n cs) @ dquote # rest)"
      using rune n by (simp add: quote_body.simps)
    with "2.IH"(4) rune n ok show ?thesis
      by (simp only: json_str_rune [OF rune(1) n]) (simp add: put_front_def)
  qed
qed

lemma json_str_quote_string: "utf8_ok s \<Longrightarrow> json_str (tl (json_quote s) @ rest) = Some (s, rest)"
  by (simp add: json_quote_def json_str_quote)

lemma utf8_ok_ascii: "\<forall>c\<in>set s. code c < 128 \<Longrightarrow> utf8_ok s"
  by (induction s) (simp_all add: utf8_ok.simps rune_len_simps)

subsection \<open>Values read back\<close>

text \<open>What may follow a number: nothing that could be part of it.\<close>

definition num_stop :: "bytes \<Rightarrow> bool" where
  "num_stop s \<longleftrightarrow> (case s of [] \<Rightarrow> True | c # _ \<Rightarrow> c \<in> {CHR '','', CHR '']'', CHR ''}''})"

lemma num_stopD: "num_stop (c # s) \<Longrightarrow> \<not> is_digit c \<and> c \<notin> {CHR ''.'', CHR ''e'', CHR ''E'', CHR ''0''}"
  by (auto simp: num_stop_def digit_of_def Let_def)

lemma span_append:
  assumes "t = [] \<or> \<not> P (hd t)"
  shows "takeWhile P (s @ t) = takeWhile P s" and "dropWhile P (s @ t) = dropWhile P s @ t"
  using assms by (induction s) (cases t; auto)+

lemma digits1_append:
  assumes "digits1 s = Some (d, r)" and "num_stop t"
  shows "digits1 (s @ t) = Some (d, r @ t)"
proof -
  have "t = [] \<or> \<not> is_digit (hd t)" using assms(2) by (cases t) (auto dest: num_stopD)
  from span_append [of t is_digit s, OF this] assms(1) show ?thesis
    by (simp only: digits1_def) (auto split: list.splits)
qed

lemma num_int_append: "num_int s = Some (d, r) \<Longrightarrow> num_stop t \<Longrightarrow> num_int (s @ t) = Some (d, r @ t)"
  using digits1_append [of s d r t] by (auto simp: num_int_def split: list.splits if_splits)

lemma num_frac_append: "num_frac s = Some (d, r) \<Longrightarrow> num_stop t \<Longrightarrow> num_frac (s @ t) = Some (d, r @ t)"
  using digits1_append [of "tl s" _ r t] 
  by (cases s) (auto simp: num_frac_def put_front_Some dest: num_stopD split: list.splits if_splits)

lemma num_exp_append: "num_exp s = Some (d, r) \<Longrightarrow> num_stop t \<Longrightarrow> num_exp (s @ t) = Some (d, r @ t)"
  using digits1_append [of "tl s" _ r t] digits1_append [of "tl (tl s)" _ r t]
  by (cases s; cases "tl s") (auto simp: num_exp_def put_front_Some dest: num_stopD split: list.splits if_splits)

lemma json_num_append:
  assumes "json_num s = Some (n, r)" and "num_stop t"
  shows "json_num (s @ t) = Some (n, r @ t)"
proof (cases "\<exists>cs. s = CHR ''-'' # cs")
  case True
  then show ?thesis using assms
    by (auto simp: json_num_def num_int_append num_frac_append num_exp_append split: option.splits)
next
  case False
  moreover have "s \<noteq> []" using assms(1) by (auto simp: json_num_def num_int_def)
  ultimately obtain c cs where "s = c # cs" "c \<noteq> CHR ''-''" by (cases s) auto
  then show ?thesis using assms num_int_append [of s _ _ t]
    by (auto simp: json_num_def num_frac_append num_exp_append split: option.splits)
qed

text \<open>A printed number starts with a digit or the sign; so it is no literal, string or bracket.\<close>

lemma num_ok_first:
  assumes "num_ok n"
  obtains c cs where "n = c # cs" "c = CHR ''-'' \<or> is_digit c"
proof -
  obtain c cs where n: "n = c # cs"
    using assms by (cases n) (auto simp: num_ok_def json_num_def num_int_def)
  have "c = CHR ''-'' \<or> is_digit c"
    using assms unfolding n num_ok_def json_num_def
    by (auto simp: num_int_def digits1_def digit_of_def Let_def split: if_splits option.splits list.splits)
  with n that show thesis by blast
qed

lemma first_char_cases:
  assumes "c = CHR ''-'' \<or> is_digit c"
  shows "\<not> is_ws c" "c \<notin> {CHR ''{'', CHR ''['', dquote, CHR '']'', CHR ''}'', CHR ''n'', CHR ''t'', CHR ''f''}"
  using assms by (auto simp: is_ws_def digit_of_def Let_def)

lemma skip_ws_stop: "\<not> is_ws c \<Longrightarrow> skip_ws (c # s) = c # s"
  by (simp add: skip_ws_def)

lemma json_atom_print:
  assumes "json_ok v" and "num_stop t" and "v = JNull \<or> (\<exists>b. v = JBool b) \<or> (\<exists>n. v = JNum n)" and "0 < f"
  shows "json_value f d (json_print v @ t) = Some (v, t)"
proof -
  obtain f' where f: "f = Suc f'" using assms(4) by (cases f) auto
  show ?thesis
  proof (cases "\<exists>n. v = JNum n")
    case True
    then obtain n where v: "v = JNum n" and ok: "num_ok n" using assms(1) by auto
    obtain c cs where n: "n = c # cs" and c: "c = CHR ''-'' \<or> is_digit c" using num_ok_first [OF ok] .
    have "json_num (n @ t) = Some (n, t)"
      using json_num_append [OF _ assms(2), of n n "[]"] ok by (simp add: num_ok_def)
    with first_char_cases [OF c] show ?thesis
      by (auto simp: f v n skip_ws_stop json_atom_def)
  next
    case False
    with assms(3) show ?thesis by (auto simp: f skip_ws_def is_ws_def json_atom_def)
  qed
qed

lemma json_print_first:
  assumes "json_ok v"
  obtains c cs where "json_print v = c # cs" "\<not> is_ws c" "c \<noteq> CHR '']''" "c \<noteq> CHR ''}''"
proof (cases v)
  case (JNum n)
  with assms obtain c cs where "n = c # cs" "c = CHR ''-'' \<or> is_digit c" using num_ok_first [of n] by auto
  with JNum first_char_cases [of c] that show ?thesis by simp
next
  case (JBool b)
  then show ?thesis using that by (cases b) (auto simp: is_ws_def)
qed (use that in \<open>auto simp: is_ws_def json_quote_def\<close>)

lemma text_before_append: "text_before (s @ t) t = s"
  by (simp add: text_before_def)

lemma json_print_read:
  "json_ok v \<Longrightarrow> d + json_depth v \<le> max_depth \<Longrightarrow> num_stop t \<Longrightarrow> 2 * length (json_print v) < n \<Longrightarrow>
     json_value n d (json_print v @ t) = Some (v, t)"
  "elems_ok vs \<Longrightarrow> vs \<noteq> [] \<Longrightarrow> d + elems_depth vs \<le> max_depth \<Longrightarrow> Suc (2 * length (print_elems vs)) < n \<Longrightarrow>
     json_elems n d (print_elems vs @ CHR '']'' # t) = Some (vs, t)"
  "members_ok ms \<Longrightarrow> ms \<noteq> [] \<Longrightarrow> d + members_depth ms \<le> max_depth \<Longrightarrow> 2 * length (print_members ms) < n \<Longrightarrow>
     json_members n d (print_members ms @ CHR ''}'' # t) = Some (ms, t)"
proof (induction v and vs and ms arbitrary: d t n and d t n and d t n
    rule: json_print_print_elems_print_members.induct)
  case (4 s)
  then show ?case by (cases n) (simp_all add: json_quote_def skip_ws_def is_ws_def json_str_quote)
next
  case (5 vs)
  then obtain m where n: "n = Suc m" by (cases n) auto
  show ?case
  proof (cases vs)
    case Nil
    with 5 n show ?thesis by (simp add: skip_ws_def is_ws_def)
  next
    case (Cons v vs')
    then have ok: "json_ok v" using "5.prems"(1) by simp
    obtain c cs where "json_print v = c # cs" "\<not> is_ws c" "c \<noteq> CHR '']''"
      using json_print_first [OF ok] by metis
    then obtain cs' where "skip_ws (print_elems vs @ CHR '']'' # t) = c # cs'" "c \<noteq> CHR '']''"
      using Cons by (simp add: skip_ws_stop)
    moreover have "json_elems m (Suc d) (print_elems vs @ CHR '']'' # t) = Some (vs, t)"
      using "5.IH" [of "Suc d" m t] "5.prems" Cons n by simp
    moreover have "\<not> max_depth \<le> d" using "5.prems"(2) by simp
    ultimately show ?thesis
      unfolding n json_value.simps(2) by (simp add: skip_ws_stop is_ws_def)
  qed
next
  case (6 ms)
  then obtain m where n: "n = Suc m" by (cases n) auto
  show ?case
  proof (cases ms)
    case Nil
    with 6 n show ?thesis by (simp add: skip_ws_def is_ws_def)
  next
    case (Cons kv ms')
    then obtain cs' where "skip_ws (print_members ms @ CHR ''}'' # t) = dquote # cs'"
      by (cases kv) (simp add: json_quote_def skip_ws_stop is_ws_def)
    moreover have "json_members m (Suc d) (print_members ms @ CHR ''}'' # t) = Some (ms, t)"
      using "6.IH" [of "Suc d" m t] "6.prems" Cons n by simp
    moreover have "\<not> max_depth \<le> d" using "6.prems"(2) by simp
    ultimately show ?thesis
      unfolding n json_value.simps(2) by (simp add: skip_ws_stop is_ws_def)
  qed
next
  case (8 v vs)
  then obtain m where n: "n = Suc m" by (cases n) auto
  let ?t = "(if vs = [] then [] else CHR '','' # print_elems vs) @ CHR '']'' # t"
  have "num_stop ?t" by (simp add: num_stop_def)
  then have "json_value m d (json_print v @ ?t) = Some (v, ?t)"
    using "8.IH"(1) [of d ?t m] "8.prems" n by simp
  moreover have "json_elems m d (print_elems vs @ CHR '']'' # t) = Some (vs, t)" if "vs \<noteq> []"
    using "8.IH"(2) [OF that, of d m t] "8.prems" n that by simp
  ultimately show ?case unfolding n by (auto simp: skip_ws_stop is_ws_def)
next
  case (10 k raw v ms)
  then obtain m where n: "n = Suc m" by (cases n) auto
  let ?t = "(if ms = [] then [] else CHR '','' # print_members ms) @ CHR ''}'' # t"
  have "num_stop ?t" by (simp add: num_stop_def)
  then have val: "json_value m d (json_print v @ ?t) = Some (v, ?t)"
    using "10.IH"(1) [of d ?t m] "10.prems" n by simp
  have ok: "json_ok v" and raw: "raw = json_print v" and k: "utf8_ok k" using "10.prems"(1) by simp_all
  obtain c cs where "json_print v = c # cs" "\<not> is_ws c" using json_print_first [OF ok] by metis
  then have "skip_ws (json_print v @ ?t) = json_print v @ ?t" by (simp add: skip_ws_stop)
  then have before: "text_before (skip_ws (json_print v @ ?t)) ?t = raw"
    unfolding raw by (simp only: text_before_append)
  have key: "json_str (quote_body k @ dquote # x) = Some (k, x)" for x by (rule json_str_quote [OF k])
  have "json_members m d (print_members ms @ CHR ''}'' # t) = Some (ms, t)" if "ms \<noteq> []"
    using "10.IH"(2) [OF that, of d m t] "10.prems" n that by simp
  with val before key show ?case unfolding n
    by (auto simp: json_quote_def skip_ws_stop is_ws_def Let_def)
next
  case 1
  then show ?case by (intro json_atom_print) auto
next
  case (2 b)
  then show ?case by (intro json_atom_print) auto
next
  case (3 m)
  then show ?case by (intro json_atom_print) auto
qed simp_all

text \<open>The text of a printed value is a value of its own for a decoder and for \<^verbatim>\<open>Unmarshal\<close>.\<close>

lemma json_text_print:
  assumes "json_ok v" and "json_depth v \<le> max_depth" and "num_stop t"
  shows "json_text (json_print v @ t) = Some (v, t)"
  using json_print_read(1) [of v 0 t] assms by (simp add: json_text_def del: json_value.simps)

lemma json_whole_print: "json_ok v \<Longrightarrow> json_depth v \<le> max_depth \<Longrightarrow> json_whole (json_print v) = Some v"
  using json_text_print [of v "[]"] by (simp add: json_whole_def num_stop_def skip_ws_def)

subsection \<open>Printing printed text again\<close>

lemma line_sep_first: "line_sep (c # s) \<Longrightarrow> code c = 226"
  by (erule line_sep_cases)

lemma json_compact_char:
  assumes "\<not> html_special c" and "code c \<noteq> 226" and "st = Outside \<longrightarrow> \<not> is_ws c"
  shows "json_compact st (c # t) = c # json_compact (scan_next st c) t"
  using assms line_sep_first [of c t] by (auto simp: json_compact.simps)

lemma hex_digit_plain: "n < 16 \<Longrightarrow> \<not> html_special (hex_digit n) \<and> code (hex_digit n) < 128 \<and>
    hex_digit n \<noteq> dquote \<and> hex_digit n \<noteq> backslash"
  by (auto simp: hex_digit_def html_special_def char_of_eq_iff)

lemma json_compact_inside:
  assumes "\<not> html_special c" and "code c \<noteq> 226" and "c \<noteq> dquote" and "c \<noteq> backslash"
  shows "json_compact Inside (c # t) = c # json_compact Inside t"
  using json_compact_char [of c Inside t] assms by (simp add: scan_next_def)

lemma json_compact_u:
  assumes "a < 16" "b < 16" "c < 16" "d < 16"
  shows "json_compact Inside (backslash # CHR ''u'' # hex_digit a # hex_digit b # hex_digit c # hex_digit d # t) =
     backslash # CHR ''u'' # hex_digit a # hex_digit b # hex_digit c # hex_digit d # json_compact Inside t"
proof -
  have "json_compact Inside (backslash # CHR ''u'' # x) = backslash # CHR ''u'' # json_compact Inside x" for x
    using json_compact_char [of backslash Inside] json_compact_char [of "CHR ''u''" Escaped x]
    by (simp add: scan_next_def html_special_def)
  moreover have "json_compact Inside (hex_digit n # x) = hex_digit n # json_compact Inside x" if "n < 16" for n x
    using json_compact_inside [of "hex_digit n" x] hex_digit_plain [OF that] by auto
  ultimately show ?thesis using assms by simp
qed

lemma json_compact_quote_char:
  assumes "code c < 128"
  shows "json_compact Inside (quote_char c @ t) = quote_char c @ json_compact Inside t"
proof -
  consider (esc) e where "quote_char c = [backslash, e]" "simple_escape e = Some c"
    | (u) "quote_char c = u_escape (code c)"
    | (plain) "quote_char c = [c]" "c \<noteq> dquote" "c \<noteq> backslash" "\<not> html_special c"
    using quote_char_cases [of c] by blast
  then show ?thesis
  proof cases
    case esc
    then have "\<not> html_special e" "code e \<noteq> 226"
      by (auto simp: simple_escape_def html_special_def split: if_splits)
    then show ?thesis
      using esc json_compact_char [of backslash Inside "e # t"] json_compact_char [of e Escaped t]
      by (simp add: scan_next_def html_special_def)
  next
    case u
    then show ?thesis
      using json_compact_u [of 0 0 "code c div 16" "code c mod 16" t] assms
      by (simp add: u_escape_def hex_digit_chars)
  next
    case plain
    then show ?thesis using json_compact_inside [of c t] assms by simp
  qed
qed

lemma rune_bytes:
  assumes "rune_len (c # cs) = Suc n" and "\<not> code c < 128"
  shows "\<forall>x\<in>set (take n cs). is_cont (code x)" and "code c = 226 \<longrightarrow> n = 2"
proof -
  consider "cs = []" | a where "cs = [a]" | a b where "cs = [a, b]" | a b d cs' where "cs = a # b # d # cs'"
    by (metis list.exhaust)
  then have "(\<forall>x\<in>set (take n cs). is_cont (code x)) \<and> (code c = 226 \<longrightarrow> n = 2)"
    using assms by cases (auto simp: rune_len_def numeral_eq_Suc split: if_splits)
  then show "\<forall>x\<in>set (take n cs). is_cont (code x)" "code c = 226 \<longrightarrow> n = 2" by simp_all
qed

lemma json_compact_conts:
  "\<forall>x\<in>set xs. is_cont (code x) \<Longrightarrow> json_compact Inside (xs @ t) = xs @ json_compact Inside t"
proof (induction xs)
  case (Cons x xs)
  then have "\<not> html_special x" "code x \<noteq> 226" "x \<noteq> dquote" "x \<noteq> backslash"
    by (auto simp: is_cont_def html_special_def)
  with Cons json_compact_inside [of x "xs @ t"] show ?case by simp
qed simp

lemma json_compact_rune:
  assumes "rune_len (c # cs) = Suc n" and "\<not> code c < 128" and "\<not> line_sep (c # cs)"
  shows "json_compact Inside (take (Suc n) (c # cs) @ t) = take (Suc n) (c # cs) @ json_compact Inside t"
proof -
  have le: "n \<le> length cs" using rune_len_take(2) [OF assms(1)] by simp
  have "\<not> line_sep (c # take n cs @ t)"
  proof
    assume sep: "line_sep (c # take n cs @ t)"
    then have "n = 2" using rune_bytes(2) [OF assms(1,2)] line_sep_first by blast
    with le have "take 3 (c # take n cs @ t) = take 3 (c # cs)" by (simp add: numeral_eq_Suc)
    with sep assms(3) show False unfolding line_sep_def by metis
  qed
  moreover have "\<not> html_special c" "c \<noteq> dquote" "c \<noteq> backslash" using assms(2) by (auto simp: html_special_def)
  ultimately have "json_compact Inside (c # (take n cs @ t)) = c # json_compact Inside (take n cs @ t)"
    by (simp add: json_compact.simps scan_next_def)
  then show ?thesis using json_compact_conts [OF rune_bytes(1) [OF assms(1,2)]] by simp
qed

lemma json_compact_quote:
  "json_compact Inside (quote_body s @ dquote # rest) = quote_body s @ dquote # json_compact Outside rest"
proof (induction s rule: quote_body.induct)
  case 1
  show ?case using json_compact_char [of dquote Inside rest]
    by (simp add: quote_body.simps scan_next_def html_special_def)
next
  case (2 c cs)
  consider (ascii) "code c < 128" | (bad) "\<not> code c < 128" "rune_len (c # cs) = 0"
    | (sep) "\<not> code c < 128" "rune_len (c # cs) \<noteq> 0" "line_sep (c # cs)"
    | (rune) n where "\<not> code c < 128" "rune_len (c # cs) = Suc n" "\<not> line_sep (c # cs)"
    by (metis not0_implies_Suc)
  then show ?case
  proof cases
    case ascii
    with "2.IH"(1) show ?thesis by (simp add: quote_body.simps json_compact_quote_char)
  next
    case bad
    have "''ufffd'' = CHR ''u'' # hex_digit 15 # hex_digit 15 # hex_digit 15 # [hex_digit 13]"
      by (simp add: hex_digit_chars)
    with "2.IH"(2) bad json_compact_u [of 15 15 15 13] show ?thesis by (simp add: quote_body.simps)
  next
    case sep
    with "2.IH"(3) json_compact_u [of 2 0 2 "code (cs ! 1) mod 16"] show ?thesis
      by (simp add: quote_body.simps sep_escape_def hex_digit_chars)
  next
    case rune
    then have "quote_body (c # cs) @ dquote # rest = take (Suc n) (c # cs) @ (quote_body (drop n cs) @ dquote # rest)"
      by (simp add: quote_body.simps)
    with "2.IH"(4) rune show ?thesis
      by (simp only: json_compact_rune [OF rune(2,1,3)]) (simp add: quote_body.simps)
  qed
qed

definition num_char :: "char \<Rightarrow> bool" where
  "num_char c \<longleftrightarrow> is_digit c \<or> c \<in> {CHR ''-'', CHR ''+'', CHR ''.'', CHR ''e'', CHR ''E''}"

lemma digits1_chars: "digits1 s = Some (d, r) \<Longrightarrow> \<forall>c\<in>set d. num_char c"
  by (auto simp: digits1_def num_char_def dest: set_takeWhileD split: list.splits)

lemma num_part_chars:
  "num_int s = Some (d, r) \<Longrightarrow> \<forall>c\<in>set d. num_char c"
  "num_frac s = Some (d, r) \<Longrightarrow> \<forall>c\<in>set d. num_char c"
  "num_exp s = Some (d, r) \<Longrightarrow> \<forall>c\<in>set d. num_char c"
proof -
  have zero: "num_char (CHR ''0'')" and rest: "num_char (CHR ''.'')" "num_char (CHR ''e'')" "num_char (CHR ''E'')"
    "num_char (CHR ''+'')" "num_char (CHR ''-'')"
    by (simp_all add: num_char_def digit_of_def)
  show "num_int s = Some (d, r) \<Longrightarrow> \<forall>c\<in>set d. num_char c"
    using digits1_chars [of s d r] zero by (auto simp: num_int_def split: list.splits if_splits)
  show "num_frac s = Some (d, r) \<Longrightarrow> \<forall>c\<in>set d. num_char c"
    using digits1_chars [of "tl s" _ r] rest by (auto simp: num_frac_def put_front_Some split: list.splits if_splits)
  show "num_exp s = Some (d, r) \<Longrightarrow> \<forall>c\<in>set d. num_char c"
    using digits1_chars [of "tl s" _ r] digits1_chars [of "tl (tl s)" _ r] rest
    by (cases s; cases "tl s") (auto simp: num_exp_def put_front_Some split: list.splits if_splits)
qed

lemma num_ok_chars:
  assumes "num_ok n"
  shows "\<forall>c\<in>set n. num_char c"
proof -
  have minus: "num_char (CHR ''-'')" by (simp add: num_char_def)
  obtain sign s1 i s2 f s3 e where "num_int s1 = Some (i, s2)" "num_frac s2 = Some (f, s3)" "num_exp s3 = Some (e, [])"
    and n: "n = sign @ i @ f @ e" and "set sign \<subseteq> {CHR ''-''}"
    using assms by (auto simp: num_ok_def json_num_def Let_def split: option.splits prod.splits list.splits if_splits)
  with num_part_chars minus show ?thesis unfolding n by (metis UnE singletonD set_append subsetD)
qed

lemma json_compact_outside:
  "\<forall>c\<in>set s. num_char c \<or> c \<in> set ''nulltruefalse,:[]{}'' \<Longrightarrow> json_compact Outside (s @ t) = s @ json_compact Outside t"
proof (induction s)
  case (Cons c s)
  then have "\<not> html_special c" "code c \<noteq> 226" "\<not> is_ws c" "c \<noteq> dquote"
    by (auto simp: num_char_def digit_of_def Let_def html_special_def is_ws_def)
  then have "json_compact Outside (c # (s @ t)) = c # json_compact Outside (s @ t)"
    using json_compact_char [of c Outside "s @ t"] by (simp add: scan_next_def)
  with Cons show ?case by simp
qed simp

lemma json_compact_string:
  "json_compact Outside (json_quote s @ t) = json_quote s @ json_compact Outside t"
  using json_compact_char [of dquote Outside] json_compact_quote [of s t]
  by (simp add: json_quote_def scan_next_def html_special_def is_ws_def)

lemma json_compact_punct:
  "c \<in> set '',:[]{}'' \<Longrightarrow> json_compact Outside (c # t) = c # json_compact Outside t"
  using json_compact_outside [of "[c]" t] by auto

lemma json_compact_print:
  "json_ok v \<Longrightarrow> json_compact Outside (json_print v @ t) = json_print v @ json_compact Outside t"
  "elems_ok vs \<Longrightarrow> json_compact Outside (print_elems vs @ t) = print_elems vs @ json_compact Outside t"
  "members_ok ms \<Longrightarrow> json_compact Outside (print_members ms @ t) = print_members ms @ json_compact Outside t"
proof (induction v and vs and ms arbitrary: t and t and t rule: json_print_print_elems_print_members.induct)
  case (3 n)
  then show ?case using json_compact_outside [of n t] num_ok_chars [of n] by simp
next
  case 1
  show ?case using json_compact_outside [of "''null''" t] by simp
next
  case (2 b)
  show ?case using json_compact_outside [of "''true''" t] json_compact_outside [of "''false''" t] by simp
qed (simp_all add: json_compact_string json_compact_punct)

text \<open>Printed text has no control characters, so it fits on one line.\<close>

definition printable :: "char \<Rightarrow> bool" where
  "printable c \<longleftrightarrow> 32 \<le> code c"

lemma printable_hex: "n < 16 \<Longrightarrow> printable (hex_digit n)"
  by (simp add: printable_def code_hex_digit)

lemma printable_quote_char: "\<forall>x\<in>set (quote_char c). printable x"
proof -
  consider (esc) e where "quote_char c = [backslash, e]" "simple_escape e = Some c"
    | (u) "quote_char c = u_escape (code c)"
    | (plain) "quote_char c = [c]" "\<not> code c < 32"
    using quote_char_cases [of c] by blast
  then show ?thesis
  proof cases
    case esc
    then have "printable e" by (auto simp: simple_escape_def printable_def split: if_splits)
    with esc show ?thesis by (simp add: printable_def)
  next
    case u
    have "code c mod 256 = code c" by simp
    moreover have "code c mod 256 < 256" by (rule mod_less_divisor) simp
    ultimately have "code c < 256" by (simp only:)
    then have "code c div 16 < 16" by (simp add: div_less_iff_less_mult)
    then have "printable (hex_digit (code c div 16))" "printable (hex_digit (code c mod 16))"
      using printable_hex by simp_all
    with u show ?thesis by (simp add: u_escape_def printable_def)
  next
    case plain
    then show ?thesis by (simp add: printable_def)
  qed
qed

lemma printable_quote_body: "\<forall>x\<in>set (quote_body s). printable x"
proof (induction s rule: quote_body.induct)
  case (2 c cs)
  consider (ascii) "code c < 128" | (bad) "\<not> code c < 128" "rune_len (c # cs) = 0"
    | (sep) "\<not> code c < 128" "rune_len (c # cs) \<noteq> 0" "line_sep (c # cs)"
    | (rune) n where "\<not> code c < 128" "rune_len (c # cs) = Suc n" "\<not> line_sep (c # cs)"
    by (metis not0_implies_Suc)
  then show ?case
  proof cases
    case ascii
    with "2.IH"(1) printable_quote_char [of c] show ?thesis by (auto simp: quote_body.simps)
  next
    case bad
    with "2.IH"(2) show ?thesis by (auto simp: quote_body.simps printable_def)
  next
    case sep
    with "2.IH"(3) show ?thesis by (auto simp: quote_body.simps sep_escape_def printable_def code_hex_digit)
  next
    case rune
    from rune(1) rune_bytes(1) [OF rune(2,1)] have "\<forall>x\<in>set (take (Suc n) (c # cs)). printable x"
      by (auto simp: printable_def is_cont_def)
    with "2.IH"(4) rune show ?thesis by (auto simp: quote_body.simps)
  qed
qed (simp add: quote_body.simps)

lemma printable_quote: "\<forall>x\<in>set (json_quote s). printable x"
  using printable_quote_body [of s] by (auto simp: json_quote_def printable_def)

lemma json_print_printable:
  "json_ok v \<Longrightarrow> \<forall>x\<in>set (json_print v). printable x"
  "elems_ok vs \<Longrightarrow> \<forall>x\<in>set (print_elems vs). printable x"
  "members_ok ms \<Longrightarrow> \<forall>x\<in>set (print_members ms). printable x"
proof (induction v and vs and ms rule: json_print_print_elems_print_members.induct)
  case (3 n)
  then have "\<forall>c\<in>set n. num_char c" using num_ok_chars by simp
  then show ?case by (auto simp: num_char_def printable_def digit_of_def Let_def split: if_splits)
next
  case (4 s)
  then show ?case using printable_quote by simp
next
  case (10 k raw v ms)
  then show ?case using printable_quote [of k] by (auto simp: printable_def)
qed (auto simp: printable_def)

end
