(* ===== verification/Sha256.thy ===== *)
theory Sha256
  imports "HOL-Library.Word"
begin

text \<open>
  \<^verbatim>\<open>sha256.Sum256\<close> of Go's standard library, from bytes to 32 bytes (FIPS 180-4). The words are
  machine words, whose addition wraps. The initial state and the round constants are the first
  32 bits of the fractional parts of square and cube roots of primes, written in decimal.
\<close>

unbundle bit_operations_syntax

type_synonym w32 = "32 word"

definition sha_k :: "w32 list" where
  "sha_k =
     [1116352408, 1899447441, 3049323471, 3921009573, 961987163, 1508970993,
      2453635748, 2870763221, 3624381080, 310598401, 607225278, 1426881987,
      1925078388, 2162078206, 2614888103, 3248222580, 3835390401, 4022224774,
      264347078, 604807628, 770255983, 1249150122, 1555081692, 1996064986,
      2554220882, 2821834349, 2952996808, 3210313671, 3336571891, 3584528711,
      113926993, 338241895, 666307205, 773529912, 1294757372, 1396182291,
      1695183700, 1986661051, 2177026350, 2456956037, 2730485921, 2820302411,
      3259730800, 3345764771, 3516065817, 3600352804, 4094571909, 275423344,
      430227734, 506948616, 659060556, 883997877, 958139571, 1322822218,
      1537002063, 1747873779, 1955562222, 2024104815, 2227730452, 2361852424,
      2428436474, 2756734187, 3204031479, 3329325298]"

definition sha_init :: "w32 list" where
  "sha_init =
     [1779033703, 3144134277, 1013904242, 2773480762, 1359893119, 2600822924,
      528734635, 1541459225]"

definition rot_xor :: "nat \<Rightarrow> nat \<Rightarrow> w32 \<Rightarrow> w32 \<Rightarrow> w32" where
  "rot_xor i j third x = word_rotr i x XOR word_rotr j x XOR third"

definition big0 :: "w32 \<Rightarrow> w32" where "big0 x = rot_xor 2 13 (word_rotr 22 x) x"
definition big1 :: "w32 \<Rightarrow> w32" where "big1 x = rot_xor 6 11 (word_rotr 25 x) x"
definition small0 :: "w32 \<Rightarrow> w32" where "small0 x = rot_xor 7 18 (drop_bit 3 x) x"
definition small1 :: "w32 \<Rightarrow> w32" where "small1 x = rot_xor 17 19 (drop_bit 10 x) x"

text \<open>The message schedule, newest word first: each step looks 2, 7, 15 and 16 words back.\<close>

fun schedule :: "nat \<Rightarrow> w32 list \<Rightarrow> w32 list" where
  "schedule 0 ws = ws"
| "schedule (Suc n) ws = schedule n ((small1 (ws ! 1) + ws ! 6 + small0 (ws ! 14) + ws ! 15) # ws)"

fun sha_round :: "w32 \<times> w32 \<Rightarrow> w32 list \<Rightarrow> w32 list" where
  "sha_round (k, w) [a, b, c, d, e, f, g, h] =
     (let t1 = h + big1 e + ((e AND f) XOR (NOT e AND g)) + k + w;
          t2 = big0 a + ((a AND b) XOR (a AND c) XOR (b AND c))
      in [t1 + t2, a, b, c, d + t1, e, f, g])"
| "sha_round _ st = st"

fun bytes_to_words :: "nat list \<Rightarrow> w32 list" where
  "bytes_to_words (a # b # c # d # bs) =
     of_nat (((a * 256 + b) * 256 + c) * 256 + d) # bytes_to_words bs"
| "bytes_to_words _ = []"

definition sha_block :: "nat list \<Rightarrow> w32 list \<Rightarrow> w32 list" where
  "sha_block blk st =
     map2 (+) st (fold sha_round (zip sha_k (rev (schedule 48 (rev (bytes_to_words blk))))) st)"

definition be_bytes :: "nat \<Rightarrow> nat \<Rightarrow> nat list" where
  "be_bytes n x = map (\<lambda>i. x div 256 ^ (n - 1 - i) mod 256) [0..<n]"

definition sha_pad :: "nat list \<Rightarrow> nat list" where
  "sha_pad m =
     m @ [128] @ replicate ((119 - length m mod 64) mod 64) 0 @ be_bytes 8 (8 * length m mod 2 ^ 64)"

fun sha_blocks :: "nat \<Rightarrow> nat list \<Rightarrow> w32 list \<Rightarrow> w32 list" where
  "sha_blocks 0 m st = st"
| "sha_blocks (Suc n) m st = sha_blocks n (drop 64 m) (sha_block (take 64 m) st)"

definition sha256 :: "nat list \<Rightarrow> nat list" where
  "sha256 m =
     (let p = sha_pad m
      in concat (map (\<lambda>w. be_bytes 4 (unat w)) (sha_blocks (length p div 64) p sha_init)))"

text \<open>Padding fills whole blocks, so no part of the message is left out.\<close>

lemma length_be_bytes: "length (be_bytes n x) = n"
  by (simp add: be_bytes_def)

lemma sha_pad_blocks: "length (sha_pad m) mod 64 = 0"
proof -
  let ?r = "length m mod 64"
  have r: "?r < 64" by simp
  have "(?r + 9 + (119 - ?r) mod 64) mod 64 = 0"
  proof (cases "?r \<le> 55")
    case True
    then have "119 - ?r = 64 + (55 - ?r)" and "55 - ?r < 64" by simp_all
    then have "(119 - ?r) mod 64 = 55 - ?r" by (metis mod_add_self1 mod_less)
    with True show ?thesis by simp
  next
    case False
    then have "119 - ?r < 64" by simp
    then have "?r + 9 + (119 - ?r) mod 64 = 2 * 64" using r by simp
    then show ?thesis by (metis mod_mult_self2_is_0)
  qed
  then have "(length m + (9 + (119 - ?r) mod 64)) mod 64 = 0"
    by (metis ab_semigroup_add_class.add_ac(1) mod_add_left_eq)
  then show ?thesis by (simp add: sha_pad_def length_be_bytes add_ac)
qed

lemma length_sha_round: "length (sha_round kw st) = length st"
  by (cases "(kw, st)" rule: sha_round.cases) (simp_all add: Let_def)

lemma length_sha_block: "length (sha_block blk st) = length st"
proof -
  have "length (fold sha_round xs s) = length s" for xs and s :: "w32 list"
    by (induction xs arbitrary: s) (simp_all add: length_sha_round)
  then show ?thesis by (simp add: sha_block_def)
qed

lemma length_sha_blocks: "length (sha_blocks n m st) = length st"
  by (induction n arbitrary: m st) (simp_all add: length_sha_block)

lemma length_sha256: "length (sha256 m) = 32"
proof -
  have "length (concat (map (\<lambda>w. be_bytes 4 (unat w)) ws)) = 4 * length ws" for ws :: "w32 list"
    by (induction ws) (simp_all add: length_be_bytes)
  then show ?thesis by (simp add: sha256_def Let_def length_sha_blocks sha_init_def)
qed

lemma sha256_byte: "b \<in> set (sha256 m) \<Longrightarrow> b < 256"
  by (auto simp: sha256_def be_bytes_def Let_def)

end
