(* ===== verification/Tokens.thy ===== *)
theory Tokens
  imports JsonPrint Sha256
begin

text \<open>
  \<^verbatim>\<open>internal/auth\<close>: passwords, refresh tokens and access tokens.

  Refresh tokens are built from the standard library alone (\<open>Encoding\<close>, \<open>Sha256\<close>); the bytes
  that \<^verbatim>\<open>rand.Read\<close> delivers are an argument, \<open>None\<close> when it fails.

  \<^verbatim>\<open>golang.org/x/crypto/bcrypt\<close> and \<^verbatim>\<open>github.com/golang-jwt/jwt\<close> are not part of the repository.
  Each is a record of the functions the code calls, with the behaviour its documentation promises
  as a predicate: \<open>bcrypt_ok\<close> and \<open>jwt_ok\<close>. A point in time and a duration are an \<open>int\<close> of
  nanoseconds; the reading of the clock is an argument.
\<close>

subsection \<open>Passwords\<close>

text \<open>\<open>bc_generate\<close> takes the random salt that the library draws as its last argument.\<close>

record bcrypt =
  bc_generate :: "bytes \<Rightarrow> nat \<Rightarrow> bytes \<Rightarrow> string + bytes"
  bc_compare :: "bytes \<Rightarrow> bytes \<Rightarrow> string option"

definition bcrypt_cost :: nat where
  "bcrypt_cost = 12"

definition hash_password :: "bcrypt \<Rightarrow> bytes \<Rightarrow> bytes \<Rightarrow> string + string" where
  "hash_password B salt plain =
     (case bc_generate B plain bcrypt_cost salt of Inl e \<Rightarrow> Inl e | Inr hash \<Rightarrow> Inr hash)"

definition verify_password :: "bcrypt \<Rightarrow> string \<Rightarrow> string \<Rightarrow> bool" where
  "verify_password B hash plain = (bc_compare B hash plain = None)"

definition bcrypt_ok :: "bcrypt \<Rightarrow> bool" where
  "bcrypt_ok B \<longleftrightarrow> (\<forall>plain cost salt hash. bc_generate B plain cost salt = Inr hash \<longrightarrow> bc_compare B hash plain = None)"

lemma verify_hashed: "bcrypt_ok B \<Longrightarrow> hash_password B salt plain = Inr hash \<Longrightarrow> verify_password B hash plain"
  by (auto simp: bcrypt_ok_def hash_password_def verify_password_def split: sum.splits)

subsection \<open>Refresh tokens\<close>

definition buf_size :: nat where
  "buf_size = 32"

definition hash_refresh_token :: "string \<Rightarrow> string" where
  "hash_refresh_token token = hex_encode (sha256 (map code token))"

definition generate_refresh_token :: "nat list option \<Rightarrow> string + (string \<times> string)" where
  "generate_refresh_token rand_bytes =
     (case rand_bytes of
        None \<Rightarrow> Inl ''fail at rand.Read(buf)''
      | Some buf \<Rightarrow>
          (let token = b64_encode (take buf_size buf);
               hash = hash_refresh_token token
           in Inr (token, hash)))"

text \<open>What \<^verbatim>\<open>rand.Read\<close> promises: it fills the buffer with bytes.\<close>

definition filled :: "nat list \<Rightarrow> bool" where
  "filled buf \<longleftrightarrow> length buf = buf_size \<and> (\<forall>b\<in>set buf. b < 256)"

lemma hash_refresh_token_shape:
  "length (hash_refresh_token t) = 64" "\<forall>c\<in>set (hash_refresh_token t). is_hex c"
proof -
  show "length (hash_refresh_token t) = 64"
    by (simp add: hash_refresh_token_def length_hex_encode length_sha256)
  show "\<forall>c\<in>set (hash_refresh_token t). is_hex c"
    unfolding hash_refresh_token_def using sha256_byte by (intro hex_encode_is_hex) blast
qed

lemma hash_refresh_token_inj:
  "hash_refresh_token s = hash_refresh_token t \<longleftrightarrow> sha256 (map code s) = sha256 (map code t)"
  using hex_encode_inj sha256_byte unfolding hash_refresh_token_def by metis

lemma generate_refresh_token_Some:
  "filled buf \<Longrightarrow> generate_refresh_token (Some buf) = Inr (b64_encode buf, hash_refresh_token (b64_encode buf))"
  by (simp add: generate_refresh_token_def filled_def Let_def)

subsection \<open>Access tokens\<close>

record claims =
  cl_user_id :: string
  cl_username :: string
  cl_role :: string
  cl_subject :: string
  cl_issued_at :: "int option"
  cl_not_before :: "int option"
  cl_expires_at :: "int option"

text \<open>
  A token names its signing method in its header; \<open>HMAC\<close> stands for the methods of the type
  \<^verbatim>\<open>*jwt.SigningMethodHMAC\<close>. \<open>jl_parse\<close> takes the key function and the time; it returns the joined
  errors, or the claims and the flag \<^verbatim>\<open>Valid\<close>. \<open>jl_date\<close> is \<^verbatim>\<open>NewNumericDate\<close>.
\<close>

datatype jwt_method = HMAC string | OtherMethod string

definition hs256 :: jwt_method where
  "hs256 = HMAC ''HS256''"

datatype jwt_error = TokenExpired | TokenNotValidYet | TokenUnverifiable | SignatureInvalid | TokenMalformed

record jwt_lib =
  jl_sign :: "jwt_method \<Rightarrow> claims \<Rightarrow> bytes \<Rightarrow> string + string"
  jl_parse :: "string \<Rightarrow> (jwt_method \<Rightarrow> string + bytes) \<Rightarrow> int \<Rightarrow> jwt_error set + (claims \<times> bool)"
  jl_date :: "int \<Rightarrow> int"

datatype auth_error = ErrInvalidToken | ErrExpiredToken

definition generate_access_token ::
    "jwt_lib \<Rightarrow> string \<Rightarrow> string \<Rightarrow> string \<Rightarrow> bytes \<Rightarrow> int \<Rightarrow> int \<Rightarrow> string + string" where
  "generate_access_token J userID username role secret ttl now =
     (let claims = \<lparr>cl_user_id = userID, cl_username = username, cl_role = role, cl_subject = userID,
                    cl_issued_at = Some (jl_date J now), cl_not_before = Some (jl_date J now),
                    cl_expires_at = Some (jl_date J (now + ttl))\<rparr>
      in case jl_sign J hs256 claims secret of
           Inl e \<Rightarrow> Inl (''sign access token: '' @ e)
         | Inr tok \<Rightarrow> Inr tok)"

definition access_key :: "bytes \<Rightarrow> jwt_method \<Rightarrow> string + bytes" where
  "access_key secret m =
     (case m of HMAC _ \<Rightarrow> Inr secret | OtherMethod alg \<Rightarrow> Inl (''unexpected signing method: '' @ alg))"

definition parse_access_token :: "jwt_lib \<Rightarrow> string \<Rightarrow> bytes \<Rightarrow> int \<Rightarrow> auth_error + claims" where
  "parse_access_token J tokenString secret now =
     (case jl_parse J tokenString (access_key secret) now of
        Inl errs \<Rightarrow> if TokenExpired \<in> errs then Inl ErrExpiredToken else Inl ErrInvalidToken
      | Inr (claims, valid) \<Rightarrow> if \<not> valid then Inl ErrInvalidToken else Inr claims)"

text \<open>
  What the documentation of the library promises. \<open>sig\<close> says which signatures verify: \<open>sig t m c k\<close>
  holds when the token \<open>t\<close> carries the method \<open>m\<close> and the claims \<open>c\<close> and a signature over them that
  is valid under the key \<open>k\<close>. Parsing returns claims only for such a token, under the key that the
  key function gives for its method, and inside the time window of the claims; a token that was
  signed, over claims whose dates are whole seconds, parses to its claims inside the window and fails
  with \<open>TokenExpired\<close> after it. \<^verbatim>\<open>NewNumericDate\<close> cuts a time to the whole second.
\<close>

definition in_window :: "claims \<Rightarrow> int \<Rightarrow> bool" where
  "in_window c now \<longleftrightarrow> (\<forall>e. cl_expires_at c = Some e \<longrightarrow> now < e) \<and> (\<forall>n. cl_not_before c = Some n \<longrightarrow> n \<le> now)"

definition claims_text :: "claims \<Rightarrow> bool" where
  "claims_text c \<longleftrightarrow> utf8_ok (cl_user_id c) \<and> utf8_ok (cl_username c) \<and> utf8_ok (cl_role c) \<and> utf8_ok (cl_subject c)"

definition whole_dates :: "jwt_lib \<Rightarrow> claims \<Rightarrow> bool" where
  "whole_dates J c \<longleftrightarrow>
     (\<forall>d\<in>{cl_issued_at c, cl_not_before c, cl_expires_at c}. map_option (jl_date J) d = d)"

definition jwt_parse_ok :: "jwt_lib \<Rightarrow> (string \<Rightarrow> jwt_method \<Rightarrow> claims \<Rightarrow> bytes \<Rightarrow> bool) \<Rightarrow> bool" where
  "jwt_parse_ok J sig \<longleftrightarrow>
     (\<forall>t kf now c valid. jl_parse J t kf now = Inr (c, valid) \<longrightarrow>
        valid \<and> in_window c now \<and> (\<exists>m k. kf m = Inr k \<and> sig t m c k))"

definition jwt_sign_ok :: "jwt_lib \<Rightarrow> bool" where
  "jwt_sign_ok J \<longleftrightarrow>
     (\<forall>m c k t kf now. jl_sign J m c k = Inr t \<and> claims_text c \<and> whole_dates J c \<and> kf m = Inr k \<longrightarrow>
        (in_window c now \<longrightarrow> jl_parse J t kf now = Inr (c, True)) \<and>
        (\<forall>e. cl_expires_at c = Some e \<and> e \<le> now \<longrightarrow> (\<exists>errs. jl_parse J t kf now = Inl errs \<and> TokenExpired \<in> errs)))"

definition jwt_ok :: "jwt_lib \<Rightarrow> (string \<Rightarrow> jwt_method \<Rightarrow> claims \<Rightarrow> bytes \<Rightarrow> bool) \<Rightarrow> bool" where
  "jwt_ok J sig \<longleftrightarrow> jwt_parse_ok J sig \<and> jwt_sign_ok J \<and>
     (\<forall>t. jl_date J t \<le> t \<and> t < jl_date J t + 10 ^ 9 \<and> jl_date J (jl_date J t) = jl_date J t)"

lemma jwt_ok_date: "jwt_ok J sig \<Longrightarrow> jl_date J x \<le> x \<and> x < jl_date J x + 10 ^ 9 \<and> jl_date J (jl_date J x) = jl_date J x"
  by (simp add: jwt_ok_def)

lemma jwt_ok_valid:
  assumes "jwt_ok J sig" and "jl_parse J t kf now = Inr (c, valid)"
  shows "valid \<and> in_window c now \<and> (\<exists>m k. kf m = Inr k \<and> sig t m c k)"
proof -
  from assms(1) have "jwt_parse_ok J sig" by (simp add: jwt_ok_def)
  with assms(2) show ?thesis unfolding jwt_parse_ok_def by blast
qed

lemma jwt_ok_signed:
  assumes "jwt_ok J sig" and "jl_sign J m c k = Inr t" and "claims_text c" and "whole_dates J c" and "kf m = Inr k"
  shows "(in_window c now \<longrightarrow> jl_parse J t kf now = Inr (c, True)) \<and>
    (\<forall>e. cl_expires_at c = Some e \<and> e \<le> now \<longrightarrow> (\<exists>errs. jl_parse J t kf now = Inl errs \<and> TokenExpired \<in> errs))"
proof -
  from assms(1) have "jwt_sign_ok J" by (simp add: jwt_ok_def)
  from this [unfolded jwt_sign_ok_def, rule_format, of m c k t kf now] assms(2-5) show ?thesis by simp
qed

lemma jwt_ok_parse:
  assumes "jwt_ok J sig" and "parse_access_token J t secret now = Inr c"
  obtains alg where "sig t (HMAC alg) c secret" and "in_window c now"
proof -
  obtain valid where "jl_parse J t (access_key secret) now = Inr (c, valid)"
    using assms(2) by (auto simp: parse_access_token_def split: sum.splits prod.splits if_splits)
  from jwt_ok_valid [OF assms(1) this] obtain m k
    where "in_window c now" "access_key secret m = Inr k" "sig t m c k" by auto
  with that show thesis by (cases m) (auto simp: access_key_def)
qed

definition issued_claims :: "jwt_lib \<Rightarrow> string \<Rightarrow> string \<Rightarrow> string \<Rightarrow> int \<Rightarrow> int \<Rightarrow> claims" where
  "issued_claims J u n r ttl now =
     \<lparr>cl_user_id = u, cl_username = n, cl_role = r, cl_subject = u,
      cl_issued_at = Some (jl_date J now), cl_not_before = Some (jl_date J now),
      cl_expires_at = Some (jl_date J (now + ttl))\<rparr>"

lemma issued_claims_simps [simp]:
  "cl_user_id (issued_claims J u n r ttl now) = u" "cl_username (issued_claims J u n r ttl now) = n"
  "cl_role (issued_claims J u n r ttl now) = r" "cl_subject (issued_claims J u n r ttl now) = u"
  "cl_not_before (issued_claims J u n r ttl now) = Some (jl_date J now)"
  "cl_expires_at (issued_claims J u n r ttl now) = Some (jl_date J (now + ttl))"
  by (simp_all add: issued_claims_def)

lemma generate_access_token_Inr:
  assumes "generate_access_token J u n r secret ttl now = Inr t"
  shows "jl_sign J hs256 (issued_claims J u n r ttl now) secret = Inr t"
  using assms unfolding generate_access_token_def issued_claims_def [symmetric] Let_def
  by (cases "jl_sign J hs256 (issued_claims J u n r ttl now) secret") simp_all

text \<open>What an issued token parses to at any time after its issue.\<close>

lemma issued_token:
  assumes ok: "jwt_ok J sig" and utf: "utf8_ok u" "utf8_ok n" "utf8_ok r"
    and gen: "generate_access_token J u n r secret ttl now = Inr t" and "now \<le> later"
  shows "parse_access_token J t secret later =
    (if later < jl_date J (now + ttl) then Inr (issued_claims J u n r ttl now) else Inl ErrExpiredToken)"
proof -
  let ?c = "issued_claims J u n r ttl now"
  note sgn = generate_access_token_Inr [OF gen]
  have key: "access_key secret hs256 = Inr secret" by (simp add: access_key_def hs256_def)
  have utf': "claims_text ?c" using utf by (simp add: claims_text_def)
  have dates: "whole_dates J ?c" using jwt_ok_date [OF ok] by (simp add: whole_dates_def issued_claims_def)
  show ?thesis
  proof (cases "later < jl_date J (now + ttl)")
    case True
    have "jl_date J now \<le> later" using jwt_ok_date [OF ok, of now] assms(6) by simp
    with True have "in_window ?c later" by (simp add: in_window_def)
    then have "jl_parse J t (access_key secret) later = Inr (?c, True)"
      using jwt_ok_signed [where kf = "access_key secret", OF ok sgn utf' dates key] by blast
    with True show ?thesis by (simp add: parse_access_token_def)
  next
    case False
    then have "jl_date J (now + ttl) \<le> later" by simp
    then obtain errs where "jl_parse J t (access_key secret) later = Inl errs" "TokenExpired \<in> errs"
      using jwt_ok_signed [where kf = "access_key secret" and now = later, OF ok sgn utf' dates key] by auto
    with False show ?thesis by (simp add: parse_access_token_def)
  qed
qed

subsection \<open>Properties\<close>

text \<open>
  A refresh token can be undone to the random bytes it was made of, so no two draws give the
  same token; it is 43 characters that need no escaping in a URL. What the server keeps is 64 hex
  digits, equal for two tokens exactly if their SHA-256 digests are.
\<close>

theorem refresh_token_shape:
  assumes "filled buf" and "filled buf'"
    and "generate_refresh_token (Some buf) = Inr (t, h)" and "generate_refresh_token (Some buf') = Inr (t', h')"
  shows "length t = 43 \<and> (\<forall>c\<in>set t. is_b64url c) \<and> (t = t' \<longleftrightarrow> buf = buf') \<and>
    h = hash_refresh_token t \<and> length h = 64 \<and> (\<forall>c\<in>set h. is_hex c) \<and>
    (h = h' \<longleftrightarrow> sha256 (map code t) = sha256 (map code t'))"
proof -
  have t: "t = b64_encode buf" "h = hash_refresh_token t" "t' = b64_encode buf'" "h' = hash_refresh_token t'"
    using assms by (auto simp: generate_refresh_token_Some)
  have bytes: "\<forall>b\<in>set buf. b < 256" "\<forall>b\<in>set buf'. b < 256" and len: "length buf = 32"
    using assms(1,2) by (simp_all add: filled_def buf_size_def)
  show ?thesis unfolding t
    using b64_encode_alphabet [OF bytes(1)] b64_encode_inj [OF bytes] hash_refresh_token_shape hash_refresh_token_inj len
    by (auto simp: b64_encode_def length_b64_digits)
qed

theorem refresh_token_shape_witness:
  "length (b64_encode (replicate 32 0)) = 43"
proof -
  have f: "filled (replicate 32 0)" by (simp add: filled_def buf_size_def)
  note g = generate_refresh_token_Some [OF f]
  from refresh_token_shape [OF f f g g] show ?thesis by simp
qed

text \<open>
  C19. An access token that \<^verbatim>\<open>GenerateAccessToken\<close> issued is accepted with its claims from the moment
  of issue until its expiry, which is the requested lifetime short of less than a second, and from then on it is
  refused as expired.
\<close>

theorem access_token_lifetime:
  assumes "jwt_ok J sig" and "utf8_ok u" and "utf8_ok n" and "utf8_ok r"
    and "generate_access_token J u n r secret ttl now = Inr t"
  shows "\<exists>c e. cl_user_id c = u \<and> cl_username c = n \<and> cl_role c = r \<and>
    now + ttl - 10 ^ 9 < e \<and> e \<le> now + ttl \<and>
    (\<forall>later. now \<le> later \<longrightarrow>
       parse_access_token J t secret later = (if later < e then Inr c else Inl ErrExpiredToken))"
proof (intro exI conjI allI impI)
  let ?c = "issued_claims J u n r ttl now" and ?e = "jl_date J (now + ttl)"
  show "cl_user_id ?c = u" "cl_username ?c = n" "cl_role ?c = r" by simp_all
  show "now + ttl - 10 ^ 9 < ?e" "?e \<le> now + ttl" using jwt_ok_date [OF assms(1), of "now + ttl"] by simp_all
  show "parse_access_token J t secret later = (if later < ?e then Inr ?c else Inl ErrExpiredToken)" if "now \<le> later" for later
    by (rule issued_token [OF assms that])
qed

text \<open>For the witnesses: a library that signs one set of claims.\<close>

definition minute_claims :: "string \<Rightarrow> string \<Rightarrow> claims" where
  "minute_claims u n =
     \<lparr>cl_user_id = u, cl_username = n, cl_role = ''user'', cl_subject = u,
      cl_issued_at = Some 0, cl_not_before = Some 0, cl_expires_at = Some (60 * 10 ^ 9)\<rparr>"

definition single_lib :: "string \<Rightarrow> string \<Rightarrow> jwt_lib" where
  "single_lib u n =
     \<lparr>jl_sign = (\<lambda>m c k. if m = hs256 \<and> c = minute_claims u n \<and> k = ''key'' then Inr ''jwt'' else Inl ''no''),
      jl_parse = (\<lambda>t kf now.
         if t = ''jwt'' \<and> kf hs256 = Inr ''key'' then
           (if now < 0 then Inl {TokenNotValidYet} else if now < 60 * 10 ^ 9 then Inr (minute_claims u n, True)
            else Inl {TokenExpired})
         else Inl {TokenMalformed}),
      jl_date = (\<lambda>t. t div 10 ^ 9 * 10 ^ 9)\<rparr>"

definition single_sig :: "string \<Rightarrow> string \<Rightarrow> string \<Rightarrow> jwt_method \<Rightarrow> claims \<Rightarrow> bytes \<Rightarrow> bool" where
  "single_sig u n t m c k \<longleftrightarrow> t = ''jwt'' \<and> m = hs256 \<and> c = minute_claims u n \<and> k = ''key''"

lemma date_cut: "t div 10 ^ 9 * 10 ^ 9 \<le> t \<and> t < t div 10 ^ 9 * 10 ^ 9 + (10 ^ 9 :: int)"
proof -
  have "0 < (10 ^ 9 :: int)" by simp
  from pos_mod_bound [OF this, of t] pos_mod_sign [OF this, of t] div_mult_mod_eq [of t "10 ^ 9"]
  show ?thesis by linarith
qed

lemma single_lib_ok: "jwt_ok (single_lib u n) (single_sig u n)"
proof -
  have "jwt_parse_ok (single_lib u n) (single_sig u n)" unfolding jwt_parse_ok_def
    by (auto simp: single_lib_def single_sig_def in_window_def minute_claims_def split: if_splits)
  moreover have "jwt_sign_ok (single_lib u n)" unfolding jwt_sign_ok_def
    by (auto simp: single_lib_def in_window_def minute_claims_def split: if_splits)
  moreover have "jl_date (single_lib u n) t \<le> t \<and> t < jl_date (single_lib u n) t + 10 ^ 9 \<and>
      jl_date (single_lib u n) (jl_date (single_lib u n) t) = jl_date (single_lib u n) t" for t
    using date_cut [of t] by (simp add: single_lib_def)
  ultimately show ?thesis unfolding jwt_ok_def by blast
qed

lemma single_generated: "generate_access_token (single_lib u n) u n ''user'' ''key'' (60 * 10 ^ 9) 0 = Inr ''jwt''"
  by (simp add: generate_access_token_def single_lib_def minute_claims_def)

definition one_claims :: claims where
  "one_claims = minute_claims ''u1'' ''ann''"

definition one_token_lib :: jwt_lib where
  "one_token_lib = single_lib ''u1'' ''ann''"

definition one_sig :: "string \<Rightarrow> jwt_method \<Rightarrow> claims \<Rightarrow> bytes \<Rightarrow> bool" where
  "one_sig = single_sig ''u1'' ''ann''"

lemma one_token_lib_ok: "jwt_ok one_token_lib one_sig"
  unfolding one_token_lib_def one_sig_def by (rule single_lib_ok)

lemma one_token_generated:
  "generate_access_token one_token_lib ''u1'' ''ann'' ''user'' ''key'' (60 * 10 ^ 9) 0 = Inr ''jwt''"
  unfolding one_token_lib_def by (rule single_generated)

theorem access_token_lifetime_witness:
  "parse_access_token one_token_lib ''jwt'' ''key'' 0 \<noteq> Inl ErrInvalidToken"
proof -
  have utf: "utf8_ok ''u1''" "utf8_ok ''ann''" "utf8_ok ''user''" by (simp_all add: utf8_ok_ascii)
  from access_token_lifetime [OF one_token_lib_ok utf one_token_generated] show ?thesis by force
qed

text \<open>
  C20. A token is accepted only if it is signed with an HMAC method under the server's own secret
  and the time is within the window of its claims: a token that names another algorithm, \<^verbatim>\<open>none\<close>
  included, is refused whatever it contains.
\<close>

theorem access_token_needs_hmac:
  assumes "jwt_ok J sig" and "parse_access_token J t secret now = Inr c"
  shows "\<exists>alg. sig t (HMAC alg) c secret \<and> in_window c now"
  using jwt_ok_parse [OF assms] by blast

theorem access_token_needs_hmac_witness:
  "\<exists>alg. one_sig ''jwt'' (HMAC alg) one_claims ''key'' \<and> in_window one_claims 5"
  by (rule access_token_needs_hmac [OF one_token_lib_ok])
     (simp add: parse_access_token_def one_token_lib_def one_claims_def single_lib_def access_key_def hs256_def)

end
