(* ===== verification/Http.thy ===== *)
theory Http
  imports Tokens
begin

text \<open>
  What the program uses of \<^verbatim>\<open>net/http\<close>, and \<^verbatim>\<open>internal/httputil/httputil.go\<close>.

  A \<open>response\<close> is an \<^verbatim>\<open>http.ResponseWriter\<close>: the header map, the status and the headers that were
  sent with it (0 until the first write), the body, the number of flushes, whether the writer can
  flush, and whether the connection is broken. What a handler does to it is a list of \<open>rw_op\<close>.
  A \<open>request\<close> has the values the handlers look at; its two last fields are the values that the
  middlewares put on the context. A handler maps a request and the state of the services to a
  panic, or the operations on the writer and the new state.
\<close>

subsection \<open>Responses\<close>

abbreviation newline :: char where "newline \<equiv> CHR 0x0A"
abbreviation carriage :: char where "carriage \<equiv> CHR 0x0D"

record response =
  rs_header :: "(string, string) gomap"
  rs_status :: nat
  rs_sent :: "(string, string) gomap"
  rs_body :: bytes
  rs_flushes :: nat
  rs_flusher :: bool
  rs_broken :: bool

datatype rw_op = SetHeader string string | WriteHeader nat | WriteBody bytes

text \<open>The first status wins and takes the headers with it; a write without one sends 200.\<close>

definition send_header :: "nat \<Rightarrow> response \<Rightarrow> response" where
  "send_header st w = (if rs_status w = 0 then w\<lparr>rs_status := st, rs_sent := rs_header w\<rparr> else w)"

fun apply_op :: "rw_op \<Rightarrow> response \<Rightarrow> response" where
  "apply_op (SetHeader k v) w = w\<lparr>rs_header := gm_put k v (rs_header w)\<rparr>"
| "apply_op (WriteHeader st) w = send_header st w"
| "apply_op (WriteBody b) w =
     (let w = send_header 200 w in if rs_broken w then w else w\<lparr>rs_body := rs_body w @ b\<rparr>)"

definition flush_response :: "response \<Rightarrow> response" where
  "flush_response w = (send_header 200 w)\<lparr>rs_flushes := Suc (rs_flushes w)\<rparr>"

definition new_response :: response where
  "new_response =
     \<lparr>rs_header = [], rs_status = 0, rs_sent = [], rs_body = [], rs_flushes = 0, rs_flusher = True,
      rs_broken = False\<rparr>"

text \<open>
  The response when the handler has returned: a handler that wrote nothing sends 200. Its body is what
  was written. For a \<^verbatim>\<open>HEAD\<close> request \<^verbatim>\<open>net/http\<close> takes the writes, and answers them with their full
  length, but sends none of it: \<open>client_body\<close> is what the client gets.
\<close>

definition respond :: "rw_op list \<Rightarrow> response" where
  "respond ops = send_header 200 (fold apply_op ops new_response)"

definition http_error :: "string \<Rightarrow> nat \<Rightarrow> rw_op list" where
  "http_error msg st =
     [SetHeader ''Content-Type'' ''text/plain; charset=utf-8'', SetHeader ''X-Content-Type-Options'' ''nosniff'',
      WriteHeader st, WriteBody (msg @ [newline])]"

subsection \<open>Requests and handlers\<close>

record request =
  rq_method :: string
  rq_path :: string
  rq_header :: "(string, string) gomap"
  rq_query :: "(string, string) gomap"
  rq_params :: "(string, string) gomap"
  rq_body :: bytes
  rq_request_id :: "string option"
  rq_claims :: "claims option"

definition client_body :: "request \<Rightarrow> response \<Rightarrow> bytes" where
  "client_body r w = (if rq_method r = ''HEAD'' then [] else rs_body w)"

definition value_of :: "(string, string) gomap \<Rightarrow> string \<Rightarrow> string" where
  "value_of m k = (case gm_get m k of None \<Rightarrow> '''' | Some v \<Rightarrow> v)"

type_synonym 's handler = "request \<Rightarrow> 's \<Rightarrow> panic + (rw_op list \<times> 's)"

subsection \<open>JSON responses\<close>

text \<open>
  \<^verbatim>\<open>Encode\<close> prints the value and a line end in one write, or nothing when the value cannot be
  printed; the error is dropped.
\<close>

definition write_json :: "nat \<Rightarrow> string + bytes \<Rightarrow> rw_op list" where
  "write_json status body =
     [SetHeader ''Content-Type'' ''application/json; charset=utf-8'', WriteHeader status] @
     (case body of Inl e \<Rightarrow> [] | Inr b \<Rightarrow> [WriteBody (b @ [newline])])"

record error_body =
  eb_error :: string
  eb_code :: string

definition print_string_fields :: "(string \<times> string) list \<Rightarrow> bytes" where
  "print_string_fields fs = json_print (JObj (map (\<lambda>(n, v). (n, json_quote v, JStr v)) fs))"

definition encode_error_body :: "error_body \<Rightarrow> bytes" where
  "encode_error_body b = print_string_fields [(''error'', eb_error b), (''code'', eb_code b)]"

definition write_error :: "nat \<Rightarrow> string \<Rightarrow> string \<Rightarrow> rw_op list" where
  "write_error status tag message =
     write_json status (Inr (encode_error_body \<lparr>eb_error = message, eb_code = tag\<rparr>))"

subsection \<open>JSON requests\<close>

text \<open>
  The request structs have string fields only. \<open>BadJSON\<close> stands for everything that stops the
  first \<^verbatim>\<open>Decode\<close> while it reads: a syntax error, an empty body, a body cut off at the limit.
\<close>

datatype decode_error = BadJSON | UnknownField string | WrongType string | NotSingle

fun decode_members ::
    "string list \<Rightarrow> (bytes \<times> bytes \<times> json) list \<Rightarrow> (string \<Rightarrow> string) \<Rightarrow> decode_error + (string \<Rightarrow> string)" where
  "decode_members names [] dst = Inr dst"
| "decode_members names ((k, raw, v) # ms) dst =
     (case match_field names k of
        None \<Rightarrow> Inl (UnknownField k)
      | Some n \<Rightarrow>
          (case v of
             JStr s \<Rightarrow> decode_members names ms (dst(n := s))
           | JNull \<Rightarrow> decode_members names ms dst
           | _ \<Rightarrow> Inl (WrongType n)))"

definition decode_fields :: "string list \<Rightarrow> json \<Rightarrow> decode_error + (string \<Rightarrow> string)" where
  "decode_fields names v =
     (case v of
        JObj ms \<Rightarrow> decode_members names ms (\<lambda>_. '''')
      | JNull \<Rightarrow> Inr (\<lambda>_. '''')
      | _ \<Rightarrow> Inl (WrongType ''''))"

definition decode_json :: "string list \<Rightarrow> bytes \<Rightarrow> int \<Rightarrow> decode_error + (string \<Rightarrow> string)" where
  "decode_json names body maxBytes =
     (let limit = nat (if maxBytes \<le> 0 then 2 ^ 20 else maxBytes)
      in case json_text (take limit body) of
           None \<Rightarrow> Inl BadJSON
         | Some (v, rest) \<Rightarrow>
             (case decode_fields names v of
                Inl err \<Rightarrow> Inl err
              | Inr dst \<Rightarrow> if skip_ws rest = [] \<and> length body \<le> limit then Inr dst else Inl NotSingle))"

lemma respond_write_json:
  "rs_status (respond (write_json st body)) = (if st = 0 then 200 else st)"
  "rs_body (respond (write_json st (Inr b))) = b @ [newline]"
  by (simp_all add: respond_def write_json_def send_header_def new_response_def Let_def split: sum.split)

lemma respond_write_error:
  "rs_status (respond (write_error st tag message)) = (if st = 0 then 200 else st)"
  by (simp add: write_error_def respond_write_json)

lemma respond_http_error: "rs_status (respond (http_error message st)) = (if st = 0 then 200 else st)"
  by (simp add: respond_def http_error_def send_header_def new_response_def Let_def)

lemma decode_members_Inr:
  "decode_members names ms dst = Inr dst' \<Longrightarrow> \<forall>(k, raw, v)\<in>set ms. match_field names k \<noteq> None \<and> (v = JNull \<or> (\<exists>s. v = JStr s))"
  by (induction names ms dst rule: decode_members.induct) (auto split: option.splits json.splits)

lemma match_field_exact: "n \<in> set names \<Longrightarrow> match_field names n = Some n"
  by (simp add: match_field_def)

lemma decode_members_fields:
  "\<forall>(n, v)\<in>set fs. n \<in> set names \<Longrightarrow>
     decode_members names (map (\<lambda>(n, v). (n, json_quote v, JStr v)) fs) dst =
     Inr (fold (\<lambda>(n, v) dst. dst(n := v)) fs dst)"
  by (induction fs arbitrary: dst) (auto simp: match_field_exact)

lemma string_fields_ok:
  "\<forall>(n, v)\<in>set fs. utf8_ok n \<and> utf8_ok v \<Longrightarrow> members_ok (map (\<lambda>(n, v). (n, json_quote v, JStr v)) fs)"
  by (induction fs) auto

lemma string_fields_depth: "members_depth (map (\<lambda>(n, v). (n, json_quote v, JStr v)) fs) = 0"
  by (induction fs) auto

lemma json_text_string_fields:
  assumes "\<forall>(n, v)\<in>set fs. utf8_ok n \<and> utf8_ok v"
  shows "json_text (print_string_fields fs) = Some (JObj (map (\<lambda>(n, v). (n, json_quote v, JStr v)) fs), [])"
  using json_text_print [of "JObj (map (\<lambda>(n, v). (n, json_quote v, JStr v)) fs)" "[]"] string_fields_ok [OF assms]
  by (simp add: print_string_fields_def string_fields_depth max_depth_def num_stop_def)

lemma fold_fields_other: "n \<notin> fst ` set fs \<Longrightarrow> fold (\<lambda>(n, v) dst. dst(n := v)) fs d n = d n"
  by (induction fs arbitrary: d) auto

lemma fold_fields:
  "distinct (map fst fs) \<Longrightarrow> (n, v) \<in> set fs \<Longrightarrow> fold (\<lambda>(n, v) dst. dst(n := v)) fs d n = v"
proof (induction fs arbitrary: d)
  case (Cons f fs)
  show ?case
  proof (cases "(n, v) \<in> set fs")
    case True
    with Cons show ?thesis by simp
  next
    case False
    with Cons.prems(2) have f: "f = (n, v)" by simp
    with Cons.prems(1) have "n \<notin> fst ` set fs" by simp
    from fold_fields_other [OF this, of "d(n := v)"] show ?thesis by (simp only: f fold_simps prod.case fun_upd_same)
  qed
qed simp

lemma decode_json_fields:
  assumes "\<forall>(n, v)\<in>set fs. n \<in> set names" and "\<forall>(n, v)\<in>set fs. utf8_ok n \<and> utf8_ok v"
    and "length (print_string_fields fs) \<le> 2 ^ 20"
  shows "decode_json names (print_string_fields fs) 0 = Inr (fold (\<lambda>(n, v) dst. dst(n := v)) fs (\<lambda>_. ''''))"
proof -
  have all: "take (nat (2 ^ 20)) (print_string_fields fs) = print_string_fields fs"
    using assms(3) by (intro take_all) simp
  have limit: "nat (if (0 :: int) \<le> 0 then 2 ^ 20 else 0) = nat (2 ^ 20)" by (simp only: order_refl if_True)
  show ?thesis
    unfolding decode_json_def Let_def limit all json_text_string_fields [OF assms(2)] option.case prod.case
      decode_fields_def json.case decode_members_fields [OF assms(1)] sum.case
    using assms(3) by (simp add: skip_ws_def)
qed

lemma decode_string_fields:
  assumes "\<forall>(n, v)\<in>set fs. n \<in> set names \<and> utf8_ok n \<and> utf8_ok v" and "distinct (map fst fs)"
    and "length (print_string_fields fs) \<le> 2 ^ 20"
  shows "\<exists>dst. decode_json names (print_string_fields fs) 0 = Inr dst \<and> (\<forall>(n, v)\<in>set fs. dst n = v)"
proof -
  have "\<forall>(n, v)\<in>set fs. n \<in> set names" "\<forall>(n, v)\<in>set fs. utf8_ok n \<and> utf8_ok v" using assms(1) by auto
  from decode_json_fields [OF this assms(3)] fold_fields [OF assms(2)] show ?thesis by auto
qed

subsection \<open>Properties\<close>

text \<open>
  C21. \<^verbatim>\<open>DecodeJSON\<close> is strict. What it accepts is at most as long as the limit and is one JSON value
  that is an object (or \<^verbatim>\<open>null\<close>), every key of which is a field of the request.
\<close>

theorem decode_json_strict:
  assumes "decode_json names body maxBytes = Inr dst"
  shows "length body \<le> nat (if maxBytes \<le> 0 then 2 ^ 20 else maxBytes) \<and>
    (json_whole body = Some JNull \<or>
     (\<exists>ms. json_whole body = Some (JObj ms) \<and> (\<forall>(k, raw, v)\<in>set ms. match_field names k \<noteq> None)))"
proof -
  let ?limit = "nat (if maxBytes \<le> 0 then 2 ^ 20 else maxBytes)"
  obtain v rest where read: "json_text (take ?limit body) = Some (v, rest)" and fields: "decode_fields names v = Inr dst"
    and ws: "skip_ws rest = []" and len: "length body \<le> ?limit"
    using assms unfolding decode_json_def Let_def by (auto split: option.splits prod.splits sum.splits if_splits)
  then have whole: "json_whole body = Some v" by (simp add: json_whole_def)
  have "v = JNull \<or> (\<exists>ms. v = JObj ms \<and> (\<forall>(k, raw, v)\<in>set ms. match_field names k \<noteq> None))"
    using fields by (auto simp: decode_fields_def split: json.splits dest!: decode_members_Inr)
  with whole len show ?thesis by auto
qed

text \<open>For the witnesses: the request of a logout.\<close>

definition logout_text :: "(string \<times> string) list" where
  "logout_text = [(''refresh_token'', ''abc'')]"

lemma logout_text_ok:
  "\<forall>(n, v)\<in>set logout_text. n \<in> set [''refresh_token''] \<and> utf8_ok n \<and> utf8_ok v"
  "length (print_string_fields logout_text) \<le> 2 ^ 20"
  by (simp_all add: logout_text_def utf8_ok_ascii print_string_fields_def json_quote_def quote_body.simps
      quote_char_def html_special_def)

theorem decode_json_strict_witness:
  "length (print_string_fields logout_text) \<le> nat (2 ^ 20)"
proof -
  have "\<forall>(n, v)\<in>set logout_text. n \<in> set [''refresh_token'']" "\<forall>(n, v)\<in>set logout_text. utf8_ok n \<and> utf8_ok v"
    using logout_text_ok(1) by auto
  from decode_json_strict [OF decode_json_fields [OF this logout_text_ok(2)]] show ?thesis by simp
qed

text \<open>
  C22. \<^verbatim>\<open>DecodeJSON\<close> is complete: the JSON text of a request within the limit is decoded to the
  values it was printed from, whatever characters they contain.
\<close>

theorem decode_json_roundtrip:
  assumes "\<forall>(n, v)\<in>set fs. n \<in> set names \<and> utf8_ok n \<and> utf8_ok v" and "distinct (map fst fs)"
    and "length (print_string_fields fs) \<le> 2 ^ 20"
  shows "\<exists>dst. decode_json names (print_string_fields fs) 0 = Inr dst \<and> (\<forall>(n, v)\<in>set fs. dst n = v)"
  by (rule decode_string_fields [OF assms])

theorem decode_json_roundtrip_witness:
  "\<exists>dst. decode_json [''refresh_token''] (print_string_fields logout_text) 0 = Inr dst \<and> dst ''refresh_token'' = ''abc''"
proof -
  have "distinct (map fst logout_text)" by (simp add: logout_text_def)
  from decode_json_roundtrip [OF logout_text_ok(1) this logout_text_ok(2)] show ?thesis
    by (simp add: logout_text_def)
qed

end
