(* ===== verification/Sse.thy ===== *)
theory Sse
  imports Http
begin

text \<open>
  \<^verbatim>\<open>internal/sse/writer.go\<close> and \<^verbatim>\<open>internal/events/events.go\<close>: the wire formats between the
  dispatcher, the gateways and the browsers.

  How \<^verbatim>\<open>json.Marshal\<close> prints the domain object in an envelope depends on a type that the repository
  does not contain, so it is an argument of \<open>events_marshal\<close>.

  \<open>es_parse\<close> is the reference: the parser of an event stream that browsers implement
  (WHATWG HTML, section on server-sent events), without the fields \<open>id\<close> and \<open>retry\<close> that the
  program never writes. The writer is correct when that parser gets back what was written.
\<close>

subsection \<open>Writing events\<close>

datatype write_err = FlushUnsupported | WriteFailed

definition sse_frame :: "string \<Rightarrow> bytes \<Rightarrow> bytes" where
  "sse_frame eventType data =
     (if eventType \<noteq> '''' then ''event: '' @ eventType @ [newline] else []) @
     ''data: '' @ data @ [newline, newline]"

definition raw_write :: "bytes \<Rightarrow> response \<Rightarrow> write_err + response" where
  "raw_write b w = (if rs_broken w then Inl WriteFailed else Inr (apply_op (WriteBody b) w))"

definition write_event :: "string \<Rightarrow> bytes \<Rightarrow> response \<Rightarrow> write_err + response" where
  "write_event eventType data w =
     (if \<not> rs_flusher w then Inl FlushUnsupported
      else sum_map flush_response (raw_write (sse_frame eventType data) w))"

subsection \<open>Envelopes\<close>

record envelope =
  ev_type :: string
  ev_data :: bytes

abbreviation type_comment :: string where "type_comment \<equiv> ''comment''"
abbreviation type_reaction :: string where "type_reaction \<equiv> ''reaction''"

text \<open>
  \<^verbatim>\<open>json.Marshal\<close> of an envelope: the data is a \<^verbatim>\<open>json.RawMessage\<close>, which has to be a JSON text and is
  printed again compactly.
\<close>

definition envelope_text :: "envelope \<Rightarrow> bytes" where
  "envelope_text e =
     CHR ''{'' # json_quote ''type'' @ CHR '':'' # json_quote (ev_type e) @
     CHR '','' # json_quote ''data'' @ CHR '':'' # json_compact Outside (ev_data e) @ [CHR ''}'']"

datatype marshal_error = MarshalData string string | MarshalEnvelope string

definition events_marshal :: "('d \<Rightarrow> string + bytes) \<Rightarrow> string \<Rightarrow> 'd \<Rightarrow> marshal_error + bytes" where
  "events_marshal marshal_data eventType data =
     (case marshal_data data of
        Inl e \<Rightarrow> Inl (MarshalData eventType e)
      | Inr raw \<Rightarrow>
          if json_whole raw = None then Inl (MarshalEnvelope eventType)
          else Inr (envelope_text \<lparr>ev_type = eventType, ev_data = raw\<rparr>))"

text \<open>
  \<^verbatim>\<open>json.Unmarshal\<close> into an envelope: other keys are ignored, a later key overrides an earlier one,
  \<^verbatim>\<open>null\<close> leaves the type as it is.
\<close>

fun envelope_members :: "(bytes \<times> bytes \<times> json) list \<Rightarrow> envelope \<Rightarrow> envelope option" where
  "envelope_members [] env = Some env"
| "envelope_members ((k, raw, v) # ms) env =
     (case match_field [''type'', ''data''] k of
        None \<Rightarrow> envelope_members ms env
      | Some n \<Rightarrow>
          if n = ''data'' then envelope_members ms (env\<lparr>ev_data := raw\<rparr>)
          else (case v of
                  JStr s \<Rightarrow> envelope_members ms (env\<lparr>ev_type := s\<rparr>)
                | JNull \<Rightarrow> envelope_members ms env
                | _ \<Rightarrow> None))"

definition unmarshal_envelope :: "bytes \<Rightarrow> envelope option" where
  "unmarshal_envelope payload =
     (case json_whole payload of
        Some (JObj ms) \<Rightarrow> envelope_members ms \<lparr>ev_type = '''', ev_data = []\<rparr>
      | Some JNull \<Rightarrow> Some \<lparr>ev_type = '''', ev_data = []\<rparr>
      | _ \<Rightarrow> None)"

definition events_split :: "bytes \<Rightarrow> string \<times> bytes" where
  "events_split payload =
     (case unmarshal_envelope payload of
        Some env \<Rightarrow>
          if ev_type env \<noteq> '''' \<and> 0 < length (ev_data env) then (ev_type env, ev_data env)
          else (''message'', payload)
      | None \<Rightarrow> (''message'', payload))"

text \<open>
  Relied on: what \<^verbatim>\<open>json.Marshal\<close> prints for a domain object is the compact text of a JSON value,
  nested less deeply than the reader's limit.
\<close>

definition prints_json :: "('d \<Rightarrow> string + bytes) \<Rightarrow> bool" where
  "prints_json marshal_data \<longleftrightarrow>
     (\<forall>d raw. marshal_data d = Inr raw \<longrightarrow> (\<exists>v. raw = json_print v \<and> json_ok v \<and> json_depth v < max_depth))"

subsection \<open>The reference parser\<close>

fun es_lines :: "bytes \<Rightarrow> bytes \<Rightarrow> bytes list" where
  "es_lines acc [] = []"
| "es_lines acc (c # cs) =
     (if c = newline then rev acc # es_lines [] cs
      else if c = carriage then
        (case cs of d # ds \<Rightarrow> if d = newline then rev acc # es_lines [] ds else rev acc # es_lines [] cs
                  | [] \<Rightarrow> [rev acc])
      else es_lines (c # acc) cs)"

text \<open>A line is a field and a value; one space after the colon is dropped.\<close>

definition es_field :: "bytes \<Rightarrow> string \<times> bytes" where
  "es_field line =
     (case str_index line '':'' of
        None \<Rightarrow> (line, [])
      | Some i \<Rightarrow>
          (let v = drop (Suc i) line
           in (take i line, if prefix '' '' v then drop 1 v else v)))"

text \<open>
  The state is the event type and the lines of data collected so far; a blank line dispatches
  the event unless no data line was seen.
\<close>

fun es_run :: "string \<Rightarrow> bytes list \<Rightarrow> bytes list \<Rightarrow> (string \<times> bytes list) list" where
  "es_run ty ds [] = []"
| "es_run ty ds (l # ls) =
     (if l = [] then
        (if ds = [] then es_run '''' [] ls
         else (if ty = '''' then ''message'' else ty, ds) # es_run '''' [] ls)
      else
        (case es_field l of (f, v) \<Rightarrow>
           if f = ''event'' then es_run v ds ls
           else if f = ''data'' then es_run ty (ds @ [v]) ls
           else es_run ty ds ls))"

definition es_parse :: "bytes \<Rightarrow> (string \<times> bytes list) list" where
  "es_parse body = es_run '''' [] (es_lines [] body)"

subsection \<open>Writing and parsing\<close>

definition one_line :: "bytes \<Rightarrow> bool" where
  "one_line s \<longleftrightarrow> newline \<notin> set s \<and> carriage \<notin> set s"

lemma es_lines_line: "one_line l \<Longrightarrow> es_lines acc (l @ newline # rest) = (rev acc @ l) # es_lines [] rest"
  by (induction l arbitrary: acc) (auto simp: one_line_def)

lemma es_lines_first: "one_line l \<Longrightarrow> es_lines [] (l @ newline # rest) = l # es_lines [] rest"
  by (simp add: es_lines_line)

lemma es_field_value [simp]:
  "es_field (''event: '' @ v) = (''event'', v)"
  "es_field (''data: '' @ v) = (''data'', v)"
  by (simp_all add: es_field_def)

lemma one_line_append: "one_line (s @ t) \<longleftrightarrow> one_line s \<and> one_line t"
  by (auto simp: one_line_def)

lemma one_line_line:
  "one_line v \<Longrightarrow> one_line (''event: '' @ v)"
  "one_line v \<Longrightarrow> one_line (''data: '' @ v)"
  "one_line []" "one_line '': keepalive''"
  by (simp_all add: one_line_def)

definition sse_type :: "string \<Rightarrow> string" where
  "sse_type ty = (if ty = '''' then ''message'' else ty)"

text \<open>One line of the stream read by the reference parser.\<close>

lemma es_lines_blank: "es_lines [] (newline # rest) = [] # es_lines [] rest"
  by simp

lemma es_run_event: "es_run t ds ((''event: '' @ v) # ls) = es_run v ds ls"
proof -
  have "''event: '' @ v \<noteq> []" by simp
  then show ?thesis by (simp only: es_run.simps es_field_value if_False prod.case refl if_True)
qed

lemma es_run_data: "es_run t ds ((''data: '' @ v) # ls) = es_run t (ds @ [v]) ls"
proof -
  have "''data: '' @ v \<noteq> []" and "''data'' \<noteq> ''event''" by simp_all
  then show ?thesis by (simp only: es_run.simps es_field_value if_False prod.case refl if_True)
qed

lemma es_run_blank: "es_run t [v] ([] # ls) = (sse_type t, [v]) # es_run '''' [] ls"
  by (simp add: sse_type_def)

lemma es_parse_frame:
  assumes "one_line ty" and "one_line data"
  shows "es_parse (sse_frame ty data @ rest) = (sse_type ty, [data]) # es_parse rest"
proof -
  let ?tail = "(''data: '' @ data) @ newline # (newline # rest)"
  have data: "es_lines [] ?tail = (''data: '' @ data) # [] # es_lines [] rest"
    unfolding es_lines_first [OF one_line_line(2) [OF assms(2)]] es_lines_blank ..
  have run: "es_run t [] (es_lines [] ?tail) = (sse_type t, [data]) # es_parse rest" for t
    unfolding data es_run_data append_Nil es_run_blank es_parse_def ..
  show ?thesis
  proof (cases "ty = ''''")
    case True
    then have "sse_frame ty data @ rest = ?tail" by (simp add: sse_frame_def)
    then show ?thesis unfolding es_parse_def using run [of "''''"] True by (simp only: es_parse_def)
  next
    case False
    then have "sse_frame ty data @ rest = (''event: '' @ ty) @ newline # ?tail"
      by (simp add: sse_frame_def)
    then have "es_parse (sse_frame ty data @ rest) = es_run ty [] (es_lines [] ?tail)"
      by (simp only: es_parse_def es_lines_first [OF one_line_line(1) [OF assms(1)]] es_run_event)
    then show ?thesis using run by (simp only:)
  qed
qed

lemma es_parse_keepalive: "es_parse ('': keepalive'' @ newline # newline # rest) = es_parse rest"
proof -
  have "es_lines [] ('': keepalive'' @ newline # newline # rest) = '': keepalive'' # [] # es_lines [] rest"
    unfolding es_lines_first [OF one_line_line(4)] es_lines_blank ..
  then show ?thesis unfolding es_parse_def by (simp add: es_field_def)
qed

lemma es_parse_Nil [simp]: "es_parse [] = []"
  by (simp add: es_parse_def)

lemma one_line_message: "one_line ''message''"
  by (simp add: one_line_def)

lemma json_print_one_line:
  assumes "json_ok v"
  shows "one_line (json_print v)"
proof -
  have "printable newline = False" "printable carriage = False" by (simp_all add: printable_def)
  with json_print_printable(1) [OF assms] show ?thesis unfolding one_line_def by blast
qed

lemma json_print_neq_Nil: "json_ok v \<Longrightarrow> json_print v \<noteq> []"
  by (elim json_print_first) simp

text \<open>What the dispatcher marshals, the gateway splits into exactly the type and the printed object.\<close>

lemma events_split_marshal:
  assumes ok: "prints_json marshal_data" and ty: "ty \<noteq> ''''" "utf8_ok ty"
    and marshal: "events_marshal marshal_data ty d = Inr payload"
  obtains raw where "marshal_data d = Inr raw" "events_split payload = (ty, raw)" "one_line raw"
proof -
  obtain raw where raw: "marshal_data d = Inr raw" "payload = envelope_text \<lparr>ev_type = ty, ev_data = raw\<rparr>"
    using marshal by (auto simp: events_marshal_def split: sum.splits if_splits)
  then obtain v where v: "raw = json_print v" "json_ok v" "json_depth v < max_depth"
    using ok unfolding prints_json_def by blast
  let ?ms = "[(''type'', json_quote ty, JStr ty), (''data'', raw, v)]"
  have "json_compact Outside raw = raw"
    using json_compact_print(1) [OF v(2), of "[]"] v(1) by (simp add: json_compact.simps)
  then have "payload = json_print (JObj ?ms)" using raw(2) v(1) by (simp add: envelope_text_def)
  moreover have "json_ok (JObj ?ms)" "json_depth (JObj ?ms) \<le> max_depth"
    using v ty(2) by (simp_all add: utf8_ok_ascii)
  ultimately have "json_whole payload = Some (JObj ?ms)" by (simp only: json_whole_print)
  moreover have "envelope_members ?ms \<lparr>ev_type = '''', ev_data = []\<rparr> = Some \<lparr>ev_type = ty, ev_data = raw\<rparr>"
    by (simp add: match_field_def)
  ultimately have "events_split payload = (ty, raw)"
    using ty(1) json_print_neq_Nil [OF v(2)] v(1) by (simp add: events_split_def unmarshal_envelope_def)
  with raw(1) that json_print_one_line [OF v(2)] v(1) show thesis by blast
qed

subsection \<open>Properties\<close>

text \<open>
  C23. A browser reads back exactly the events that were written, in order: for types and data
  without line ends, parsing the concatenated frames gives the list of events (an empty type is
  read as the default type \<open>message\<close>).
\<close>

theorem sse_roundtrip:
  assumes "\<forall>(ty, data)\<in>set evs. one_line ty \<and> one_line data"
  shows "es_parse (concat (map (\<lambda>(ty, data). sse_frame ty data) evs)) = map (\<lambda>(ty, data). (sse_type ty, [data])) evs"
  using assms by (induction evs) (auto simp: es_parse_frame)

theorem sse_roundtrip_witness:
  "es_parse (sse_frame ''ready'' ''{}'' @ sse_frame '''' ''x'') = [(''ready'', [''{}'']), (''message'', [''x''])]"
proof -
  have "\<forall>(ty, data)\<in>set [(''ready'', ''{}''), ('''', ''x'')]. one_line ty \<and> one_line data"
    by (simp add: one_line_def)
  from sse_roundtrip [OF this] show ?thesis by (simp add: sse_type_def)
qed

text \<open>
  From the dispatcher to the browser: a payload that the dispatcher marshalled under one of
  its event types is split by the gateway into that type and the very text of the object, and the
  frame written for it reaches the browser as exactly one event of that type with that text.
\<close>

theorem event_end_to_end:
  assumes "prints_json marshal_data" and "ty \<in> {''comment'', ''reaction''}"
    and "events_marshal marshal_data ty d = Inr payload"
  shows "\<exists>raw. marshal_data d = Inr raw \<and> events_split payload = (ty, raw) \<and>
    es_parse (sse_frame (fst (events_split payload)) (snd (events_split payload)) @ rest) =
      (ty, [raw]) # es_parse rest"
proof -
  have ty: "ty \<noteq> ''''" "utf8_ok ty" "one_line ty"
    using assms(2) by (auto simp: one_line_def utf8_ok_ascii)
  obtain raw where raw: "marshal_data d = Inr raw" "events_split payload = (ty, raw)" "one_line raw"
    using events_split_marshal [OF assms(1) ty(1,2) assms(3)] by blast
  then show ?thesis using es_parse_frame [OF ty(3) raw(3), of rest] ty(1) by (simp add: sse_type_def)
qed

text \<open>For the witness: objects that print as a number.\<close>

definition print_seven :: "unit \<Rightarrow> string + bytes" where
  "print_seven d = Inr ''7''"

lemma print_seven_ok: "prints_json print_seven"
proof -
  have "''7'' = json_print (JNum ''7'') \<and> json_ok (JNum ''7'') \<and> json_depth (JNum ''7'') < max_depth"
    by (simp add: num_ok_def json_num_def num_int_def digits1_def digit_of_def num_frac_def num_exp_def max_depth_def)
  then show ?thesis unfolding prints_json_def print_seven_def by blast
qed

lemma print_seven_marshals: "\<exists>payload. events_marshal print_seven ty () = Inr payload"
  using json_whole_print [of "JNum ''7''"]
  by (simp add: events_marshal_def print_seven_def num_ok_def json_num_def num_int_def digits1_def digit_of_def num_frac_def
      num_exp_def max_depth_def)

theorem event_end_to_end_witness:
  "\<exists>payload. es_parse (sse_frame (fst (events_split payload)) (snd (events_split payload)) @ []) = [(''comment'', [''7''])]"
proof -
  obtain payload where p: "events_marshal print_seven ''comment'' () = Inr payload" using print_seven_marshals by blast
  have "''comment'' \<in> {''comment'', ''reaction''}" by simp
  from event_end_to_end [OF print_seven_ok this p, of "[]"] show ?thesis
    by (auto simp: print_seven_def)
qed

text \<open>
  The fallback of \<^verbatim>\<open>Split\<close> can forge events. A payload that is no envelope is passed through
  untouched, and line ends in it are not escaped: the browser then sees an event of a type and
  with data of the payload's choosing.
\<close>

theorem split_fallback_injects:
  assumes "payload = a @ [newline, newline] @ ''event: '' @ ty @ [newline] @ ''data: '' @ b"
    and "unmarshal_envelope payload = None"
    and "one_line a" and "one_line b" and "one_line ty" and "ty \<noteq> ''''"
  shows "es_parse (sse_frame (fst (events_split payload)) (snd (events_split payload))) = [(''message'', [a]), (ty, [b])]"
proof -
  have "sse_frame ''message'' payload = sse_frame ''message'' a @ (sse_frame ty b @ [])"
    using assms(1,6) by (simp add: sse_frame_def)
  then have "es_parse (sse_frame ''message'' payload) = [(''message'', [a]), (ty, [b])]"
    using es_parse_frame [OF one_line_message assms(3)] es_parse_frame [OF assms(5,4), of "[]"] assms(6)
    by (simp add: sse_type_def)
  then show ?thesis using assms(2) by (simp add: events_split_def)
qed

definition forged_payload :: bytes where
  "forged_payload = ''x'' @ [newline, newline] @ ''event: '' @ ''comment'' @ [newline] @ ''data: '' @ ''forged''"

theorem split_fallback_injects_witness:
  "es_parse (sse_frame (fst (events_split forged_payload)) (snd (events_split forged_payload))) =
    [(''message'', [''x'']), (''comment'', [''forged''])]"
proof (rule split_fallback_injects [OF forged_payload_def])
  show "unmarshal_envelope forged_payload = None"
  proof -
    have "json_text forged_payload = None" unfolding json_text_def json_value.simps(2)
      by (simp add: forged_payload_def skip_ws_def is_ws_def json_atom_def json_num_def num_int_def digits1_def digit_of_def)
    then show ?thesis by (simp add: unmarshal_envelope_def json_whole_def)
  qed
qed (simp_all add: one_line_def)

end
