(* ===== verification/SseHandler.thy ===== *)
theory SseHandler
  imports FeedSystem Sse
begin

text \<open>
  \<^verbatim>\<open>internal/handlers/sse.go\<close>: one event stream, from the checks of the request to the deferred
  \<^verbatim>\<open>Release\<close>, over the hub of \<open>FeedHub\<close> and the writer of \<open>Sse\<close>.

  \<open>sse_start\<close> is the handler up to its loop: it has returned (\<open>Inl\<close> the response) or it streams
  (\<open>Inr\<close> the connection and the response so far). \<open>sse_turn\<close> is one turn of the loop for the case
  of the \<^verbatim>\<open>select\<close> that was chosen; between two turns anything else may happen to the hub.
  \<^verbatim>\<open>return\<close> runs the deferred \<^verbatim>\<open>Release\<close>.
\<close>

subsection \<open>The handler\<close>

definition sse_headers :: "rw_op list" where
  "sse_headers =
     [SetHeader ''Content-Type'' ''text/event-stream'', SetHeader ''Cache-Control'' ''no-cache'',
      SetHeader ''Connection'' ''keep-alive'', SetHeader ''X-Accel-Buffering'' ''no'']"

definition ready_data :: bytes where
  "ready_data = ''{'' @ [dquote] @ ''status'' @ [dquote] @ '':'' @ [dquote] @ ''connected'' @ [dquote] @ ''}''"

definition sse_return ::
    "'b pubsub \<Rightarrow> conn \<Rightarrow> response \<Rightarrow> 'b hub \<Rightarrow> panic + ((response + (conn \<times> response)) \<times> 'b hub)" where
  "sse_return P k w h = sum_map (\<lambda>h. (Inl w, h)) (hub_release P (cn_post k) (cn_user k) (cn_id k) h)"

definition sse_open ::
    "'b pubsub \<Rightarrow> conn \<Rightarrow> response \<Rightarrow> 'b hub \<Rightarrow> panic + ((response + (conn \<times> response)) \<times> 'b hub)" where
  "sse_open P k w h =
     (let w = fold apply_op sse_headers w
      in if \<not> rs_flusher w then
           sse_return P k (fold apply_op (write_error 500 ''internal_error'' ''streaming not supported'') w) h
         else
           (let w = flush_response w;
                w = (case write_event ''ready'' ready_data w of Inl _ \<Rightarrow> w | Inr w' \<Rightarrow> w')
            in Inr (Inr (k, w), h)))"

definition sse_acquired ::
    "'b pubsub \<Rightarrow> string \<Rightarrow> string \<Rightarrow> response \<Rightarrow> bus_error + (chan_id \<times> string) \<Rightarrow> 'b hub \<Rightarrow>
       panic + ((response + (conn \<times> response)) \<times> 'b hub)" where
  "sse_acquired P postID userID w res h =
     (case res of
        Inl err \<Rightarrow> Inr (Inl (fold apply_op (write_error 500 ''internal_error'' ''failed to subscribe'') w), h)
      | Inr (local, connID) \<Rightarrow>
          sse_open P \<lparr>cn_post = postID, cn_user = userID, cn_id = connID, cn_ch = local\<rparr> w h)"

definition sse_start ::
    "'b pubsub \<Rightarrow> string \<Rightarrow> request \<Rightarrow> response \<Rightarrow> 'b hub \<Rightarrow>
       panic + ((response + (conn \<times> response)) \<times> 'b hub)" where
  "sse_start P uuid r w h =
     (case rq_claims r of
        None \<Rightarrow> Inr (Inl (fold apply_op (write_error 401 ''unauthorized'' ''authentication required'') w), h)
      | Some claims \<Rightarrow>
          (let postID = value_of (rq_params r) ''postID''
           in if postID = '''' then
                Inr (Inl (fold apply_op (write_error 400 ''bad_request'' ''postID is required'') w), h)
              else if \<not> str_contains (value_of (rq_header r) ''Accept'') ''text/event-stream'' then
                Inr (Inl (fold apply_op
                  (write_error 406 ''not_acceptable'' ''Accept must include text/event-stream'') w), h)
              else
                sum_bind (hub_acquire P postID (cl_user_id claims) uuid h) (\<lambda>(res, h).
                  sse_acquired P postID (cl_user_id claims) w res h)))"

datatype sse_case = CtxDone | KeepAliveTick | LocalReady

definition keepalive :: bytes where
  "keepalive = '': keepalive'' @ [newline, newline]"

definition sse_turn ::
    "'b pubsub \<Rightarrow> conn \<Rightarrow> sse_case \<Rightarrow> response \<Rightarrow> 'b hub \<Rightarrow>
       panic + ((response + (conn \<times> response)) \<times> 'b hub)" where
  "sse_turn P k c w h =
     (case c of
        CtxDone \<Rightarrow> sse_return P k w h
      | KeepAliveTick \<Rightarrow>
          (case raw_write keepalive w of
             Inl err \<Rightarrow> sse_return P k w h
           | Inr w \<Rightarrow> Inr (Inr (k, flush_response w), h))
      | LocalReady \<Rightarrow>
          (let (got, ev) = recv_chan (cn_ch k) (hb_events h);
               h = h\<lparr>hb_events := ev\<rparr>
           in case got of
                Blocked \<Rightarrow> Inr (Inr (k, w), h)
              | Drained \<Rightarrow> sse_return P k w h
              | Received payload \<Rightarrow>
                  (let (eventType, data) = events_split payload
                   in case write_event eventType data w of
                        Inl err \<Rightarrow> sse_return P k w h
                      | Inr w \<Rightarrow> Inr (Inr (k, w), h))))"

text \<open>
  A whole stream: before each turn the rest of the gateway may do anything to the hub. \<open>sse_loop\<close>
  ends when the handler returns; \<open>sse_received\<close> lists the payloads taken from the channel.
\<close>

fun sse_loop ::
    "'b pubsub \<Rightarrow> conn \<Rightarrow> (('b hub \<Rightarrow> 'b hub) \<times> sse_case) list \<Rightarrow> response \<Rightarrow> 'b hub \<Rightarrow>
       panic + ((response + (conn \<times> response)) \<times> 'b hub)" where
  "sse_loop P k [] w h = Inr (Inr (k, w), h)"
| "sse_loop P k ((env, c) # turns) w h =
     sum_bind (sse_turn P k c w (env h)) (\<lambda>(res, h).
       case res of Inl w \<Rightarrow> Inr (Inl w, h) | Inr (k, w) \<Rightarrow> sse_loop P k turns w h)"

fun sse_received ::
    "'b pubsub \<Rightarrow> conn \<Rightarrow> (('b hub \<Rightarrow> 'b hub) \<times> sse_case) list \<Rightarrow> response \<Rightarrow> 'b hub \<Rightarrow> bytes list" where
  "sse_received P k [] w h = []"
| "sse_received P k ((env, c) # turns) w h =
     (let now = (case c of
                   LocalReady \<Rightarrow>
                     (case fst (recv_chan (cn_ch k) (hb_events (env h))) of Received p \<Rightarrow> [p] | _ \<Rightarrow> [])
                 | _ \<Rightarrow> [])
      in now @ (case sse_turn P k c w (env h) of
                  Inr (Inr (k, w), h) \<Rightarrow> sse_received P k turns w h | _ \<Rightarrow> []))"

definition out_of :: "response + (conn \<times> response) \<Rightarrow> response" where
  "out_of r = (case r of Inl w \<Rightarrow> w | Inr (k, w) \<Rightarrow> w)"

subsection \<open>The handler keeps to the obligations of a client of the hub\<close>

lemma sse_return_leaves:
  assumes "k \<in> gw_conns g" and "sse_return P k w (gw_hub g) = Inr (res, h)"
  obtains g' where "gateway_step P arrive g (Inr g')" "gw_hub g' = h" "gw_conns g' = gw_conns g - {k}"
    "gw_uuids g' = gw_uuids g" "gw_closed g' = gw_closed g" "res = Inl w"
proof -
  obtain h' where h: "hub_release P (cn_post k) (cn_user k) (cn_id k) (gw_hub g) = Inr h'" "res = Inl w" "h = h'"
    using assms(2) by (auto simp: sse_return_def sum_map_eq_Inr)
  then have "viewer_leaves P k g = Inr (g\<lparr>gw_hub := h', gw_conns := gw_conns g - {k}\<rparr>)"
    by (simp add: viewer_leaves_def)
  with gateway_step.leaves [OF assms(1), of P arrive] h show thesis
    by (intro that [of "g\<lparr>gw_hub := h', gw_conns := gw_conns g - {k}\<rparr>"]) simp_all
qed

context pubsub_bus begin

lemma gw_conn_uuid:
  assumes "gw_inv g" and "\<not> gw_closed g" and "k \<in> gw_conns g"
  shows "cn_id k \<in> gw_uuids g"
  using gw_invD(3) [OF assms(1)] conns_matchD(3) [OF gw_invD(4) [OF assms(1,2)] assms(3)] by blast

text \<open>Starting: the handler returns with the connections as they were, or streams with one more.\<close>

lemma sse_start_steps:
  assumes inv: "gw_inv g" and closed: "\<not> gw_closed g" and new: "uuid \<notin> gw_uuids g"
  shows "\<exists>res h g'. sse_start P uuid r w (gw_hub g) = Inr (res, h) \<and> gateway_reach P arrive g g' \<and> gw_hub g' = h \<and>
    gw_conns g' = (case res of Inl _ \<Rightarrow> gw_conns g | Inr (k, _) \<Rightarrow> insert k (gw_conns g)) \<and>
    (\<forall>k w'. res = Inr (k, w') \<longrightarrow> k \<notin> gw_conns g \<and> cn_id k = uuid \<and> cn_post k = value_of (rq_params r) ''postID'')"
proof (cases "rq_claims r = None \<or> value_of (rq_params r) ''postID'' = '''' \<or>
    \<not> str_contains (value_of (rq_header r) ''Accept'') ''text/event-stream''")
  case True
  then have "\<exists>w'. sse_start P uuid r w (gw_hub g) = Inr (Inl w', gw_hub g)"
    by (cases "rq_claims r") (auto simp: sse_start_def Let_def)
  then show ?thesis using gateway_reach.start [of P arrive g] by fastforce
next
  case False
  then obtain claims where claims: "rq_claims r = Some claims" by auto
  let ?p = "value_of (rq_params r) ''postID''" and ?u = "cl_user_id claims"
  have start: "sse_start P uuid r w (gw_hub g) =
      sum_bind (hub_acquire P ?p ?u uuid (gw_hub g)) (\<lambda>(res, h).
        sse_acquired P ?p ?u w res h)"
    using False claims by (simp add: sse_start_def Let_def)
  note step = gateway_step.joins [OF closed new, of P arrive ?p ?u]
  obtain g1 where g1: "viewer_joins P ?p ?u uuid g = Inr g1" "gw_inv g1"
    using viewer_joins_ok [OF inv closed new] by blast
  then have reach: "gateway_reach P arrive g g1"
    using gateway_reach.step [OF gateway_reach.start] step by metis
  obtain res h where acq: "hub_acquire P ?p ?u uuid (gw_hub g) = Inr (res, h)"
    using g1(1) by (auto simp: viewer_joins_def sum_map_eq_Inr)
  show ?thesis
  proof (cases res)
    case (Inl err)
    with acq g1(1) have "gw_hub g1 = h" "gw_conns g1 = gw_conns g" by (auto simp: viewer_joins_def)
    with reach acq Inl show ?thesis by (auto simp: start sse_acquired_def)
  next
    case (Inr chc)
    obtain ch c where chc: "chc = (ch, c)" by (cases chc)
    let ?k = "\<lparr>cn_post = ?p, cn_user = ?u, cn_id = c, cn_ch = ch\<rparr>"
    have g1': "gw_hub g1 = h" "gw_conns g1 = insert ?k (gw_conns g)" "gw_closed g1 = gw_closed g"
      using acq g1(1) Inr chc by (auto simp: viewer_joins_def)
    have "hub_inv (gw_arrived g) (gw_hub g)" "uuid \<notin> store_conns (hb_store (gw_hub g)) ?p"
      using gw_invD(1,3) [OF inv] new by blast+
    from hub_acquire_cases [OF this, of ?u] have c: "c = uuid" using acq Inr chc by cases auto
    have fresh: "?k \<notin> gw_conns g" using gw_conn_uuid [OF inv closed, of ?k] new c by auto
    have start': "sse_start P uuid r w (gw_hub g) = sse_open P ?k w h"
      using acq Inr chc by (simp add: start sse_acquired_def)
    show ?thesis
    proof (cases "rs_flusher w")
      case True
      then obtain w' where "sse_open P ?k w h = Inr (Inr (?k, w'), h)"
        by (simp add: sse_open_def sse_headers_def Let_def)
      with start' reach g1' fresh c show ?thesis by auto
    next
      case False
      then obtain w' where ret: "sse_open P ?k w h = sse_return P ?k w' h"
        by (simp add: sse_open_def sse_headers_def Let_def)
      have k: "?k \<in> gw_conns g1" using g1' by simp
      obtain g2 where g2: "viewer_leaves P ?k g1 = Inr g2"
        using viewer_leaves_ok [OF g1(2) k] by blast
      then obtain h2 where "sse_return P ?k w' (gw_hub g1) = Inr (Inl w', h2)"
        by (auto simp: viewer_leaves_def sse_return_def sum_map_eq_Inr)
      from sse_return_leaves [where arrive = arrive, OF k this] obtain g3
        where g3: "gateway_step P arrive g1 (Inr g3)" "gw_hub g3 = h2" "gw_conns g3 = gw_conns g1 - {?k}"
        by metis
      have "gw_conns g3 = gw_conns g" using g3(3) g1'(2) fresh by auto
      with gateway_reach.step [OF reach g3(1)] g3(2) start' ret g1'(1)
        \<open>sse_return P ?k w' (gw_hub g1) = Inr (Inl w', h2)\<close>
      show ?thesis by auto
    qed
  qed
qed

text \<open>A turn: a read of the connection's channel, or its departure, or nothing to the hub.\<close>

lemma sse_turn_steps:
  assumes inv: "gw_inv g" and k: "k \<in> gw_conns g"
  shows "\<exists>res h g'. sse_turn P k c w (gw_hub g) = Inr (res, h) \<and> gateway_reach P arrive g g' \<and> gw_hub g' = h \<and>
    gw_conns g' = (case res of Inl _ \<Rightarrow> gw_conns g - {k} | Inr _ \<Rightarrow> gw_conns g) \<and>
    (\<forall>k' w'. res = Inr (k', w') \<longrightarrow> k' = k)"
proof -
  have leave: "\<exists>res h g'. sse_return P k w' (gw_hub g1) = Inr (res, h) \<and> gateway_reach P arrive g g' \<and> gw_hub g' = h \<and>
      gw_conns g' = (case res of Inl _ \<Rightarrow> gw_conns g - {k} | Inr _ \<Rightarrow> gw_conns g) \<and>
      (\<forall>k' w'. res = Inr (k', w') \<longrightarrow> k' = k)"
    if "gw_inv g1" "gw_conns g1 = gw_conns g" "gateway_reach P arrive g g1" for g1 w'
  proof -
    note G = that
    have k1: "k \<in> gw_conns g1" using k G(2) by simp
    obtain g2 where "viewer_leaves P k g1 = Inr g2" using viewer_leaves_ok [OF G(1) k1] by blast
    then obtain h where ret: "sse_return P k w' (gw_hub g1) = Inr (Inl w', h)"
      by (auto simp: viewer_leaves_def sse_return_def sum_map_eq_Inr)
    from sse_return_leaves [where arrive = arrive, OF k1 this] obtain g'
      where g': "gateway_step P arrive g1 (Inr g')" "gw_hub g' = h" "gw_conns g' = gw_conns g1 - {k}"
      by metis
    with gateway_reach.step [OF G(3) g'(1)] ret G(2) show ?thesis by auto
  qed
  note stay = leave [OF inv refl gateway_reach.start]
  show ?thesis
  proof (cases c)
    case CtxDone
    with stay show ?thesis by (simp add: sse_turn_def)
  next
    case KeepAliveTick
    with stay [of w] gateway_reach.start [of P arrive g] show ?thesis
      by (cases "raw_write keepalive w") (fastforce simp: sse_turn_def)+
  next
    case LocalReady
    obtain got ev where got: "recv_chan (cn_ch k) (hb_events (gw_hub g)) = (got, ev)" by fastforce
    let ?g = "snd (viewer_reads k g)"
    have read: "?g = g\<lparr>gw_hub := (gw_hub g)\<lparr>hb_events := ev\<rparr>\<rparr>" using got by (simp add: viewer_reads_def)
    have reach: "gateway_reach P arrive g ?g"
      by (rule gateway_reach.step [OF gateway_reach.start gateway_step.reads [OF k]])
    have conns: "gw_conns ?g = gw_conns g" and hub: "gw_hub ?g = (gw_hub g)\<lparr>hb_events := ev\<rparr>" by (simp_all add: read)
    note ret = leave [OF viewer_reads_ok [OF inv] conns reach, unfolded hub]
    show ?thesis
    proof (cases got)
      case (Received payload)
      obtain ty data where split: "events_split payload = (ty, data)" by fastforce
      show ?thesis
      proof (cases "write_event ty data w")
        case (Inl e)
        with ret [of w] LocalReady got Received split show ?thesis by (simp add: sse_turn_def)
      next
        case (Inr w')
        then have "sse_turn P k c w (gw_hub g) = Inr (Inr (k, w'), (gw_hub g)\<lparr>hb_events := ev\<rparr>)"
          using LocalReady got Received split by (simp add: sse_turn_def)
        with reach conns hub show ?thesis by fastforce
      qed
    next
      case Blocked
      then have "sse_turn P k c w (gw_hub g) = Inr (Inr (k, w), (gw_hub g)\<lparr>hb_events := ev\<rparr>)"
        using LocalReady got by (simp add: sse_turn_def)
      with reach conns hub show ?thesis by fastforce
    next
      case Drained
      with ret [of w] LocalReady got show ?thesis by (simp add: sse_turn_def)
    qed
  qed
qed

end

subsection \<open>The stream\<close>

text \<open>A body that consists of whole frames: \<open>evs\<close> is what it parses to, whatever follows.\<close>

definition framed :: "bytes \<Rightarrow> (string \<times> bytes list) list \<Rightarrow> bool" where
  "framed b evs \<longleftrightarrow> (\<forall>rest. es_parse (b @ rest) = evs @ es_parse rest)"

lemma framed_Nil: "framed [] []"
  by (simp add: framed_def)

lemma framed_parse: "framed b evs \<Longrightarrow> es_parse b = evs"
  using es_parse_Nil unfolding framed_def by (metis append_Nil2)

lemma framed_event:
  assumes "framed b evs" and "one_line ty" and "one_line data"
  shows "framed (b @ sse_frame ty data) (evs @ [(sse_type ty, [data])])"
  using assms by (simp add: framed_def es_parse_frame)

lemma framed_keepalive: "framed b evs \<Longrightarrow> framed (b @ keepalive) evs"
  using es_parse_keepalive unfolding framed_def keepalive_def by (metis append_assoc append_Cons append_Nil)

text \<open>A response that is streaming well.\<close>

definition streaming :: "response \<Rightarrow> (string \<times> bytes list) list \<Rightarrow> bool" where
  "streaming w evs \<longleftrightarrow>
     rs_flusher w \<and> \<not> rs_broken w \<and> rs_status w = 200 \<and>
     gm_get (rs_sent w) ''Content-Type'' = Some ''text/event-stream'' \<and> framed (rs_body w) evs"

definition sse_event :: "bytes \<Rightarrow> string \<times> bytes list" where
  "sse_event payload = (sse_type (fst (events_split payload)), [snd (events_split payload)])"

definition fits_frame :: "bytes \<Rightarrow> bool" where
  "fits_frame payload \<longleftrightarrow> one_line (fst (events_split payload)) \<and> one_line (snd (events_split payload))"

lemma streaming_event:
  assumes "streaming w evs" and "one_line ty" and "one_line data"
  obtains w' where "write_event ty data w = Inr w'" "streaming w' (evs @ [(sse_type ty, [data])])"
  using assms framed_event [of "rs_body w" evs ty data]
  by (simp add: streaming_def write_event_def raw_write_def send_header_def flush_response_def Let_def)

lemma streaming_keepalive:
  assumes "streaming w evs"
  obtains w' where "raw_write keepalive w = Inr w'" "streaming (flush_response w') evs"
  using assms framed_keepalive [of "rs_body w" evs]
  by (simp add: streaming_def raw_write_def send_header_def flush_response_def Let_def)

lemma sse_return_out: "sse_return P k w h = Inr (res, h') \<Longrightarrow> res = Inl w"
  by (auto simp: sse_return_def sum_map_eq_Inr)

definition received_now :: "conn \<Rightarrow> sse_case \<Rightarrow> 'b hub \<Rightarrow> bytes list" where
  "received_now k c h =
     (case c of
        LocalReady \<Rightarrow> (case fst (recv_chan (cn_ch k) (hb_events h)) of Received p \<Rightarrow> [p] | _ \<Rightarrow> [])
      | _ \<Rightarrow> [])"

lemma sse_received_Cons:
  "sse_received P k ((env, c) # turns) w h =
     received_now k c (env h) @
     (case sse_turn P k c w (env h) of Inr (Inr (k, w), h) \<Rightarrow> sse_received P k turns w h | _ \<Rightarrow> [])"
  by (simp add: received_now_def)

lemma sse_turn_streaming:
  assumes ok: "streaming w evs" and turn: "sse_turn P k c w h = Inr (res, h')"
    and fits: "\<forall>p\<in>set (received_now k c h). fits_frame p"
  shows "streaming (out_of res) (evs @ map sse_event (received_now k c h))"
    and "res = Inr (k', w') \<Longrightarrow> k' = k"
proof -
  have ret: "streaming (out_of res) evs \<and> res \<noteq> Inr (k', w')" if "sse_return P k w x = Inr (res, h')" for x
    using sse_return_out [OF that] ok by (simp add: out_of_def)
  have "streaming (out_of res) (evs @ map sse_event (received_now k c h)) \<and> (res = Inr (k', w') \<longrightarrow> k' = k)"
  proof (cases c)
    case CtxDone
    with ret [of h] turn show ?thesis by (simp add: sse_turn_def received_now_def)
  next
    case KeepAliveTick
    obtain v where "raw_write keepalive w = Inr v" "streaming (flush_response v) evs"
      using streaming_keepalive [OF ok] .
    with KeepAliveTick turn show ?thesis by (auto simp: sse_turn_def received_now_def out_of_def)
  next
    case LocalReady
    obtain got ev where got: "recv_chan (cn_ch k) (hb_events h) = (got, ev)" by fastforce
    show ?thesis
    proof (cases got)
      case Blocked
      with LocalReady got turn ok show ?thesis by (auto simp: sse_turn_def received_now_def out_of_def)
    next
      case Drained
      with LocalReady got turn ret [of "h\<lparr>hb_events := ev\<rparr>"] show ?thesis
        by (simp add: sse_turn_def received_now_def)
    next
      case (Received p)
      obtain ty data where split: "events_split p = (ty, data)" by fastforce
      have line: "one_line ty" "one_line data"
        using fits LocalReady got Received split by (simp_all add: received_now_def fits_frame_def)
      obtain v where "write_event ty data w = Inr v" "streaming v (evs @ [(sse_type ty, [data])])"
        using streaming_event [OF ok line] .
      with LocalReady got Received split turn show ?thesis
        by (auto simp: sse_turn_def received_now_def out_of_def sse_event_def)
    qed
  qed
  then show "streaming (out_of res) (evs @ map sse_event (received_now k c h))" "res = Inr (k', w') \<Longrightarrow> k' = k"
    by simp_all
qed

lemma sse_loop_streaming:
  assumes "streaming w evs" and "sse_loop P k turns w h = Inr (res, h')"
    and "\<forall>p\<in>set (sse_received P k turns w h). fits_frame p"
  shows "streaming (out_of res) (evs @ map sse_event (sse_received P k turns w h))"
  using assms
proof (induction turns arbitrary: w h evs)
  case Nil
  then show ?case by (auto simp: out_of_def)
next
  case (Cons t turns)
  obtain env c where t: "t = (env, c)" by (cases t)
  obtain res1 h1 where turn: "sse_turn P k c w (env h) = Inr (res1, h1)"
    using Cons.prems(2) by (auto simp: t sum_bind_eq_Inr)
  have fits: "\<forall>p\<in>set (received_now k c (env h)). fits_frame p"
    using Cons.prems(3) unfolding t sse_received_Cons by auto
  note ok = sse_turn_streaming [OF Cons.prems(1) turn fits]
  show ?case
  proof (cases res1)
    case (Inl w1)
    with turn Cons.prems(2) have "res = res1" by (simp add: t)
    with ok(1) turn Inl show ?thesis unfolding t sse_received_Cons by simp
  next
    case (Inr kw)
    obtain k1 w1 where kw: "res1 = Inr (k1, w1)" using Inr by (cases kw) simp
    have k1: "k1 = k" using ok(2) [OF kw] .
    have "streaming w1 (evs @ map sse_event (received_now k c (env h)))" using ok(1) kw by (simp add: out_of_def)
    moreover have "sse_loop P k turns w1 h1 = Inr (res, h')" using Cons.prems(2) turn kw k1 by (simp add: t)
    moreover have "\<forall>p\<in>set (sse_received P k turns w1 h1). fits_frame p"
      using Cons.prems(3) turn kw k1 unfolding t sse_received_Cons by simp
    ultimately have "streaming (out_of res) ((evs @ map sse_event (received_now k c (env h))) @
        map sse_event (sse_received P k turns w1 h1))"
      by (rule Cons.IH)
    with turn kw k1 show ?thesis unfolding t sse_received_Cons by simp
  qed
qed

lemma sse_start_streaming:
  assumes "sse_start P uuid r new_response h = Inr (Inr (k, w), h1)"
  shows "streaming w [(''ready'', [ready_data])]"
proof -
  obtain k' h' where open': "sse_open P k' new_response h' = Inr (Inr (k, w), h1)"
  proof -
    obtain p u res h' where "sse_acquired P p u new_response res h' = Inr (Inr (k, w), h1)"
      using assms by (auto simp: sse_start_def Let_def sum_bind_eq_Inr split: option.splits if_splits)
    then show thesis using that by (cases res) (auto simp: sse_acquired_def)
  qed
  let ?w = "flush_response (fold apply_op sse_headers new_response)"
  have w0: "streaming ?w []"
    by (simp add: streaming_def sse_headers_def new_response_def flush_response_def send_header_def framed_Nil)
  have "one_line ''ready''" "one_line ready_data" by (simp_all add: one_line_def ready_data_def)
  from streaming_event [OF w0 this] obtain v
    where v: "write_event ''ready'' ready_data ?w = Inr v" "streaming v [(''ready'', [ready_data])]"
    by (auto simp: sse_type_def)
  have "rs_flusher (fold apply_op sse_headers new_response)" by (simp add: sse_headers_def new_response_def)
  with v open' show ?thesis by (simp add: sse_open_def Let_def)
qed

subsection \<open>Properties\<close>

lemma gateway_reach_trans:
  "gateway_reach P arrive g2 g3 \<Longrightarrow> gateway_reach P arrive g1 g2 \<Longrightarrow> gateway_reach P arrive g1 g3"
  by (induction rule: gateway_reach.induct) (auto intro: gateway_reach.step)

text \<open>
  C24. The event-stream handler is a well-behaved client of the hub, on every path. Its start never
  panics and either streams, with exactly its own new connection added, or has returned with the
  connections as they were, also when the subscription fails or the writer cannot stream. A turn
  of its loop never panics; when the handler returns (the client left, a write failed, the
  channel was closed) exactly its own connection is released. Every hub state it produces is
  one of the feed's runs, so all properties of the feed hold with the real handlers.
\<close>

theorem sse_sessions_pair:
  assumes "feed_reach cl r g"
  shows "(\<not> gw_closed g \<and> uuid \<notin> gw_uuids g \<longrightarrow>
      (\<exists>res h g'. sse_start (redis_pubsub cl) uuid req w (gw_hub g) = Inr (res, h) \<and>
         feed_reach cl r g' \<and> gw_hub g' = h \<and>
         gw_conns g' = (case res of Inl _ \<Rightarrow> gw_conns g | Inr (k, _) \<Rightarrow> insert k (gw_conns g)) \<and>
         (\<forall>k w'. res = Inr (k, w') \<longrightarrow> k \<notin> gw_conns g \<and> cn_post k = value_of (rq_params req) ''postID''))) \<and>
    (\<forall>k\<in>gw_conns g. \<exists>res h g'. sse_turn (redis_pubsub cl) k c w (gw_hub g) = Inr (res, h) \<and>
         feed_reach cl r g' \<and> gw_hub g' = h \<and>
         gw_conns g' = (case res of Inl _ \<Rightarrow> gw_conns g - {k} | Inr _ \<Rightarrow> gw_conns g))"
proof (intro conjI impI ballI)
  note inv = feed_reach_inv [OF assms]
  note onward = gateway_reach_trans [OF _ assms]
  show "\<exists>res h g'. sse_start (redis_pubsub cl) uuid req w (gw_hub g) = Inr (res, h) \<and>
      feed_reach cl r g' \<and> gw_hub g' = h \<and>
      gw_conns g' = (case res of Inl _ \<Rightarrow> gw_conns g | Inr (k, _) \<Rightarrow> insert k (gw_conns g)) \<and>
      (\<forall>k w'. res = Inr (k, w') \<longrightarrow> k \<notin> gw_conns g \<and> cn_post k = value_of (rq_params req) ''postID'')"
    if "\<not> gw_closed g \<and> uuid \<notin> gw_uuids g"
    using redis.sse_start_steps [where uuid = uuid and r = req and w = w, OF inv] that onward by blast
  show "\<exists>res h g'. sse_turn (redis_pubsub cl) k c w (gw_hub g) = Inr (res, h) \<and>
      feed_reach cl r g' \<and> gw_hub g' = h \<and>
      gw_conns g' = (case res of Inl _ \<Rightarrow> gw_conns g - {k} | Inr _ \<Rightarrow> gw_conns g)"
    if "k \<in> gw_conns g" for k
    using redis.sse_turn_steps [where c = c and w = w, OF inv that] onward by blast
qed

theorem sse_sessions_pair_witness:
  "\<exists>res h. sse_turn (redis_pubsub loopback_client) demo_conn CtxDone new_response demo_hub = Inr (res, h)"
proof -
  have "demo_conn \<in> gw_conns demo_gateway" "gw_hub demo_gateway = demo_hub" by (simp_all add: demo_gateway_def)
  with sse_sessions_pair [OF demo_reach] show ?thesis by metis
qed

text \<open>
  C25. What the browser sees, if every payload taken from the channel splits into a type and data without
  line ends (\<open>fits_frame\<close>, the condition under which \<^verbatim>\<open>WriteEvent\<close> may be called). Whatever the rest of the
  gateway does between the turns of the loop, the stream of a connection is a 200 response of type
  \<^verbatim>\<open>text/event-stream\<close> that parses to the event \<^verbatim>\<open>ready\<close> followed by exactly the payloads taken
  from the connection's channel, in order, each as one event of its type; keepalives leave no
  trace. The envelopes of the dispatcher fulfil the condition (\<open>feed_write_on_wire\<close>); nothing in
  the gateway checks it, so another publisher on Redis may break the stream.
\<close>

theorem sse_stream_faithful:
  assumes "sse_start P uuid r new_response h = Inr (Inr (k, w), h1)"
    and "sse_loop P k turns w h1 = Inr (res, h2)"
    and "\<forall>p\<in>set (sse_received P k turns w h1). fits_frame p"
  shows "rs_status (out_of res) = 200 \<and>
    gm_get (rs_sent (out_of res)) ''Content-Type'' = Some ''text/event-stream'' \<and>
    es_parse (rs_body (out_of res)) = (''ready'', [ready_data]) # map sse_event (sse_received P k turns w h1)"
proof -
  from sse_loop_streaming [OF sse_start_streaming [OF assms(1)] assms(2,3)]
  have "streaming (out_of res) ((''ready'', [ready_data]) # map sse_event (sse_received P k turns w h1))" by simp
  then show ?thesis using framed_parse by (simp add: streaming_def)
qed

text \<open>For the witness: a viewer of post 1 whose channel gets the payload \<^verbatim>\<open>hi\<close>.\<close>

definition demo_request :: request where
  "demo_request =
     \<lparr>rq_method = ''PUT'', rq_path = ''/sse/posts/1/subscriptions'', rq_header = [(''Accept'', ''text/event-stream'')],
      rq_query = [], rq_params = [(''postID'', ''1'')], rq_body = [], rq_request_id = None,
      rq_claims = Some (one_claims\<lparr>cl_user_id := ''u''\<rparr>)\<rparr>"

lemma demo_start:
  "\<exists>w. sse_start (redis_pubsub loopback_client) ''c'' demo_request new_response (new_hub (new_redis []) new_store) =
     Inr (Inr (demo_conn, w), demo_hub)"
proof -
  have "hub_acquire (redis_pubsub loopback_client) ''1'' ''u'' ''c'' (new_hub (new_redis []) new_store) =
      Inr (Inr (0, ''c''), demo_hub)"
    by (simp add: new_hub_def hub_acquire_def redis_pubsub_def
        redis_subscribe_def new_redis_def loopback_client_def subs_of_def ensure_reader_def
        add_consumer_def make_chan_def empty_heap_def sub_buffer_def post_channel_def
        acquire_finish_def store_subscribe_def new_store_def Let_def demo_hub_def demo_bus_def)
  then show ?thesis
    by (simp add: sse_start_def demo_request_def value_of_def one_claims_def minute_claims_def str_contains_def sse_acquired_def sse_open_def
        sse_headers_def new_response_def demo_conn_def Let_def)
qed

lemma split_hi: "events_split ''hi'' = (''message'', ''hi'')"
proof -
  have "json_text ''hi'' = None" unfolding json_text_def json_value.simps(2)
    by (simp add: skip_ws_def is_ws_def json_atom_def json_num_def num_int_def digits1_def digit_of_def)
  then show ?thesis by (simp add: events_split_def unmarshal_envelope_def json_whole_def)
qed

theorem sse_stream_faithful_witness:
  "\<exists>w h1 res h2.
     sse_start (redis_pubsub loopback_client) ''c'' demo_request new_response (new_hub (new_redis []) new_store) =
       Inr (Inr (demo_conn, w), h1) \<and>
     sse_loop (redis_pubsub loopback_client) demo_conn [(\<lambda>_. gw_hub demo_delivered, LocalReady)] w h1 = Inr (res, h2) \<and>
     es_parse (rs_body (out_of res)) = [(''ready'', [ready_data]), (''message'', [''hi''])]"
proof -
  let ?P = "redis_pubsub loopback_client" and ?turns = "[(\<lambda>_ :: string list redis_bus hub. gw_hub demo_delivered, LocalReady)]"
  obtain w where start: "sse_start ?P ''c'' demo_request new_response (new_hub (new_redis []) new_store) =
      Inr (Inr (demo_conn, w), demo_hub)"
    using demo_start by blast
  have line: "one_line ''message''" "one_line ''hi''" by (simp_all add: one_line_def)
  obtain w' where w': "write_event ''message'' ''hi'' w = Inr w'"
    using streaming_event [OF sse_start_streaming [OF start] line] by metis
  obtain ev where recv: "recv_chan (cn_ch demo_conn) (hb_events (gw_hub demo_delivered)) = (Received ''hi'', ev)"
    by (simp add: demo_conn_def demo_delivered_def recv_chan_def)
  have loop: "sse_loop ?P demo_conn ?turns w demo_hub = Inr (Inr (demo_conn, w'), (gw_hub demo_delivered)\<lparr>hb_events := ev\<rparr>)"
    using recv w' by (simp add: sse_turn_def split_hi)
  have got: "sse_received ?P demo_conn ?turns w demo_hub = [''hi'']"
    using recv by (simp add: sse_turn_def split: sum.split)
  have "\<forall>p\<in>set (sse_received ?P demo_conn ?turns w demo_hub). fits_frame p"
    unfolding got using line by (simp add: fits_frame_def split_hi)
  from sse_stream_faithful [OF start loop this] start loop show ?thesis
    unfolding got by (auto simp: sse_event_def split_hi sse_type_def)
qed

subsection \<open>Streams end with the hub\<close>

text \<open>
  \<open>shut k n h\<close>: the hub has been closed, and at most \<open>n\<close> payloads are left for connection \<open>k\<close>.
\<close>

definition shut :: "conn \<Rightarrow> nat \<Rightarrow> 'b hub \<Rightarrow> bool" where
  "shut k n h \<longleftrightarrow> hb_posts h = [] \<and> hb_store h = [] \<and>
     (\<exists>ch. cells (hb_events h) (cn_ch k) = Some ch \<and> ch_closed ch \<and> length (ch_buf ch) \<le> n)"

lemma hub_release_shut: "shut k n h \<Longrightarrow> hub_release P p u c h = Inr h"
  by (simp add: shut_def hub_release_def store_unsubscribe_def Let_def)

lemma sse_return_shut: "shut k n h \<Longrightarrow> sse_return P k w h = Inr (Inl w, h)"
  by (simp add: sse_return_def hub_release_shut)

text \<open>One turn after the close: the handler returns, or it has used up one of the payloads left.\<close>

lemma sse_turn_shut:
  assumes "shut k n h"
  shows "(\<exists>w' h'. sse_turn P k c w h = Inr (Inl w', h')) \<or>
    (\<exists>w' h'. sse_turn P k c w h = Inr (Inr (k, w'), h') \<and> shut k n h' \<and>
       (c = LocalReady \<longrightarrow> 0 < n \<and> shut k (n - 1) h'))"
proof (cases c)
  case CtxDone
  then show ?thesis by (simp add: sse_turn_def sse_return_shut [OF assms])
next
  case KeepAliveTick
  then show ?thesis using assms
    by (cases "raw_write keepalive w") (simp_all add: sse_turn_def sse_return_shut [OF assms])
next
  case LocalReady
  obtain ch where ch: "cells (hb_events h) (cn_ch k) = Some ch" "ch_closed ch" "length (ch_buf ch) \<le> n"
    using assms by (auto simp: shut_def)
  show ?thesis
  proof (cases "ch_buf ch")
    case Nil
    then show ?thesis using ch LocalReady by (simp add: sse_turn_def recv_chan_def sse_return_shut [OF assms])
  next
    case (Cons p ps)
    let ?ev = "(hb_events h)\<lparr>cells := (cells (hb_events h))(cn_ch k \<mapsto> ch\<lparr>ch_buf := ps\<rparr>)\<rparr>"
    have recv: "recv_chan (cn_ch k) (hb_events h) = (Received p, ?ev)" using ch(1) Cons by (simp add: recv_chan_def)
    have shut: "shut k n (h\<lparr>hb_events := ?ev\<rparr>)" "0 < n" "shut k (n - 1) (h\<lparr>hb_events := ?ev\<rparr>)"
      using assms ch Cons by (auto simp: shut_def)
    obtain ty data where split: "events_split p = (ty, data)" by fastforce
    have turn: "sse_turn P k LocalReady w h = (case write_event ty data w of
        Inl err \<Rightarrow> Inr (Inl w, h\<lparr>hb_events := ?ev\<rparr>) | Inr w' \<Rightarrow> Inr (Inr (k, w'), h\<lparr>hb_events := ?ev\<rparr>))"
      using recv split by (simp add: sse_turn_def Let_def sse_return_shut [OF shut(1)] split: sum.split)
    show ?thesis using shut unfolding LocalReady turn by (cases "write_event ty data w") simp_all
  qed
qed

lemma sse_loop_shut:
  assumes "shut k n h" and "\<forall>(env, c)\<in>set turns. \<forall>h m. shut k m h \<longrightarrow> shut k m (env h)"
    and "n < length (filter (\<lambda>(env, c). c = LocalReady) turns)"
  shows "\<exists>w' h'. sse_loop P k turns w h = Inr (Inl w', h')"
  using assms
proof (induction turns arbitrary: n w h)
  case (Cons t turns)
  obtain env c where t: "t = (env, c)" by (cases t)
  have shut: "shut k n (env h)" using Cons.prems(1,2) t by simp
  have rest: "\<forall>(env, c)\<in>set turns. \<forall>h m. shut k m h \<longrightarrow> shut k m (env h)" using Cons.prems(2) by simp
  from sse_turn_shut [OF shut, of P c w] show ?case
  proof (elim disjE exE conjE)
    fix w' h' assume "sse_turn P k c w (env h) = Inr (Inl w', h')"
    then show ?thesis by (simp add: t)
  next
    fix w' h'
    assume turn: "sse_turn P k c w (env h) = Inr (Inr (k, w'), h')" and same: "shut k n h'"
      and used: "c = LocalReady \<longrightarrow> 0 < n \<and> shut k (n - 1) h'"
    have "\<exists>w2 h2. sse_loop P k turns w' h' = Inr (Inl w2, h2)"
    proof (cases "c = LocalReady")
      case True
      then have "n - 1 < length (filter (\<lambda>(env, c). c = LocalReady) turns)" using Cons.prems(3) used by (auto simp: t)
      with Cons.IH [OF _ rest] used True show ?thesis by blast
    next
      case False
      then have "n < length (filter (\<lambda>(env, c). c = LocalReady) turns)" using Cons.prems(3) by (simp add: t)
      with Cons.IH [OF same rest] show ?thesis by blast
    qed
    then show ?thesis by (simp add: t turn)
  qed
qed simp

text \<open>
  C26. Every stream ends after the hub was closed. Once it has, a handler returns after at most as
  many reads of its channel as payloads were still buffered, and one more that finds the channel
  closed: however keepalives come in between, whether its client is still there or not, and
  whatever the other handlers do, as long as they leave the closed hub and this channel alone
  (\<open>shut\<close>). It does so without panic.
\<close>

theorem sse_ends_after_close:
  assumes "feed_reach cl r g" and "gw_closed g" and "k \<in> gw_conns g"
    and "\<forall>(env, c)\<in>set turns. \<forall>h m. shut k m h \<longrightarrow> shut k m (env h)"
    and "length (buffered (hb_events (gw_hub g)) (cn_ch k)) < length (filter (\<lambda>(env, c). c = LocalReady) turns)"
  shows "\<exists>w' h'. sse_loop (redis_pubsub cl) k turns w (gw_hub g) = Inr (Inl w', h')"
proof (rule sse_loop_shut)
  show "length (buffered (hb_events (gw_hub g)) (cn_ch k)) < length (filter (\<lambda>(env, c). c = LocalReady) turns)"
    by (rule assms(5))
  show "\<forall>(env, c)\<in>set turns. \<forall>h m. shut k m h \<longrightarrow> shut k m (env h)" by (rule assms(4))
  show "shut k (length (buffered (hb_events (gw_hub g)) (cn_ch k))) (gw_hub g)"
    using redis.gw_invD(5,6) [OF feed_reach_inv [OF assms(1)] assms(2)]
      redis.gw_invD(7) [OF feed_reach_inv [OF assms(1)] assms(2,3)]
    by (auto simp: shut_def buffered_def)
qed

theorem sse_ends_after_close_witness:
  "\<exists>w' h'. sse_loop (redis_pubsub loopback_client) demo_conn
     [(\<lambda>h. h, LocalReady), (\<lambda>h. h, KeepAliveTick), (\<lambda>h. h, LocalReady)] new_response (gw_hub demo_closed) = Inr (Inl w', h')"
  by (rule sse_ends_after_close [OF demo_closed(1-3)]) (auto simp: demo_closed(4))

end
