(* ===== verification/AuthService.thy ===== *)
theory AuthService
  imports Tokens
begin

text \<open>
  \<^verbatim>\<open>internal/services/auth.go\<close>: registration, login, rotation of refresh tokens, logout.

  The repositories that the service calls (\<^verbatim>\<open>repository.UsersRepository\<close>,
  \<^verbatim>\<open>repository.RefreshTokensRepository\<close>) and the rows they return (\<^verbatim>\<open>models.User\<close>,
  \<^verbatim>\<open>models.RefreshToken\<close>) are missing from the repository. They are records of functions over a
  state \<open>'s\<close>, with the columns of \<^verbatim>\<open>migrations/000001_init_auth.up.sql\<close> that the service touches;
  what the service relies on is \<open>repos_ok\<close>, stated over the tables behind that state (\<open>auth_db\<close>).
  Every call of a repository may also fail without effect.

  The clock readings and the random values of one request are the record \<open>auth_env\<close>.
\<close>

subsection \<open>Rows, repositories, results\<close>

record user =
  us_id :: string
  us_username :: string
  us_email :: string
  us_password_hash :: string

record refresh_row =
  rt_id :: string
  rt_user :: string
  rt_hash :: string
  rt_expires :: int
  rt_revoked :: "int option"
  rt_replaced_by :: "string option"

datatype repo_error = ErrNotFound | RepoFailure string

record create_user =
  cu_username :: string
  cu_email :: string
  cu_password_hash :: string

record create_refresh =
  cr_user :: string
  cr_hash :: string
  cr_expires :: int

record 's users_repo =
  ur_create :: "create_user \<Rightarrow> 's \<Rightarrow> (repo_error + user) \<times> 's"
  ur_get_by_username :: "string \<Rightarrow> 's \<Rightarrow> repo_error + user"
  ur_get_by_id :: "string \<Rightarrow> 's \<Rightarrow> repo_error + user"

record 's tokens_repo =
  tr_create :: "create_refresh \<Rightarrow> 's \<Rightarrow> (repo_error + refresh_row) \<times> 's"
  tr_get_by_hash :: "string \<Rightarrow> 's \<Rightarrow> repo_error + refresh_row"
  tr_revoke :: "string \<Rightarrow> string option \<Rightarrow> 's \<Rightarrow> repo_error option \<times> 's"
  tr_revoke_all :: "string \<Rightarrow> 's \<Rightarrow> repo_error option \<times> 's"
  tr_is_active :: "refresh_row \<Rightarrow> int \<Rightarrow> bool"

datatype service_error =
    ErrInvalidCredentials
  | ErrTokenReuse
  | HashPasswordFailed string
  | AccessTokenFailed string
  | RefreshTokenFailed string
  | RevokePreviousFailed repo_error
  | Repository repo_error

record token_pair =
  tp_access :: string
  tp_refresh :: string
  tp_refresh_expires :: int

record auth_config =
  ac_secret :: bytes
  ac_access_ttl :: int
  ac_refresh_ttl :: int

record 's auth_service =
  as_users :: "'s users_repo"
  as_tokens :: "'s tokens_repo"
  as_cfg :: auth_config
  as_bcrypt :: bcrypt
  as_jwt :: jwt_lib

record auth_env =
  ae_salt :: bytes
  ae_now :: int
  ae_now_access :: int
  ae_now_issue :: int
  ae_rand :: "nat list option"

definition default_role :: string where
  "default_role = ''user''"

subsection \<open>The service\<close>

definition issue_token_pair_with_row ::
    "'s auth_service \<Rightarrow> auth_env \<Rightarrow> user \<Rightarrow> 's \<Rightarrow> (service_error + (token_pair \<times> refresh_row)) \<times> 's" where
  "issue_token_pair_with_row A e user s =
     (case generate_access_token (as_jwt A) (us_id user) (us_username user) default_role
             (ac_secret (as_cfg A)) (ac_access_ttl (as_cfg A)) (ae_now_access e) of
        Inl err \<Rightarrow> (Inl (AccessTokenFailed err), s)
      | Inr access \<Rightarrow>
          (case generate_refresh_token (ae_rand e) of
             Inl err \<Rightarrow> (Inl (RefreshTokenFailed err), s)
           | Inr (refreshPlain, refreshHash) \<Rightarrow>
               (let expiresAt = ae_now_issue e + ac_refresh_ttl (as_cfg A)
                in case tr_create (as_tokens A)
                     \<lparr>cr_user = us_id user, cr_hash = refreshHash, cr_expires = expiresAt\<rparr> s of
                  (Inl err, s) \<Rightarrow> (Inl (Repository err), s)
                | (Inr row, s) \<Rightarrow>
                    (Inr (\<lparr>tp_access = access, tp_refresh = refreshPlain, tp_refresh_expires = expiresAt\<rparr>, row), s))))"

definition issue_token_pair ::
    "'s auth_service \<Rightarrow> auth_env \<Rightarrow> user \<Rightarrow> 's \<Rightarrow> (service_error + token_pair) \<times> 's" where
  "issue_token_pair A e user s =
     (case issue_token_pair_with_row A e user s of
        (Inl err, s) \<Rightarrow> (Inl err, s)
      | (Inr (pair, _), s) \<Rightarrow> (Inr pair, s))"

definition register ::
    "'s auth_service \<Rightarrow> auth_env \<Rightarrow> string \<Rightarrow> string \<Rightarrow> string \<Rightarrow> 's \<Rightarrow> (service_error + (user \<times> token_pair)) \<times> 's" where
  "register A e username email password s =
     (case hash_password (as_bcrypt A) (ae_salt e) password of
        Inl err \<Rightarrow> (Inl (HashPasswordFailed err), s)
      | Inr hash \<Rightarrow>
          (case ur_create (as_users A)
                  \<lparr>cu_username = username, cu_email = email, cu_password_hash = hash\<rparr> s of
             (Inl err, s) \<Rightarrow> (Inl (Repository err), s)
           | (Inr user, s) \<Rightarrow>
               (case issue_token_pair A e user s of
                  (Inl err, s) \<Rightarrow> (Inl err, s)
                | (Inr pair, s) \<Rightarrow> (Inr (user, pair), s))))"

definition login ::
    "'s auth_service \<Rightarrow> auth_env \<Rightarrow> string \<Rightarrow> string \<Rightarrow> 's \<Rightarrow> (service_error + (user \<times> token_pair)) \<times> 's" where
  "login A e username password s =
     (case ur_get_by_username (as_users A) username s of
        Inl err \<Rightarrow> (Inl (if err = ErrNotFound then ErrInvalidCredentials else Repository err), s)
      | Inr user \<Rightarrow>
          if \<not> verify_password (as_bcrypt A) (us_password_hash user) password then (Inl ErrInvalidCredentials, s)
          else
            (case issue_token_pair A e user s of
               (Inl err, s) \<Rightarrow> (Inl err, s)
             | (Inr pair, s) \<Rightarrow> (Inr (user, pair), s)))"

text \<open>
  \<^verbatim>\<open>Refresh\<close> in two parts, so that two requests can be interleaved between them: the look-up and
  the checks, then the new pair and the revocation of the old token.
\<close>

definition refresh_check ::
    "'s auth_service \<Rightarrow> auth_env \<Rightarrow> string \<Rightarrow> 's \<Rightarrow> (service_error + refresh_row) \<times> 's" where
  "refresh_check A e refreshToken s =
     (case tr_get_by_hash (as_tokens A) (hash_refresh_token refreshToken) s of
        Inl err \<Rightarrow> (Inl (if err = ErrNotFound then ErrInvalidCredentials else Repository err), s)
      | Inr existing \<Rightarrow>
          if rt_revoked existing \<noteq> None then
            (Inl ErrTokenReuse, snd (tr_revoke_all (as_tokens A) (rt_user existing) s))
          else if \<not> tr_is_active (as_tokens A) existing (ae_now e) then (Inl ErrInvalidCredentials, s)
          else (Inr existing, s))"

definition refresh_rotate ::
    "'s auth_service \<Rightarrow> auth_env \<Rightarrow> refresh_row \<Rightarrow> 's \<Rightarrow> (service_error + token_pair) \<times> 's" where
  "refresh_rotate A e existing s =
     (case ur_get_by_id (as_users A) (rt_user existing) s of
        Inl err \<Rightarrow> (Inl (Repository err), s)
      | Inr user \<Rightarrow>
          (case issue_token_pair_with_row A e user s of
             (Inl err, s) \<Rightarrow> (Inl err, s)
           | (Inr (pair, newRow), s) \<Rightarrow>
               (case tr_revoke (as_tokens A) (rt_id existing) (Some (rt_id newRow)) s of
                  (Some err, s) \<Rightarrow> (Inl (RevokePreviousFailed err), s)
                | (None, s) \<Rightarrow> (Inr pair, s))))"

definition refresh ::
    "'s auth_service \<Rightarrow> auth_env \<Rightarrow> string \<Rightarrow> 's \<Rightarrow> (service_error + token_pair) \<times> 's" where
  "refresh A e refreshToken s =
     (case refresh_check A e refreshToken s of
        (Inl err, s) \<Rightarrow> (Inl err, s)
      | (Inr existing, s) \<Rightarrow> refresh_rotate A e existing s)"

definition logout :: "'s auth_service \<Rightarrow> string \<Rightarrow> 's \<Rightarrow> service_error option \<times> 's" where
  "logout A refreshToken s =
     (case tr_get_by_hash (as_tokens A) (hash_refresh_token refreshToken) s of
        Inl err \<Rightarrow> (if err = ErrNotFound then None else Some (Repository err), s)
      | Inr existing \<Rightarrow>
          if rt_revoked existing \<noteq> None then (None, s)
          else
            (case tr_revoke (as_tokens A) (rt_id existing) None s of
               (None, s) \<Rightarrow> (None, s)
             | (Some err, s) \<Rightarrow> (if err = ErrNotFound then None else Some (Repository err), s)))"

subsection \<open>What the service relies on\<close>

record auth_db =
  db_users :: "string \<rightharpoonup> user"
  db_tokens :: "string \<rightharpoonup> refresh_row"

text \<open>
  \<open>db\<close> reads the two tables off the state, \<open>ok\<close> is the repositories' own invariant. User names
  and token hashes are unique (\<^verbatim>\<open>UNIQUE\<close> in the migration); a row is stored under its id.
\<close>

type_synonym 's view = "'s \<Rightarrow> auth_db"

definition user_lookup_ok :: "'s users_repo \<Rightarrow> ('s \<Rightarrow> bool) \<Rightarrow> 's view \<Rightarrow> bool" where
  "user_lookup_ok U ok db \<longleftrightarrow> (\<forall>s n i u v. ok s \<longrightarrow>
     (ur_get_by_username U n s = Inr u \<longrightarrow> db_users (db s) (us_id u) = Some u \<and> us_username u = n) \<and>
     (ur_get_by_username U n s = Inl ErrNotFound \<longrightarrow> db_users (db s) i = Some v \<longrightarrow> us_username v \<noteq> n) \<and>
     (ur_get_by_id U i s = Inr u \<longrightarrow> db_users (db s) i = Some u \<and> us_id u = i))"

definition user_create_ok :: "'s users_repo \<Rightarrow> ('s \<Rightarrow> bool) \<Rightarrow> 's view \<Rightarrow> bool" where
  "user_create_ok U ok db \<longleftrightarrow> (\<forall>s n res s'. ok s \<and> ur_create U n s = (res, s') \<longrightarrow> ok s' \<and>
     (case res of
        Inl err \<Rightarrow> db s' = db s
      | Inr u \<Rightarrow> us_username u = cu_username n \<and> us_email u = cu_email n \<and> us_password_hash u = cu_password_hash n \<and>
          db_users (db s) (us_id u) = None \<and> db s' = (db s)\<lparr>db_users := (db_users (db s))(us_id u \<mapsto> u)\<rparr>))"

definition usernames_unique :: "auth_db \<Rightarrow> bool" where
  "usernames_unique d \<longleftrightarrow>
     (\<forall>i j u v. db_users d i = Some u \<and> db_users d j = Some v \<and> us_username u = us_username v \<longrightarrow> i = j)"

definition users_ok :: "'s users_repo \<Rightarrow> ('s \<Rightarrow> bool) \<Rightarrow> 's view \<Rightarrow> bool" where
  "users_ok U ok db \<longleftrightarrow>
     user_lookup_ok U ok db \<and> user_create_ok U ok db \<and> (\<forall>s. ok s \<longrightarrow> usernames_unique (db s))"

definition revoked_all :: "string \<Rightarrow> auth_db \<Rightarrow> auth_db \<Rightarrow> bool" where
  "revoked_all i d d' \<longleftrightarrow> db_users d' = db_users d \<and>
     (\<forall>j. db_tokens d j = None \<longrightarrow> db_tokens d' j = None) \<and>
     (\<forall>j r. db_tokens d j = Some r \<longrightarrow>
        (if rt_user r = i then \<exists>t. db_tokens d' j = Some (r\<lparr>rt_revoked := Some t\<rparr>) else db_tokens d' j = Some r))"

definition token_lookup_ok :: "'s tokens_repo \<Rightarrow> ('s \<Rightarrow> bool) \<Rightarrow> 's view \<Rightarrow> bool" where
  "token_lookup_ok T ok db \<longleftrightarrow> (\<forall>s h i r r'. ok s \<longrightarrow>
     (tr_get_by_hash T h s = Inr r \<longrightarrow> db_tokens (db s) (rt_id r) = Some r \<and> rt_hash r = h) \<and>
     (tr_get_by_hash T h s = Inl ErrNotFound \<longrightarrow> db_tokens (db s) i = Some r' \<longrightarrow> rt_hash r' \<noteq> h))"

definition token_create_ok :: "'s tokens_repo \<Rightarrow> ('s \<Rightarrow> bool) \<Rightarrow> 's view \<Rightarrow> bool" where
  "token_create_ok T ok db \<longleftrightarrow> (\<forall>s n res s'. ok s \<and> tr_create T n s = (res, s') \<longrightarrow> ok s' \<and>
     (case res of
        Inl err \<Rightarrow> db s' = db s
      | Inr r \<Rightarrow> rt_user r = cr_user n \<and> rt_hash r = cr_hash n \<and> rt_expires r = cr_expires n \<and>
          rt_revoked r = None \<and> rt_replaced_by r = None \<and> db_tokens (db s) (rt_id r) = None \<and>
          db s' = (db s)\<lparr>db_tokens := (db_tokens (db s))(rt_id r \<mapsto> r)\<rparr>))"

definition token_revoke_ok :: "'s tokens_repo \<Rightarrow> ('s \<Rightarrow> bool) \<Rightarrow> 's view \<Rightarrow> bool" where
  "token_revoke_ok T ok db \<longleftrightarrow> (\<forall>s i new res s'. ok s \<and> tr_revoke T i new s = (res, s') \<longrightarrow> ok s' \<and>
     (case res of
        Some err \<Rightarrow> db s' = db s \<and> (\<forall>r. err = ErrNotFound \<longrightarrow> db_tokens (db s) i = Some r \<longrightarrow> rt_revoked r \<noteq> None)
      | None \<Rightarrow> \<exists>r t. db_tokens (db s) i = Some r \<and>
          db s' = (db s)\<lparr>db_tokens := (db_tokens (db s))(i \<mapsto> r\<lparr>rt_revoked := Some t, rt_replaced_by := new\<rparr>)\<rparr>))"

definition token_revoke_all_ok :: "'s tokens_repo \<Rightarrow> ('s \<Rightarrow> bool) \<Rightarrow> 's view \<Rightarrow> bool" where
  "token_revoke_all_ok T ok db \<longleftrightarrow> (\<forall>s i res s'. ok s \<and> tr_revoke_all T i s = (res, s') \<longrightarrow> ok s' \<and>
     (case res of Some err \<Rightarrow> db s' = db s | None \<Rightarrow> revoked_all i (db s) (db s')))"

definition hashes_unique :: "auth_db \<Rightarrow> bool" where
  "hashes_unique d \<longleftrightarrow>
     (\<forall>i j r r'. db_tokens d i = Some r \<and> db_tokens d j = Some r' \<and> rt_hash r = rt_hash r' \<longrightarrow> i = j)"

definition active_ok :: "'s tokens_repo \<Rightarrow> bool" where
  "active_ok T \<longleftrightarrow> (\<forall>r t. tr_is_active T r t \<longleftrightarrow> rt_revoked r = None \<and> t < rt_expires r)"

definition tokens_ok :: "'s tokens_repo \<Rightarrow> ('s \<Rightarrow> bool) \<Rightarrow> 's view \<Rightarrow> bool" where
  "tokens_ok T ok db \<longleftrightarrow>
     token_lookup_ok T ok db \<and> token_create_ok T ok db \<and> token_revoke_ok T ok db \<and> token_revoke_all_ok T ok db \<and>
     active_ok T \<and> (\<forall>s. ok s \<longrightarrow> hashes_unique (db s))"

definition repos_ok :: "'s auth_service \<Rightarrow> ('s \<Rightarrow> bool) \<Rightarrow> ('s \<Rightarrow> auth_db) \<Rightarrow> bool" where
  "repos_ok A ok db \<longleftrightarrow> users_ok (as_users A) ok db \<and> tokens_ok (as_tokens A) ok db"

lemma users_okD:
  assumes "users_ok U ok db" and "ok s"
  shows "ur_get_by_username U n s = Inr u \<Longrightarrow> db_users (db s) (us_id u) = Some u \<and> us_username u = n"
    and "ur_get_by_username U n s = Inl ErrNotFound \<Longrightarrow> db_users (db s) i = Some v \<Longrightarrow> us_username v \<noteq> n"
    and "ur_get_by_id U i s = Inr u \<Longrightarrow> db_users (db s) i = Some u \<and> us_id u = i"
    and "db_users (db s) i = Some u \<Longrightarrow> db_users (db s) j = Some v \<Longrightarrow> us_username u = us_username v \<Longrightarrow> i = j"
proof -
  have look: "user_lookup_ok U ok db" and uniq: "usernames_unique (db s)" using assms by (simp_all add: users_ok_def)
  note L = look [unfolded user_lookup_ok_def, rule_format, OF assms(2)]
  show "ur_get_by_username U n s = Inr u \<Longrightarrow> db_users (db s) (us_id u) = Some u \<and> us_username u = n"
    and "ur_get_by_username U n s = Inl ErrNotFound \<Longrightarrow> db_users (db s) i = Some v \<Longrightarrow> us_username v \<noteq> n"
    and "ur_get_by_id U i s = Inr u \<Longrightarrow> db_users (db s) i = Some u \<and> us_id u = i"
    using L by blast+
  show "db_users (db s) i = Some u \<Longrightarrow> db_users (db s) j = Some v \<Longrightarrow> us_username u = us_username v \<Longrightarrow> i = j"
    using uniq unfolding usernames_unique_def by blast
qed

lemma create_user_cases:
  assumes "users_ok U ok db" and "ok s" and "ur_create U n s = (res, s')"
  obtains (failed) err where "res = Inl err" "ok s'" "db s' = db s"
  | (created) u where "res = Inr u" "ok s'" "us_username u = cu_username n" "us_email u = cu_email n"
      "us_password_hash u = cu_password_hash n" "db_users (db s) (us_id u) = None"
      "db s' = (db s)\<lparr>db_users := (db_users (db s))(us_id u \<mapsto> u)\<rparr>"
proof -
  have "user_create_ok U ok db" using assms(1) by (simp add: users_ok_def)
  from this [unfolded user_create_ok_def, rule_format, of s n res s'] assms(2,3) that
  show thesis by (cases res) simp_all
qed

lemma tokens_okD:
  assumes "tokens_ok T ok db" and "ok s"
  shows "tr_get_by_hash T h s = Inr r \<Longrightarrow> db_tokens (db s) (rt_id r) = Some r \<and> rt_hash r = h"
    and "tr_get_by_hash T h s = Inl ErrNotFound \<Longrightarrow> db_tokens (db s) i = Some r' \<Longrightarrow> rt_hash r' \<noteq> h"
    and "tr_is_active T r t \<longleftrightarrow> rt_revoked r = None \<and> t < rt_expires r"
    and "db_tokens (db s) i = Some r \<Longrightarrow> db_tokens (db s) j = Some r' \<Longrightarrow> rt_hash r = rt_hash r' \<Longrightarrow> i = j"
proof -
  have look: "token_lookup_ok T ok db" and uniq: "hashes_unique (db s)" and act: "active_ok T"
    using assms by (simp_all add: tokens_ok_def)
  note L = look [unfolded token_lookup_ok_def, rule_format, OF assms(2)]
  show "tr_get_by_hash T h s = Inr r \<Longrightarrow> db_tokens (db s) (rt_id r) = Some r \<and> rt_hash r = h"
    and "tr_get_by_hash T h s = Inl ErrNotFound \<Longrightarrow> db_tokens (db s) i = Some r' \<Longrightarrow> rt_hash r' \<noteq> h"
    using L by blast+
  show "tr_is_active T r t \<longleftrightarrow> rt_revoked r = None \<and> t < rt_expires r"
    using act unfolding active_ok_def by blast
  show "db_tokens (db s) i = Some r \<Longrightarrow> db_tokens (db s) j = Some r' \<Longrightarrow> rt_hash r = rt_hash r' \<Longrightarrow> i = j"
    using uniq unfolding hashes_unique_def by blast
qed

lemma create_token_cases:
  assumes "tokens_ok T ok db" and "ok s" and "tr_create T n s = (res, s')"
  obtains (failed) err where "res = Inl err" "ok s'" "db s' = db s"
  | (created) r where "res = Inr r" "ok s'" "rt_user r = cr_user n" "rt_hash r = cr_hash n" "rt_expires r = cr_expires n"
      "rt_revoked r = None" "rt_replaced_by r = None" "db_tokens (db s) (rt_id r) = None"
      "db s' = (db s)\<lparr>db_tokens := (db_tokens (db s))(rt_id r \<mapsto> r)\<rparr>"
proof -
  have "token_create_ok T ok db" using assms(1) by (simp add: tokens_ok_def)
  from this [unfolded token_create_ok_def, rule_format, of s n res s'] assms(2,3) that
  show thesis by (cases res) simp_all
qed

lemma revoke_cases:
  assumes "tokens_ok T ok db" and "ok s" and "tr_revoke T i new s = (res, s')"
  obtains (failed) err where "res = Some err" "ok s'" "db s' = db s"
      "\<And>r. err = ErrNotFound \<Longrightarrow> db_tokens (db s) i = Some r \<Longrightarrow> rt_revoked r \<noteq> None"
  | (revoked) r t where "res = None" "ok s'" "db_tokens (db s) i = Some r"
      "db s' = (db s)\<lparr>db_tokens := (db_tokens (db s))(i \<mapsto> r\<lparr>rt_revoked := Some t, rt_replaced_by := new\<rparr>)\<rparr>"
proof -
  have "token_revoke_ok T ok db" using assms(1) by (simp add: tokens_ok_def)
  note law = this [unfolded token_revoke_ok_def, rule_format, of s i new res s']
  show thesis
  proof (cases res)
    case None
    with law assms(2,3) have "ok s'" and "\<exists>r t. db_tokens (db s) i = Some r \<and>
          db s' = (db s)\<lparr>db_tokens := (db_tokens (db s))(i \<mapsto> r\<lparr>rt_revoked := Some t, rt_replaced_by := new\<rparr>)\<rparr>"
      by simp_all
    with None that(2) show ?thesis by blast
  next
    case (Some err)
    with law assms(2,3) that(1) show ?thesis by simp
  qed
qed

lemma revoke_all_cases:
  assumes "tokens_ok T ok db" and "ok s" and "tr_revoke_all T i s = (res, s')"
  obtains (failed) err where "res = Some err" "ok s'" "db s' = db s"
  | (revoked) "res = None" "ok s'" "revoked_all i (db s) (db s')"
proof -
  have "token_revoke_all_ok T ok db" using assms(1) by (simp add: tokens_ok_def)
  from this [unfolded token_revoke_all_ok_def, rule_format, of s i res s'] assms(2,3) that
  show thesis by (cases res) simp_all
qed

subsection \<open>Issuing a pair\<close>

text \<open>Issuing adds one active row with the digest of the token handed out, or changes nothing.\<close>

lemma issue_cases:
  assumes T: "tokens_ok (as_tokens A) ok db" and s: "ok s"
    and issue: "issue_token_pair_with_row A e u s = (res, s')"
  obtains (failed) err where "res = Inl err" "ok s'" "db s' = db s"
      "err \<noteq> ErrInvalidCredentials" "err \<noteq> ErrTokenReuse"
  | (issued) pair row where "res = Inr (pair, row)" "ok s'" "rt_user row = us_id u"
      "rt_hash row = hash_refresh_token (tp_refresh pair)"
      "rt_expires row = ae_now_issue e + ac_refresh_ttl (as_cfg A)" "tp_refresh_expires pair = rt_expires row"
      "rt_revoked row = None" "rt_replaced_by row = None" "db_tokens (db s) (rt_id row) = None"
      "db s' = (db s)\<lparr>db_tokens := (db_tokens (db s))(rt_id row \<mapsto> row)\<rparr>"
      "generate_access_token (as_jwt A) (us_id u) (us_username u) default_role (ac_secret (as_cfg A))
         (ac_access_ttl (as_cfg A)) (ae_now_access e) = Inr (tp_access pair)"
proof (cases "generate_access_token (as_jwt A) (us_id u) (us_username u) default_role (ac_secret (as_cfg A))
      (ac_access_ttl (as_cfg A)) (ae_now_access e)")
  case (Inl err)
  with issue s show thesis by (intro failed [of "AccessTokenFailed err"]) (auto simp: issue_token_pair_with_row_def)
next
  case access: (Inr access)
  show thesis
  proof (cases "generate_refresh_token (ae_rand e)")
    case (Inl err)
    with access issue s show thesis
      by (intro failed [of "RefreshTokenFailed err"]) (auto simp: issue_token_pair_with_row_def)
  next
    case (Inr ph)
    obtain plain hash where ph: "ph = (plain, hash)" by (cases ph)
    have hash: "hash = hash_refresh_token plain"
      using Inr ph by (auto simp: generate_refresh_token_def Let_def split: option.splits)
    let ?in = "\<lparr>cr_user = us_id u, cr_hash = hash, cr_expires = ae_now_issue e + ac_refresh_ttl (as_cfg A)\<rparr>"
    obtain cres s1 where create: "tr_create (as_tokens A) ?in s = (cres, s1)" by fastforce
    from T s create show thesis
    proof (cases rule: create_token_cases)
      case (failed err)
      with create access Inr ph issue show thesis
        by (intro that(1) [of "Repository err"]) (auto simp: issue_token_pair_with_row_def)
    next
      case (created r)
      with create access Inr ph issue hash show thesis
        by (intro that(2) [of "\<lparr>tp_access = access, tp_refresh = plain, tp_refresh_expires = rt_expires r\<rparr>" r])
          (auto simp: issue_token_pair_with_row_def)
    qed
  qed
qed

lemma issue_not_revoke:
  assumes "res = Inl err" and "issue_token_pair_with_row A e u s = (res, s')"
  shows "err \<noteq> RevokePreviousFailed x"
  using assms by (auto simp: issue_token_pair_with_row_def Let_def split: sum.splits prod.splits)

lemma issue_pair_eq:
  "issue_token_pair A e u s =
     (case issue_token_pair_with_row A e u s of (Inl err, s) \<Rightarrow> (Inl err, s) | (Inr (p, _), s) \<Rightarrow> (Inr p, s))"
  by (simp add: issue_token_pair_def)

subsection \<open>Looking a refresh token up\<close>

definition stored :: "auth_db \<Rightarrow> string \<Rightarrow> refresh_row \<Rightarrow> bool" where
  "stored d token r \<longleftrightarrow> db_tokens d (rt_id r) = Some r \<and> rt_hash r = hash_refresh_token token"

lemma lookup_cases:
  assumes "tokens_ok T ok db" and "ok s"
  obtains (failed) x where "tr_get_by_hash T (hash_refresh_token t) s = Inl (RepoFailure x)"
  | (unknown) "tr_get_by_hash T (hash_refresh_token t) s = Inl ErrNotFound" "\<And>r. \<not> stored (db s) t r"
  | (found) r where "tr_get_by_hash T (hash_refresh_token t) s = Inr r" "stored (db s) t r"
proof (cases "tr_get_by_hash T (hash_refresh_token t) s")
  case (Inl err)
  show thesis
  proof (cases err)
    case ErrNotFound
    note none = Inl [unfolded ErrNotFound]
    have "\<not> stored (db s) t r" for r
      using tokens_okD(2) [OF assms none, of "rt_id r" r] by (auto simp: stored_def)
    with none show ?thesis by (rule that(2))
  next
    case (RepoFailure x)
    with Inl that(1) show ?thesis by simp
  qed
next
  case (Inr r)
  from tokens_okD(1) [OF assms Inr] have "stored (db s) t r" by (simp add: stored_def)
  with Inr show thesis by (rule that(3))
qed

lemma stored_unique:
  assumes "tokens_ok T ok db" and "ok s" and "stored (db s) t r" and "stored (db s) t r'"
  shows "r = r'"
proof -
  have a: "db_tokens (db s) (rt_id r) = Some r" "rt_hash r = hash_refresh_token t"
    and b: "db_tokens (db s) (rt_id r') = Some r'" "rt_hash r' = hash_refresh_token t"
    using assms(3,4) unfolding stored_def by blast+
  have "rt_hash r = rt_hash r'" using a(2) b(2) by (rule trans [OF _ sym])
  from tokens_okD(4) [OF assms(1,2) a(1) b(1) this] a(1) b(1) show ?thesis by (metis option.inject)
qed

lemma refresh_check_cases:
  assumes T: "tokens_ok (as_tokens A) ok db" and s: "ok s" and check: "refresh_check A e t s = (res, s')"
  obtains (failed) x where "res = Inl (Repository (RepoFailure x))" "s' = s"
  | (unknown) "res = Inl ErrInvalidCredentials" "s' = s" "\<And>r. \<not> stored (db s) t r"
  | (reused) r where "res = Inl ErrTokenReuse" "stored (db s) t r" "rt_revoked r \<noteq> None"
      "s' = snd (tr_revoke_all (as_tokens A) (rt_user r) s)"
  | (expired) r where "res = Inl ErrInvalidCredentials" "s' = s" "stored (db s) t r" "rt_revoked r = None"
      "rt_expires r \<le> ae_now e"
  | (active) r where "res = Inr r" "s' = s" "stored (db s) t r" "rt_revoked r = None" "ae_now e < rt_expires r"
  using T s
proof (cases rule: lookup_cases [where t = t])
  case (failed x)
  with check show thesis by (intro that(1) [of x]) (simp_all add: refresh_check_def)
next
  case unknown
  with check show thesis by (intro that(2)) (simp_all add: refresh_check_def)
next
  case (found r)
  have active: "tr_is_active (as_tokens A) r (ae_now e) \<longleftrightarrow> rt_revoked r = None \<and> ae_now e < rt_expires r"
    by (rule tokens_okD(3) [OF T s])
  show thesis
  proof (cases "rt_revoked r = None")
    case False
    with found check show ?thesis by (intro that(3) [of r]) (simp_all add: refresh_check_def)
  next
    case True
    show ?thesis
    proof (cases "ae_now e < rt_expires r")
      case now: True
      with True found check active show ?thesis by (intro that(5) [of r]) (simp_all add: refresh_check_def)
    next
      case late: False
      with True found check active show ?thesis by (intro that(4) [of r]) (simp_all add: refresh_check_def)
    qed
  qed
qed

text \<open>A completed rotation: one new active row, the old one revoked and pointing to it.\<close>

definition rotated :: "auth_db \<Rightarrow> auth_db \<Rightarrow> refresh_row \<Rightarrow> refresh_row \<Rightarrow> bool" where
  "rotated d d' old new \<longleftrightarrow>
     rt_user new = rt_user old \<and> rt_revoked new = None \<and> rt_replaced_by new = None \<and> db_tokens d (rt_id new) = None \<and>
     db_users d' = db_users d \<and>
     (\<exists>at. db_tokens d' = (db_tokens d)(rt_id new \<mapsto> new,
        rt_id old \<mapsto> old\<lparr>rt_revoked := Some at, rt_replaced_by := Some (rt_id new)\<rparr>))"

lemma refresh_rotate_ok:
  assumes R: "repos_ok A ok db" and s: "ok s" and rot: "refresh_rotate A e old s = (Inr pair, s')"
    and old: "db_tokens (db s) (rt_id old) = Some old'"
  obtains new where "ok s'" "rt_hash new = hash_refresh_token (tp_refresh pair)" "rt_expires new = tp_refresh_expires pair"
    "rt_expires new = ae_now_issue e + ac_refresh_ttl (as_cfg A)"
    "rt_user new = rt_user old" "rt_revoked new = None" "rt_replaced_by new = None" "db_tokens (db s) (rt_id new) = None"
    "db_users (db s') = db_users (db s)"
    "\<exists>at. db_tokens (db s') = (db_tokens (db s))(rt_id new \<mapsto> new,
       rt_id old \<mapsto> old'\<lparr>rt_revoked := Some at, rt_replaced_by := Some (rt_id new)\<rparr>)"
proof -
  have U: "users_ok (as_users A) ok db" and T: "tokens_ok (as_tokens A) ok db" using R by (simp_all add: repos_ok_def)
  obtain u where u: "ur_get_by_id (as_users A) (rt_user old) s = Inr u"
    using rot by (auto simp: refresh_rotate_def split: sum.splits)
  then have uid: "us_id u = rt_user old" using users_okD(3) [OF U s] by blast
  obtain res s1 where issue: "issue_token_pair_with_row A e u s = (res, s1)" by fastforce
  from T s issue show thesis
  proof (cases rule: issue_cases)
    case (failed err)
    with rot u issue show thesis by (simp add: refresh_rotate_def)
  next
    case (issued p new)
    obtain rres s2 where rev: "tr_revoke (as_tokens A) (rt_id old) (Some (rt_id new)) s1 = (rres, s2)" by fastforce
    from T issued(2) rev show thesis
    proof (cases rule: revoke_cases)
      case (failed err)
      with rot u issue issued(1) rev show thesis by (simp add: refresh_rotate_def)
    next
      case (revoked r at)
      have eq: "p = pair" "s2 = s'" using rot u issue issued(1) rev revoked(1) by (simp_all add: refresh_rotate_def)
      have "rt_id new \<noteq> rt_id old" using issued(9) old by auto
      then have "r = old'" using revoked(3) issued(10) old by simp
      with that [of new] issued revoked eq uid show thesis by auto
    qed
  qed
qed

lemma refresh_success:
  assumes "repos_ok A ok db" and "ok s" and "refresh A e t s = (Inr pair, s')"
  shows "ok s' \<and> (\<exists>old new. stored (db s) t old \<and> rt_revoked old = None \<and> ae_now e < rt_expires old \<and>
    rotated (db s) (db s') old new \<and> stored (db s') (tp_refresh pair) new \<and> rt_expires new = tp_refresh_expires pair)"
proof -
  have T: "tokens_ok (as_tokens A) ok db" using assms(1) by (simp add: repos_ok_def)
  obtain res s1 where check: "refresh_check A e t s = (res, s1)" by fastforce
  from T assms(2) check show ?thesis
  proof (cases rule: refresh_check_cases)
    case (active old)
    then have rot: "refresh_rotate A e old s = (Inr pair, s')" using assms(3) check by (simp add: refresh_def)
    have row: "db_tokens (db s) (rt_id old) = Some old" using active(3) by (simp add: stored_def)
    from refresh_rotate_ok [OF assms(1,2) rot row] obtain new
      where new: "ok s'" "rt_hash new = hash_refresh_token (tp_refresh pair)" "rt_expires new = tp_refresh_expires pair"
        "rt_user new = rt_user old" "rt_revoked new = None" "rt_replaced_by new = None"
        "db_tokens (db s) (rt_id new) = None" "db_users (db s') = db_users (db s)"
        "\<exists>at. db_tokens (db s') = (db_tokens (db s))(rt_id new \<mapsto> new,
           rt_id old \<mapsto> old\<lparr>rt_revoked := Some at, rt_replaced_by := Some (rt_id new)\<rparr>)"
      by metis
    have "rt_id new \<noteq> rt_id old" using new(7) row by auto
    with new have "stored (db s') (tp_refresh pair) new" by (auto simp: stored_def)
    moreover have "rotated (db s) (db s') old new" using new by (simp add: rotated_def)
    ultimately show ?thesis using active new(1,3) by blast
  qed (use assms(3) check in \<open>auto simp: refresh_def\<close>)
qed

text \<open>The token that was rotated is stored as revoked.\<close>

lemma refresh_spent:
  assumes "repos_ok A ok db" and "ok s" and "refresh A e t s = (Inr pair, s')"
  shows "ok s' \<and> (\<exists>old'. stored (db s') t old' \<and> rt_revoked old' \<noteq> None)"
proof -
  obtain old new where ok: "ok s'" and old: "stored (db s) t old" and rot: "rotated (db s) (db s') old new"
    using refresh_success [OF assms] by metis
  then obtain at where at: "db_tokens (db s') = (db_tokens (db s))(rt_id new \<mapsto> new,
      rt_id old \<mapsto> old\<lparr>rt_revoked := Some at, rt_replaced_by := Some (rt_id new)\<rparr>)"
    unfolding rotated_def by blast
  have "stored (db s') t (old\<lparr>rt_revoked := Some at, rt_replaced_by := Some (rt_id new)\<rparr>)"
    using old at by (simp add: stored_def)
  moreover have "rt_revoked (old\<lparr>rt_revoked := Some at, rt_replaced_by := Some (rt_id new)\<rparr>) \<noteq> None" by simp
  ultimately show ?thesis using ok by blast
qed

end
