(* ===== verification/FeedService.thy ===== *)
theory FeedService
  imports Channels Pubsub Sse AuthService
begin

text \<open>
  \<^verbatim>\<open>internal/services/feed.go\<close>: posts, comments and reactions are persisted first and then, for
  comments and reactions, published on the bus of \<open>Pubsub\<close> under the channel of the post.

  The repositories \<^verbatim>\<open>PostsRepository\<close>, \<^verbatim>\<open>CommentsRepository\<close>, \<^verbatim>\<open>ReactionsRepository\<close> and the types
  \<^verbatim>\<open>models.Post\<close>, \<^verbatim>\<open>models.Comment\<close>, \<^verbatim>\<open>models.Reaction\<close> that the service names are missing from the
  repository: they are records of functions over a database state \<open>'s\<close> and the type variables
  \<open>'p\<close>, \<open>'c\<close> and \<open>'r\<close>, with the printer \<^verbatim>\<open>json.Marshal\<close> would use for each. \<^verbatim>\<open>ValidReactionType\<close>
  and \<^verbatim>\<open>github.com/google/uuid\<close> are parameters as well; a UUID is its 16 bytes.
\<close>

type_synonym uuid = bytes

record uuid_lib =
  ul_parse :: "string \<Rightarrow> string + uuid"
  ul_string :: "uuid \<Rightarrow> string"

record create_post =
  cp_author :: uuid
  cp_body :: string

record create_comment =
  cm_post :: uuid
  cm_author :: uuid
  cm_body :: string

record upsert_reaction =
  ux_post :: uuid
  ux_user :: uuid
  ux_type :: string

record ('p, 's) posts_repo =
  pr_create :: "create_post \<Rightarrow> 's \<Rightarrow> (repo_error + 'p) \<times> 's"
  pr_get_by_id :: "uuid \<Rightarrow> 's \<Rightarrow> repo_error + 'p"

type_synonym ('c, 's) comments_repo = "create_comment \<Rightarrow> 's \<Rightarrow> (repo_error + 'c) \<times> 's"
type_synonym ('r, 's) reactions_repo = "upsert_reaction \<Rightarrow> 's \<Rightarrow> (repo_error + 'r) \<times> 's"

record ('p, 'c, 'r) feed_models =
  fm_valid_type :: "string \<Rightarrow> bool"
  fm_post :: "'p \<Rightarrow> string + bytes"
  fm_comment :: "'c \<Rightarrow> string + bytes"
  fm_reaction :: "'r \<Rightarrow> string + bytes"

record ('p, 'c, 'r, 's, 'b) feed_service =
  fs_posts :: "('p, 's) posts_repo"
  fs_comments :: "('c, 's) comments_repo"
  fs_reactions :: "('r, 's) reactions_repo"
  fs_bus :: "'b pubsub"
  fs_models :: "('p, 'c, 'r) feed_models"
  fs_uuid :: uuid_lib

datatype log_entry =
    MarshalEventFailed string uuid marshal_error
  | PublishEventFailed string uuid bus_error

record ('s, 'b) feed_state =
  fd_db :: 's
  fd_bus :: 'b
  fd_log :: "log_entry list"

datatype feed_error =
    ErrPostNotFound
  | FeedFailed string repo_error
  | InvalidReactionType string

subsection \<open>The service\<close>

definition feed_publish ::
    "('p, 'c, 'r, 's, 'b) feed_service \<Rightarrow> uuid \<Rightarrow> string \<Rightarrow> ('d \<Rightarrow> string + bytes) \<Rightarrow> 'd \<Rightarrow>
       ('s, 'b) feed_state \<Rightarrow> ('s, 'b) feed_state" where
  "feed_publish F postID eventType marshal data st =
     (case events_marshal marshal eventType data of
        Inl err \<Rightarrow> st\<lparr>fd_log := fd_log st @ [MarshalEventFailed eventType postID err]\<rparr>
      | Inr payload \<Rightarrow>
          (case ps_publish (fs_bus F) (post_channel (ul_string (fs_uuid F) postID)) payload (fd_bus st) of
             (Some err, b) \<Rightarrow> st\<lparr>fd_bus := b, fd_log := fd_log st @ [PublishEventFailed eventType postID err]\<rparr>
           | (None, b) \<Rightarrow> st\<lparr>fd_bus := b\<rparr>))"

definition feed_create_post ::
    "('p, 'c, 'r, 's, 'b) feed_service \<Rightarrow> uuid \<Rightarrow> string \<Rightarrow> ('s, 'b) feed_state \<Rightarrow>
       (feed_error + 'p) \<times> ('s, 'b) feed_state" where
  "feed_create_post F authorID body st =
     (case pr_create (fs_posts F) \<lparr>cp_author = authorID, cp_body = body\<rparr> (fd_db st) of
        (Inl err, s) \<Rightarrow> (Inl (FeedFailed ''create post'' err), st\<lparr>fd_db := s\<rparr>)
      | (Inr post, s) \<Rightarrow> (Inr post, st\<lparr>fd_db := s\<rparr>))"

definition feed_get_post ::
    "('p, 'c, 'r, 's, 'b) feed_service \<Rightarrow> uuid \<Rightarrow> ('s, 'b) feed_state \<Rightarrow> feed_error + 'p" where
  "feed_get_post F postID st =
     (case pr_get_by_id (fs_posts F) postID (fd_db st) of
        Inl err \<Rightarrow> Inl (if err = ErrNotFound then ErrPostNotFound else FeedFailed ''get post'' err)
      | Inr post \<Rightarrow> Inr post)"

definition feed_create_comment ::
    "('p, 'c, 'r, 's, 'b) feed_service \<Rightarrow> uuid \<Rightarrow> uuid \<Rightarrow> string \<Rightarrow> ('s, 'b) feed_state \<Rightarrow>
       (feed_error + 'c) \<times> ('s, 'b) feed_state" where
  "feed_create_comment F postID authorID body st =
     (case fs_comments F \<lparr>cm_post = postID, cm_author = authorID, cm_body = body\<rparr> (fd_db st) of
        (Inl err, s) \<Rightarrow>
          (Inl (if err = ErrNotFound then ErrPostNotFound else FeedFailed ''create comment'' err), st\<lparr>fd_db := s\<rparr>)
      | (Inr comment, s) \<Rightarrow>
          (Inr comment, feed_publish F postID type_comment (fm_comment (fs_models F)) comment (st\<lparr>fd_db := s\<rparr>)))"

definition feed_upsert_reaction ::
    "('p, 'c, 'r, 's, 'b) feed_service \<Rightarrow> uuid \<Rightarrow> uuid \<Rightarrow> string \<Rightarrow> ('s, 'b) feed_state \<Rightarrow>
       (feed_error + 'r) \<times> ('s, 'b) feed_state" where
  "feed_upsert_reaction F postID userID typ st =
     (if \<not> fm_valid_type (fs_models F) typ then (Inl (InvalidReactionType typ), st)
      else
        (case fs_reactions F \<lparr>ux_post = postID, ux_user = userID, ux_type = typ\<rparr> (fd_db st) of
           (Inl err, s) \<Rightarrow>
             (Inl (if err = ErrNotFound then ErrPostNotFound else FeedFailed ''upsert reaction'' err), st\<lparr>fd_db := s\<rparr>)
         | (Inr reaction, s) \<Rightarrow>
             (Inr reaction, feed_publish F postID type_reaction (fm_reaction (fs_models F)) reaction (st\<lparr>fd_db := s\<rparr>))))"

subsection \<open>Lemmas\<close>

lemma feed_publish_db [simp]: "fd_db (feed_publish F postID ty m d st) = fd_db st"
  by (simp add: feed_publish_def split: sum.split prod.split option.split)

lemma feed_publish_cases:
  obtains (unprintable) err where "events_marshal m ty d = Inl err"
      "feed_publish F postID ty m d st = st\<lparr>fd_log := fd_log st @ [MarshalEventFailed ty postID err]\<rparr>"
  | (failed) payload err b where "events_marshal m ty d = Inr payload"
      "ps_publish (fs_bus F) (post_channel (ul_string (fs_uuid F) postID)) payload (fd_bus st) = (Some err, b)"
      "feed_publish F postID ty m d st = st\<lparr>fd_bus := b, fd_log := fd_log st @ [PublishEventFailed ty postID err]\<rparr>"
  | (published) payload b where "events_marshal m ty d = Inr payload"
      "ps_publish (fs_bus F) (post_channel (ul_string (fs_uuid F) postID)) payload (fd_bus st) = (None, b)"
      "feed_publish F postID ty m d st = st\<lparr>fd_bus := b\<rparr>"
proof (cases "events_marshal m ty d")
  case (Inl err)
  then show thesis by (intro that(1)) (simp_all add: feed_publish_def)
next
  case (Inr payload)
  obtain res b where pub: "ps_publish (fs_bus F) (post_channel (ul_string (fs_uuid F) postID)) payload (fd_bus st) = (res, b)"
    by fastforce
  show thesis
  proof (cases res)
    case None
    with Inr pub show ?thesis by (intro that(3)) (simp_all add: feed_publish_def)
  next
    case (Some err)
    with Inr pub show ?thesis by (intro that(2)) (simp_all add: feed_publish_def)
  qed
qed

text \<open>The two writes that publish, by the answer of the repository.\<close>

lemma feed_create_comment_cases:
  assumes "feed_create_comment F postID authorID body st = (res, st')"
  obtains (refused) err s where "fs_comments F \<lparr>cm_post = postID, cm_author = authorID, cm_body = body\<rparr> (fd_db st) = (Inl err, s)"
      "res = Inl (if err = ErrNotFound then ErrPostNotFound else FeedFailed ''create comment'' err)" "st' = st\<lparr>fd_db := s\<rparr>"
  | (created) comment s where "fs_comments F \<lparr>cm_post = postID, cm_author = authorID, cm_body = body\<rparr> (fd_db st) = (Inr comment, s)"
      "res = Inr comment"
      "st' = feed_publish F postID type_comment (fm_comment (fs_models F)) comment (st\<lparr>fd_db := s\<rparr>)"
proof -
  obtain x s where x: "fs_comments F \<lparr>cm_post = postID, cm_author = authorID, cm_body = body\<rparr> (fd_db st) = (x, s)" by fastforce
  show thesis
  proof (cases x)
    case (Inl err)
    with assms x that(1) show ?thesis by (simp add: feed_create_comment_def)
  next
    case (Inr comment)
    with assms x that(2) show ?thesis by (simp add: feed_create_comment_def)
  qed
qed

lemma feed_upsert_reaction_cases:
  assumes "feed_upsert_reaction F postID userID typ st = (res, st')"
  obtains (invalid) "\<not> fm_valid_type (fs_models F) typ" "res = Inl (InvalidReactionType typ)" "st' = st"
  | (refused) err s where "fm_valid_type (fs_models F) typ"
      "fs_reactions F \<lparr>ux_post = postID, ux_user = userID, ux_type = typ\<rparr> (fd_db st) = (Inl err, s)"
      "res = Inl (if err = ErrNotFound then ErrPostNotFound else FeedFailed ''upsert reaction'' err)" "st' = st\<lparr>fd_db := s\<rparr>"
  | (stored) reaction s where "fm_valid_type (fs_models F) typ"
      "fs_reactions F \<lparr>ux_post = postID, ux_user = userID, ux_type = typ\<rparr> (fd_db st) = (Inr reaction, s)" "res = Inr reaction"
      "st' = feed_publish F postID type_reaction (fm_reaction (fs_models F)) reaction (st\<lparr>fd_db := s\<rparr>)"
proof (cases "fm_valid_type (fs_models F) typ")
  case False
  with assms that(1) show thesis by (simp add: feed_upsert_reaction_def)
next
  case True
  obtain x s where x: "fs_reactions F \<lparr>ux_post = postID, ux_user = userID, ux_type = typ\<rparr> (fd_db st) = (x, s)" by fastforce
  show thesis
  proof (cases x)
    case (Inl err)
    with assms x True that(2) show ?thesis by (simp add: feed_upsert_reaction_def)
  next
    case (Inr reaction)
    with assms x True that(3) show ?thesis by (simp add: feed_upsert_reaction_def)
  qed
qed

text \<open>An object that prints is published, in an envelope that the gateway takes apart again.\<close>

lemma feed_publish_wire:
  assumes ok: "prints_json m" and raw: "m d = Inr raw" and ty: "ty \<noteq> ''''" "utf8_ok ty"
  obtains payload err where "ps_publish (fs_bus F) (post_channel (ul_string (fs_uuid F) postID)) payload (fd_bus st) =
      (err, fd_bus (feed_publish F postID ty m d st))"
    "events_split payload = (ty, raw)" "one_line raw"
    "fd_log (feed_publish F postID ty m d st) =
       fd_log st @ (case err of None \<Rightarrow> [] | Some e \<Rightarrow> [PublishEventFailed ty postID e])"
proof -
  obtain v where "raw = json_print v" "json_ok v" "json_depth v < max_depth"
    using ok raw unfolding prints_json_def by blast
  then have "json_whole raw \<noteq> None" by (simp add: json_whole_print)
  then have marshal: "events_marshal m ty d = Inr (envelope_text \<lparr>ev_type = ty, ev_data = raw\<rparr>)"
    using raw by (simp add: events_marshal_def)
  obtain raw' where "m d = Inr raw'" and split: "events_split (envelope_text \<lparr>ev_type = ty, ev_data = raw\<rparr>) = (ty, raw')" "one_line raw'"
    using events_split_marshal [OF ok ty marshal] by blast
  with raw have eq: "raw' = raw" by simp
  show thesis
    by (rule feed_publish_cases [of m ty d F postID st])
      (use marshal split eq that in \<open>force+\<close>)
qed

lemma feed_publish_event:
  assumes pm: "prints_json m" "m d = Inr raw" and st1: "st1 = feed_publish F p ty m d st0"
    and tys: "ty = ''comment'' \<or> ty = ''reaction''"
  shows "\<exists>payload err. ps_publish (fs_bus F) (post_channel (ul_string (fs_uuid F) p)) payload (fd_bus st0) = (err, fd_bus st1) \<and>
    events_split payload = (ty, raw) \<and> es_parse (sse_frame ty raw) = [(ty, [raw])] \<and>
    fd_log st1 = fd_log st0 @ (case err of None \<Rightarrow> [] | Some e \<Rightarrow> [PublishEventFailed ty p e])"
proof -
  have ty: "ty \<noteq> ''''" "utf8_ok ty" "one_line ty" using tys by (auto simp: one_line_def utf8_ok_ascii)
  from feed_publish_wire [OF pm ty(1,2), of F p st0] obtain payload err
    where w: "ps_publish (fs_bus F) (post_channel (ul_string (fs_uuid F) p)) payload (fd_bus st0) = (err, fd_bus st1)"
      "events_split payload = (ty, raw)" "one_line raw"
      "fd_log st1 = fd_log st0 @ (case err of None \<Rightarrow> [] | Some e \<Rightarrow> [PublishEventFailed ty p e])"
    unfolding st1 by metis
  from es_parse_frame [OF ty(3) w(3), of "[]"] ty(1) have "es_parse (sse_frame ty raw) = [(ty, [raw])]"
    by (simp add: sse_type_def)
  with w show ?thesis by blast
qed

subsection \<open>Properties\<close>

text \<open>
  C29. A stored comment or reaction is on the wire: the service then makes exactly one publish, on
  the channel of the post and no other, of an envelope that a gateway splits into the event type
  and the very JSON text of the stored object, and that reaches a browser as one event. A failing publish is only logged.
\<close>

theorem feed_write_on_wire:
  assumes "prints_json (fm_comment (fs_models F))" and "prints_json (fm_reaction (fs_models F))"
    and "write = ''comment'' \<and> feed_create_comment F p u x st = (Inr c, st') \<and> fm_comment (fs_models F) c = Inr raw \<or>
         write = ''reaction'' \<and> feed_upsert_reaction F p u x st = (Inr r, st') \<and> fm_reaction (fs_models F) r = Inr raw"
  shows "\<exists>payload err. ps_publish (fs_bus F) (post_channel (ul_string (fs_uuid F) p)) payload (fd_bus st) = (err, fd_bus st') \<and>
    events_split payload = (write, raw) \<and> es_parse (sse_frame write raw) = [(write, [raw])] \<and>
    fd_log st' = fd_log st @ (case err of None \<Rightarrow> [] | Some e \<Rightarrow> [PublishEventFailed write p e])"
  using assms(3)
proof (elim disjE conjE)
  assume a: "write = ''comment''" "feed_create_comment F p u x st = (Inr c, st')" "fm_comment (fs_models F) c = Inr raw"
  from a(2) obtain s where "st' = feed_publish F p ''comment'' (fm_comment (fs_models F)) c (st\<lparr>fd_db := s\<rparr>)"
    by (cases rule: feed_create_comment_cases) auto
  from feed_publish_event [OF assms(1) a(3) this] show ?thesis unfolding a(1) by simp
next
  assume a: "write = ''reaction''" "feed_upsert_reaction F p u x st = (Inr r, st')" "fm_reaction (fs_models F) r = Inr raw"
  from a(2) obtain s where "st' = feed_publish F p ''reaction'' (fm_reaction (fs_models F)) r (st\<lparr>fd_db := s\<rparr>)"
    by (cases rule: feed_upsert_reaction_cases) auto
  from feed_publish_event [OF assms(2) a(3) this] show ?thesis unfolding a(1) by simp
qed

text \<open>
  For the witnesses: a database that is the list of the texts stored, objects that print as a
  number, and a bus that records what is published on it.
\<close>

definition recording_bus :: "(string \<times> bytes) list pubsub" where
  "recording_bus =
     \<lparr>ps_publish = (\<lambda>ch payload b. (None, b @ [(ch, payload)])),
      ps_subscribe = (\<lambda>ch b. Inr (Inl (SubscribeFailed ch ''''), b)),
      ps_unsubscribe = (\<lambda>ch c b. Inr (None, b)), ps_close = Inr, ps_recv = (\<lambda>c b. (Blocked, b))\<rparr>"

definition demo_uuid :: uuid_lib where
  "demo_uuid = \<lparr>ul_parse = (\<lambda>s. if s = '''' then Inl ''invalid UUID length: 0'' else Inr s), ul_string = (\<lambda>u. u)\<rparr>"

definition demo_feed :: "(unit, unit, unit, string list, (string \<times> bytes) list) feed_service" where
  "demo_feed =
     \<lparr>fs_posts = \<lparr>pr_create = (\<lambda>n s. (Inr (), s @ [cp_body n])), pr_get_by_id = (\<lambda>i s. if s = [] then Inl ErrNotFound else Inr ())\<rparr>,
      fs_comments = (\<lambda>n s. (Inr (), s @ [cm_post n, cm_author n, cm_body n])), fs_reactions = (\<lambda>n s. (Inr (), s @ [ux_type n])),
      fs_bus = recording_bus,
      fs_models = \<lparr>fm_valid_type = (\<lambda>t. t \<in> {''like'', ''love''}), fm_post = print_seven, fm_comment = print_seven, fm_reaction = print_seven\<rparr>,
      fs_uuid = demo_uuid\<rparr>"

definition empty_feed :: "(string list, (string \<times> bytes) list) feed_state" where
  "empty_feed = \<lparr>fd_db = [], fd_bus = [], fd_log = []\<rparr>"

lemma comment_on_wire:
  "\<exists>payload. fd_bus (snd (feed_create_comment demo_feed ''p1'' ''u1'' ''hi'' empty_feed)) = [(''post:p1'', payload)]"
proof -
  have "fd_bus (feed_publish demo_feed ''p1'' ''comment'' print_seven () st) = fd_bus st @ [(''post:p1'', payload)]"
    if "events_marshal print_seven ''comment'' () = Inr payload" for st payload
    using that by (simp add: feed_publish_def demo_feed_def recording_bus_def demo_uuid_def post_channel_def)
  moreover obtain payload where "events_marshal print_seven ''comment'' () = Inr payload"
    using print_seven_marshals by blast
  ultimately show ?thesis
    by (auto simp: feed_create_comment_def demo_feed_def empty_feed_def)
qed

theorem feed_write_on_wire_witness:
  "\<exists>payload. fd_bus (snd (feed_create_comment demo_feed ''p1'' ''u1'' ''hi'' empty_feed)) = [(''post:p1'', payload)] \<and>
     events_split payload = (''comment'', ''7'')"
proof -
  let ?st = "snd (feed_create_comment demo_feed ''p1'' ''u1'' ''hi'' empty_feed)"
  have print: "prints_json (fm_comment (fs_models demo_feed))" "prints_json (fm_reaction (fs_models demo_feed))"
    using print_seven_ok by (simp_all add: demo_feed_def)
  have call: "feed_create_comment demo_feed ''p1'' ''u1'' ''hi'' empty_feed = (Inr (), ?st)"
    by (simp add: feed_create_comment_def demo_feed_def empty_feed_def)
  have raw: "fm_comment (fs_models demo_feed) () = Inr ''7''" by (simp add: demo_feed_def print_seven_def)
  obtain payload err where
    "ps_publish (fs_bus demo_feed) (post_channel (ul_string (fs_uuid demo_feed) ''p1'')) payload (fd_bus empty_feed) = (err, fd_bus ?st)"
    "events_split payload = (''comment'', ''7'')"
    using feed_write_on_wire [of demo_feed "''comment''" "''p1''" "''u1''" "''hi''" empty_feed "()" ?st "''7''" "()", OF print]
      call raw by blast
  moreover have "ps_publish (fs_bus demo_feed) ch x b = (None, b @ [(ch, x)])" "fd_bus empty_feed = []"
    "post_channel (ul_string (fs_uuid demo_feed) ''p1'') = ''post:p1''" for ch x b
    by (simp_all add: demo_feed_def recording_bus_def demo_uuid_def empty_feed_def post_channel_def)
  ultimately show ?thesis by (intro exI [of _ payload]) simp
qed

end
