(* ===== verification/Middleware.thy ===== *)
theory Middleware
  imports Http
begin

text \<open>
  \<^verbatim>\<open>internal/middleware/middleware.go\<close>: request ids, request logging and authentication.

  A middleware maps a handler to a handler. Context values are the fields \<open>rq_request_id\<close> and
  \<open>rq_claims\<close> of the request. \<open>uuid.NewString()\<close>, the clock and the duration of a request are
  arguments. \<open>status_recorder\<close> is the writer that \<^verbatim>\<open>Logger\<close> hands to the next handler: it passes
  every operation on to the writer below and keeps a status and a count of bytes for the log.
\<close>

subsection \<open>Request ids\<close>

definition request_id_header :: string where
  "request_id_header = ''X-Request-Id''"

definition request_id :: "string \<Rightarrow> 's handler \<Rightarrow> 's handler" where
  "request_id uuid inner r s =
     (let id = value_of (rq_header r) request_id_header;
          id = (if id = '''' then uuid else id)
      in sum_map (\<lambda>(ops, s). (SetHeader request_id_header id # ops, s)) (inner (r\<lparr>rq_request_id := Some id\<rparr>) s))"

definition request_id_from_context :: "request \<Rightarrow> string" where
  "request_id_from_context r = (case rq_request_id r of None \<Rightarrow> '''' | Some v \<Rightarrow> v)"

subsection \<open>The log\<close>

record status_recorder =
  sr_writer :: response
  sr_bytes :: nat
  sr_status :: nat

definition rec_write_header :: "nat \<Rightarrow> status_recorder \<Rightarrow> status_recorder" where
  "rec_write_header st s = s\<lparr>sr_status := st, sr_writer := apply_op (WriteHeader st) (sr_writer s)\<rparr>"

definition rec_write :: "bytes \<Rightarrow> status_recorder \<Rightarrow> status_recorder" where
  "rec_write b s =
     (let s = (if sr_status s = 0 then s\<lparr>sr_status := 200\<rparr> else s);
          n = (if rs_broken (sr_writer s) then 0 else length b)
      in s\<lparr>sr_writer := apply_op (WriteBody b) (sr_writer s), sr_bytes := sr_bytes s + n\<rparr>)"

definition rec_flush :: "status_recorder \<Rightarrow> status_recorder" where
  "rec_flush s =
     (if rs_flusher (sr_writer s) then s\<lparr>sr_writer := flush_response (sr_writer s)\<rparr> else s)"

definition rec_op :: "rw_op \<Rightarrow> status_recorder \<Rightarrow> status_recorder" where
  "rec_op op s =
     (case op of
        SetHeader k v \<Rightarrow> s\<lparr>sr_writer := apply_op (SetHeader k v) (sr_writer s)\<rparr>
      | WriteHeader st \<Rightarrow> rec_write_header st s
      | WriteBody b \<Rightarrow> rec_write b s)"

definition new_recorder :: "response \<Rightarrow> status_recorder" where
  "new_recorder w = \<lparr>sr_writer = w, sr_bytes = 0, sr_status = 0\<rparr>"

text \<open>The log function sees the request as it reached \<^verbatim>\<open>Logger\<close>, the status, the bytes and the time.\<close>

definition logger :: "(request \<Rightarrow> nat \<Rightarrow> nat \<Rightarrow> int \<Rightarrow> 's \<Rightarrow> 's) \<Rightarrow> int \<Rightarrow> 's handler \<Rightarrow> 's handler" where
  "logger log dur inner r s =
     sum_map (\<lambda>(ops, s).
         let rec = fold rec_op ops (new_recorder new_response)
         in (ops, log r (sr_status rec) (sr_bytes rec) dur s))
       (inner r s)"

subsection \<open>Authentication\<close>

definition bearer_prefix :: string where
  "bearer_prefix = ''Bearer ''"

definition query_token_as_bearer :: "'s handler \<Rightarrow> 's handler" where
  "query_token_as_bearer inner r s =
     (let r = (if value_of (rq_header r) ''Authorization'' = '''' then
                 (let t = value_of (rq_query r) ''access_token''
                  in if t \<noteq> '''' then r\<lparr>rq_header := gm_put ''Authorization'' (''Bearer '' @ t) (rq_header r)\<rparr> else r)
               else r)
      in inner r s)"

definition bearer_token :: "request \<Rightarrow> string" where
  "bearer_token r =
     (let h = value_of (rq_header r) ''Authorization''
      in if h = '''' then ''''
         else if length h < length bearer_prefix \<or> \<not> equal_fold (take (length bearer_prefix) h) bearer_prefix then ''''
         else trim_space (drop (length bearer_prefix) h))"

definition auth_mw :: "jwt_lib \<Rightarrow> bytes \<Rightarrow> int \<Rightarrow> 's handler \<Rightarrow> 's handler" where
  "auth_mw J secret now inner r s =
     (let token = bearer_token r
      in if token = '''' then inner r s
         else case parse_access_token J token secret now of
           Inl err \<Rightarrow> Inr (http_error ''invalid or expired token'' 401, s)
         | Inr claims \<Rightarrow> inner (r\<lparr>rq_claims := Some claims\<rparr>) s)"

definition require_auth :: "'s handler \<Rightarrow> 's handler" where
  "require_auth inner r s =
     (case rq_claims r of
        None \<Rightarrow> Inr (http_error ''authentication required'' 401, s)
      | Some _ \<Rightarrow> inner r s)"

definition claims_from_context :: "request \<Rightarrow> claims option" where
  "claims_from_context r = rq_claims r"

subsection \<open>Lemmas\<close>

lemma rec_op_writer: "sr_writer (rec_op op s) = apply_op op (sr_writer s)"
  by (cases op) (simp_all add: rec_op_def rec_write_header_def rec_write_def Let_def)

lemma fold_rec_op_writer: "sr_writer (fold rec_op ops s) = fold apply_op ops (sr_writer s)"
  by (induction ops arbitrary: s) (simp_all add: rec_op_writer)

text \<open>Lists of operations that choose the status at most once, before they write.\<close>

fun sets_status_once :: "rw_op list \<Rightarrow> bool" where
  "sets_status_once [] = True"
| "sets_status_once (SetHeader k v # ops) = sets_status_once ops"
| "sets_status_once (WriteHeader st # ops) = (st \<noteq> 0 \<and> (\<forall>st'. WriteHeader st' \<notin> set ops))"
| "sets_status_once (WriteBody b # ops) = (\<forall>st'. WriteHeader st' \<notin> set ops)"

lemma rec_no_header:
  assumes "\<forall>st. WriteHeader st \<notin> set ops" and "sr_status s \<noteq> 0" and "rs_status (sr_writer s) = sr_status s"
  shows "sr_status (fold rec_op ops s) = sr_status s \<and> rs_status (sr_writer (fold rec_op ops s)) = sr_status s"
  using assms
proof (induction ops arbitrary: s)
  case (Cons op ops)
  have "\<nexists>st. op = WriteHeader st" using Cons.prems(1) by auto
  with Cons.prems(2,3) have "sr_status (rec_op op s) = sr_status s \<and> rs_status (sr_writer (rec_op op s)) = sr_status s"
    by (cases op) (simp_all add: rec_op_def rec_write_def send_header_def Let_def)
  with Cons show ?case by simp
qed simp

lemma rec_status_once:
  assumes "sets_status_once ops" and "sr_status s = 0" and "rs_status (sr_writer s) = 0"
  shows "sr_status (fold rec_op ops s) = rs_status (sr_writer (fold rec_op ops s))"
  using assms
proof (induction ops arbitrary: s rule: sets_status_once.induct)
  case (2 k v ops)
  then show ?case by (simp add: rec_op_def)
next
  case (3 st ops)
  let ?s = "rec_op (WriteHeader st) s"
  have "sr_status ?s \<noteq> 0" "rs_status (sr_writer ?s) = sr_status ?s"
    using 3 by (simp_all add: rec_op_def rec_write_header_def send_header_def)
  with rec_no_header [of ops ?s] 3 show ?case by simp
next
  case (4 b ops)
  let ?s = "rec_op (WriteBody b) s"
  have "sr_status ?s \<noteq> 0" "rs_status (sr_writer ?s) = sr_status ?s"
    using 4 by (simp_all add: rec_op_def rec_write_def send_header_def Let_def)
  with rec_no_header [of ops ?s] 4 show ?case by simp
qed simp

lemma rec_bytes:
  assumes "\<not> rs_broken (sr_writer s)" and "sr_bytes s = length (rs_body (sr_writer s))"
  shows "sr_bytes (fold rec_op ops s) = length (rs_body (sr_writer (fold rec_op ops s)))"
  using assms
proof (induction ops arbitrary: s)
  case (Cons op ops)
  have "\<not> rs_broken (sr_writer (rec_op op s)) \<and> sr_bytes (rec_op op s) = length (rs_body (sr_writer (rec_op op s)))"
    using Cons.prems by (cases op) (simp_all add: rec_op_def rec_write_header_def rec_write_def send_header_def Let_def)
  with Cons.IH show ?case by simp
qed simp

lemma write_json_once: "st \<noteq> 0 \<Longrightarrow> sets_status_once (write_json st body)"
  by (simp add: write_json_def split: sum.split)

lemma write_error_once: "st \<noteq> 0 \<Longrightarrow> sets_status_once (write_error st tag message)"
  by (simp add: write_error_def write_json_once)

lemma http_error_once: "st \<noteq> 0 \<Longrightarrow> sets_status_once (http_error message st)"
  by (simp add: http_error_def)

lemma bearer_token_of:
  assumes "equal_fold p bearer_prefix" and "value_of (rq_header r) ''Authorization'' = p @ t"
  shows "bearer_token r = trim_space t"
proof -
  have len: "length p = 7" using equal_fold_length [OF assms(1)] by (simp add: bearer_prefix_def)
  then have "p \<noteq> ''''" by auto
  with assms len show ?thesis by (simp add: bearer_token_def bearer_prefix_def Let_def)
qed

lemma auth_guard_cases:
  fixes inner :: "'s handler"
  assumes "rq_claims r = None"
  obtains (refused) msg where "auth_mw J secret now (require_auth inner) r s = Inr (http_error msg 401, s)"
  | (passed) c where "parse_access_token J (bearer_token r) secret now = Inr c"
      "auth_mw J secret now (require_auth inner) r s = inner (r\<lparr>rq_claims := Some c\<rparr>) s"
proof (cases "bearer_token r = ''''")
  case True
  with assms show thesis by (intro refused) (simp add: auth_mw_def require_auth_def)
next
  case False
  then show thesis
    using refused [of "''invalid or expired token''"] passed
    by (cases "parse_access_token J (bearer_token r) secret now") (simp_all add: auth_mw_def require_auth_def)
qed

lemma logger_line:
  assumes "inner r s = Inr (ops, s')" and "sets_status_once ops"
  shows "logger log dur inner r s =
    Inr (ops, log r (rs_status (fold apply_op ops new_response)) (length (rs_body (respond ops))) dur s')"
proof -
  let ?rec = "fold rec_op ops (new_recorder new_response)"
  have w: "sr_writer ?rec = fold apply_op ops new_response" by (simp add: fold_rec_op_writer new_recorder_def)
  have "sr_status ?rec = rs_status (sr_writer ?rec)"
    by (rule rec_status_once [OF assms(2)]) (simp_all add: new_recorder_def new_response_def)
  moreover have "sr_bytes ?rec = length (rs_body (sr_writer ?rec))"
    by (rule rec_bytes) (simp_all add: new_recorder_def new_response_def)
  moreover have "rs_body (respond ops) = rs_body (fold apply_op ops new_response)"
    by (simp add: respond_def send_header_def)
  ultimately show ?thesis using assms(1) w by (simp add: logger_def Let_def)
qed

subsection \<open>Properties\<close>

text \<open>
  Behind \<^verbatim>\<open>Auth\<close> and \<^verbatim>\<open>RequireAuth\<close> a handler runs only for a request whose bearer token is
  signed under the server's secret with an HMAC method and is within its time window, and it
  runs with exactly the claims of that token; every other request is answered 401 and changes nothing.
\<close>

theorem protected_handler_authenticated:
  assumes "jwt_ok J sig" and "rq_claims r = None"
  shows "(\<exists>msg. auth_mw J secret now (require_auth h) r s = Inr (http_error msg 401, s)) \<or>
    (\<exists>alg c. sig (bearer_token r) (HMAC alg) c secret \<and> in_window c now \<and>
       auth_mw J secret now (require_auth h) r s = h (r\<lparr>rq_claims := Some c\<rparr>) s)"
  using assms(2)
proof (rule auth_guard_cases [where J = J and secret = secret and now = now and inner = h and s = s], goal_cases)
  case (1 msg)
  then show ?case by blast
next
  case (2 c)
  with jwt_ok_parse [OF assms(1) 2(1)] show ?case by metis
qed

text \<open>For the witness: a request with the token of \<open>one_token_lib\<close>.\<close>

definition bearer_request :: "string \<Rightarrow> request" where
  "bearer_request h =
     \<lparr>rq_method = ''GET'', rq_path = ''/'', rq_header = [(''Authorization'', h)], rq_query = [], rq_params = [],
      rq_body = [], rq_request_id = None, rq_claims = None\<rparr>"

lemma jwt_visible: "no_outer_space ''jwt''"
  by (rule no_outer_space_visible) (simp add: visible_def)

theorem protected_handler_authenticated_witness:
  "auth_mw one_token_lib ''key'' 5 (require_auth (\<lambda>r s. Inr ([], s + 1))) (bearer_request ''bearer jwt'') (0 :: nat) =
     Inr ([], 1)"
proof -
  let ?h = "\<lambda>r s. Inr ([], s + 1) :: panic + (rw_op list \<times> nat)"
  have "rq_claims (bearer_request ''bearer jwt'') = None" by (simp add: bearer_request_def)
  from protected_handler_authenticated [OF one_token_lib_ok this, of "''key''" 5 ?h 0]
  have "(\<exists>msg. auth_mw one_token_lib ''key'' 5 (require_auth ?h) (bearer_request ''bearer jwt'') 0 = Inr (http_error msg 401, 0)) \<or>
      auth_mw one_token_lib ''key'' 5 (require_auth ?h) (bearer_request ''bearer jwt'') 0 = Inr ([], 1)" by auto
  moreover have "bearer_token (bearer_request ''bearer jwt'') = trim_space ''jwt''"
  proof (rule bearer_token_of)
    show "equal_fold ''bearer '' bearer_prefix" by code_simp
    show "value_of (rq_header (bearer_request ''bearer jwt'')) ''Authorization'' = ''bearer '' @ ''jwt''"
      by (simp add: bearer_request_def value_of_def)
  qed
  then have "bearer_token (bearer_request ''bearer jwt'') = ''jwt''"
    using trim_space_id [OF jwt_visible] by simp
  then have "auth_mw one_token_lib ''key'' 5 (require_auth ?h) (bearer_request ''bearer jwt'') 0 = Inr ([], 1)"
    by (simp add: auth_mw_def require_auth_def parse_access_token_def one_token_lib_def single_lib_def access_key_def hs256_def)
  ultimately show ?thesis by blast
qed

text \<open>
  An \<^verbatim>\<open>EventSource\<close> client authenticates with \<^verbatim>\<open>?access_token=\<close> exactly as another does with
  the header: without an \<^verbatim>\<open>Authorization\<close> header the next handler sees the query token as the bearer
  token; with one, the query is ignored.
\<close>

theorem query_token_is_bearer:
  assumes "no_outer_space (value_of (rq_query r) ''access_token'')"
  shows "\<exists>r'. query_token_as_bearer inner r s = inner r' s \<and>
    bearer_token r' =
      (if value_of (rq_header r) ''Authorization'' = '''' then value_of (rq_query r) ''access_token'' else bearer_token r)"
proof (cases "value_of (rq_header r) ''Authorization'' = '''' \<and> value_of (rq_query r) ''access_token'' \<noteq> ''''")
  case True
  let ?t = "value_of (rq_query r) ''access_token''"
  let ?r = "r\<lparr>rq_header := gm_put ''Authorization'' (''Bearer '' @ ?t) (rq_header r)\<rparr>"
  have "value_of (rq_header ?r) ''Authorization'' = ''Bearer '' @ ?t" by (simp add: value_of_def)
  then have "bearer_token ?r = ?t"
    using bearer_token_of [of "''Bearer ''" ?r ?t] trim_space_id [OF assms] by (simp add: bearer_prefix_def)
  moreover have "query_token_as_bearer inner r s = inner ?r s" using True by (simp add: query_token_as_bearer_def)
  ultimately show ?thesis using True by (intro exI [of _ ?r]) simp
next
  case False
  then have "query_token_as_bearer inner r s = inner r s"
    by (auto simp: query_token_as_bearer_def)
  with False show ?thesis by (intro exI [of _ r]) (auto simp: bearer_token_def)
qed

theorem query_token_is_bearer_witness:
  "\<exists>r'. query_token_as_bearer (\<lambda>r s. Inr ([WriteBody (bearer_token r)], s))
      ((bearer_request '''')\<lparr>rq_query := [(''access_token'', ''jwt'')]\<rparr>) (0 :: nat) = Inr ([WriteBody (bearer_token r')], 0) \<and>
    bearer_token r' = ''jwt''"
proof -
  let ?r = "(bearer_request '''')\<lparr>rq_query := [(''access_token'', ''jwt'')]\<rparr>"
  have "no_outer_space (value_of (rq_query ?r) ''access_token'')"
    using jwt_visible by (simp add: value_of_def)
  from query_token_is_bearer [OF this, of "\<lambda>r s. Inr ([WriteBody (bearer_token r)], s)" 0]
  show ?thesis by (simp add: bearer_request_def value_of_def)
qed

text \<open>
  The log tells the truth about handlers that choose a status at most once and before they
  write: the logged status is the one that was sent (0 if the handler sent none and \<^verbatim>\<open>net/http\<close>
  adds the 200), the logged bytes are those written to the body (for a \<^verbatim>\<open>HEAD\<close> request too, whose
  body is not sent), and the response itself is untouched by the recorder.
\<close>

theorem logger_truthful:
  assumes "inner r s = Inr (ops, s')" and "sets_status_once ops"
  shows "logger log dur inner r s =
    Inr (ops, log r (rs_status (fold apply_op ops new_response)) (length (rs_body (respond ops))) dur s')"
  by (rule logger_line [where inner = inner, OF assms])

theorem logger_truthful_witness:
  "logger (\<lambda>r st n d l. (st, n) # l) 7 (\<lambda>r s. Inr ([WriteHeader 204], s)) (bearer_request '''') [] = Inr ([WriteHeader 204], [(204, 0)])"
proof -
  let ?inner = "\<lambda>r s. Inr ([WriteHeader 204], s) :: panic + (rw_op list \<times> (nat \<times> nat) list)"
  have "?inner (bearer_request '''') [] = Inr ([WriteHeader 204], [])" by simp
  from logger_truthful [where inner = ?inner and log = "\<lambda>r st n d l. (st, n) # l" and dur = 7, OF this]
  show ?thesis by (simp add: respond_def new_response_def send_header_def)
qed

text \<open>
  A second \<^verbatim>\<open>WriteHeader\<close> makes the log lie: the client keeps the first status, the log
  shows the second.
\<close>

theorem logger_second_status:
  "sr_status (fold rec_op [WriteHeader a, WriteHeader b] (new_recorder new_response)) = b \<and>
   rs_status (respond [WriteHeader a, WriteHeader b]) = (if a = 0 then (if b = 0 then 200 else b) else a)"
  by (simp add: rec_op_def rec_write_header_def new_recorder_def respond_def new_response_def send_header_def)

end
