(* ===== verification/FeedHandler.thy ===== *)
theory FeedHandler
  imports FeedService Middleware
begin

text \<open>
  \<^verbatim>\<open>internal/handlers/feed.go\<close>: the four endpoints under \<^verbatim>\<open>/posts\<close>, over \<open>FeedService\<close>.

  The handlers take the claims from the context without a check, so without them they panic; that
  \<^verbatim>\<open>RequireAuth\<close> stands before them is the matter of \<open>Dispatcher\<close>. The text of a decoding error is
  made by \<^verbatim>\<open>encoding/json\<close>: it is the argument \<open>explain\<close>.
\<close>

subsection \<open>The handlers\<close>

definition create_post_fields :: "string list" where
  "create_post_fields = [''body'']"

definition create_comment_fields :: "string list" where
  "create_comment_fields = [''body'']"

definition upsert_reaction_fields :: "string list" where
  "upsert_reaction_fields = [''type'']"

definition handle_create_post ::
    "('p, 'c, 'r, 's, 'b) feed_service \<Rightarrow> (decode_error \<Rightarrow> string) \<Rightarrow> ('s, 'b) feed_state handler" where
  "handle_create_post F explain r st =
     (case claims_from_context r of
        None \<Rightarrow> Inl NilDereference
      | Some claims \<Rightarrow>
          (case ul_parse (fs_uuid F) (cl_user_id claims) of
             Inl err \<Rightarrow> Inr (write_error 401 ''invalid_token'' ''token subject is not a valid user id'', st)
           | Inr authorID \<Rightarrow>
               (case decode_json create_post_fields (rq_body r) 0 of
                  Inl err \<Rightarrow> Inr (write_error 400 ''invalid_body'' (explain err), st)
                | Inr req \<Rightarrow>
                    if trim_space (req ''body'') = '''' then
                      Inr (write_error 400 ''invalid_body'' ''body must not be empty'', st)
                    else
                      (case feed_create_post F authorID (req ''body'') st of
                         (Inl err, st) \<Rightarrow> Inr (write_error 500 ''internal_error'' ''failed to create post'', st)
                       | (Inr post, st) \<Rightarrow> Inr (write_json 201 (fm_post (fs_models F) post), st)))))"

definition handle_get_post :: "('p, 'c, 'r, 's, 'b) feed_service \<Rightarrow> ('s, 'b) feed_state handler" where
  "handle_get_post F r st =
     (case ul_parse (fs_uuid F) (value_of (rq_params r) ''postID'') of
        Inl err \<Rightarrow> Inr (write_error 400 ''invalid_post_id'' ''postID must be a UUID'', st)
      | Inr postID \<Rightarrow>
          (case feed_get_post F postID st of
             Inl err \<Rightarrow>
               if err = ErrPostNotFound then Inr (write_error 404 ''not_found'' ''post not found'', st)
               else Inr (write_error 500 ''internal_error'' ''failed to get post'', st)
           | Inr post \<Rightarrow> Inr (write_json 200 (fm_post (fs_models F) post), st)))"

definition handle_create_comment ::
    "('p, 'c, 'r, 's, 'b) feed_service \<Rightarrow> (decode_error \<Rightarrow> string) \<Rightarrow> ('s, 'b) feed_state handler" where
  "handle_create_comment F explain r st =
     (case claims_from_context r of
        None \<Rightarrow> Inl NilDereference
      | Some claims \<Rightarrow>
          (case ul_parse (fs_uuid F) (cl_user_id claims) of
             Inl err \<Rightarrow> Inr (write_error 401 ''invalid_token'' ''token subject is not a valid user id'', st)
           | Inr authorID \<Rightarrow>
               (case ul_parse (fs_uuid F) (value_of (rq_params r) ''postID'') of
                  Inl err \<Rightarrow> Inr (write_error 400 ''invalid_post_id'' ''postID must be a UUID'', st)
                | Inr postID \<Rightarrow>
                    (case decode_json create_comment_fields (rq_body r) 0 of
                       Inl err \<Rightarrow> Inr (write_error 400 ''invalid_body'' (explain err), st)
                     | Inr req \<Rightarrow>
                         if trim_space (req ''body'') = '''' then
                           Inr (write_error 400 ''invalid_body'' ''body must not be empty'', st)
                         else
                           (case feed_create_comment F postID authorID (req ''body'') st of
                              (Inl err, st) \<Rightarrow>
                                if err = ErrPostNotFound then Inr (write_error 404 ''not_found'' ''post not found'', st)
                                else Inr (write_error 500 ''internal_error'' ''failed to create comment'', st)
                            | (Inr comment, st) \<Rightarrow> Inr (write_json 201 (fm_comment (fs_models F) comment), st))))))"

definition handle_upsert_reaction ::
    "('p, 'c, 'r, 's, 'b) feed_service \<Rightarrow> (decode_error \<Rightarrow> string) \<Rightarrow> ('s, 'b) feed_state handler" where
  "handle_upsert_reaction F explain r st =
     (case claims_from_context r of
        None \<Rightarrow> Inl NilDereference
      | Some claims \<Rightarrow>
          (case ul_parse (fs_uuid F) (cl_user_id claims) of
             Inl err \<Rightarrow> Inr (write_error 401 ''invalid_token'' ''token subject is not a valid user id'', st)
           | Inr userID \<Rightarrow>
               (case ul_parse (fs_uuid F) (value_of (rq_params r) ''postID'') of
                  Inl err \<Rightarrow> Inr (write_error 400 ''invalid_post_id'' ''postID must be a UUID'', st)
                | Inr postID \<Rightarrow>
                    (case decode_json upsert_reaction_fields (rq_body r) 0 of
                       Inl err \<Rightarrow> Inr (write_error 400 ''invalid_body'' (explain err), st)
                     | Inr req \<Rightarrow>
                         (let typ = req ''type''
                          in if \<not> fm_valid_type (fs_models F) typ then
                               Inr (write_error 400 ''invalid_type'' ''type must be one of like, love, haha, sad, angry'', st)
                             else
                               (case feed_upsert_reaction F postID userID typ st of
                                  (Inl err, st) \<Rightarrow>
                                    if err = ErrPostNotFound then Inr (write_error 404 ''not_found'' ''post not found'', st)
                                    else Inr (write_error 500 ''internal_error'' ''failed to upsert reaction'', st)
                                | (Inr reaction, st) \<Rightarrow> Inr (write_json 200 (fm_reaction (fs_models F) reaction), st)))))))"

subsection \<open>Lemmas\<close>

text \<open>
  With claims on the context a handler answers; either it has refused the request before it reached
  the service, or it has made one call of the service as the user of the claims.
\<close>

abbreviation status_of :: "rw_op list \<Rightarrow> nat" where
  "status_of ops \<equiv> rs_status (respond ops)"

lemmas status_simps = respond_write_json(1) respond_write_error respond_http_error

lemma handle_create_post_cases:
  assumes claims: "rq_claims r = Some cl"
  obtains (refused) ops where "handle_create_post F explain r st = Inr (ops, st)" "status_of ops \<in> {400, 401}"
  | (called) ops author req res st' where "handle_create_post F explain r st = Inr (ops, st')"
      "ul_parse (fs_uuid F) (cl_user_id cl) = Inr author"
      "decode_json create_post_fields (rq_body r) 0 = Inr req"
      "trim_space (req ''body'') \<noteq> ''''" "feed_create_post F author (req ''body'') st = (res, st')"
      "status_of ops = (case res of Inr _ \<Rightarrow> 201 | Inl _ \<Rightarrow> 500)"
proof (cases "ul_parse (fs_uuid F) (cl_user_id cl)")
  case (Inl e)
  with claims show thesis by (intro that(1)) (simp add: handle_create_post_def claims_from_context_def status_simps)+
next
  case author: (Inr author)
  show thesis
  proof (cases "decode_json create_post_fields (rq_body r) 0")
    case (Inl e)
    with author claims show ?thesis
      by (intro that(1)) (simp add: handle_create_post_def claims_from_context_def status_simps)+
  next
    case req: (Inr req)
    show ?thesis
    proof (cases "trim_space (req ''body'') \<noteq> ''''")
      case False
      with author req claims show ?thesis
        by (intro that(1)) (simp add: handle_create_post_def claims_from_context_def status_simps)+
    next
      case True
      obtain res st' where call: "feed_create_post F author (req ''body'') st = (res, st')" by fastforce
      show ?thesis
      proof (cases res)
        case (Inl err)
        with author req True call claims show ?thesis
          by (intro that(2) [OF _ author req True call]) (simp add: handle_create_post_def claims_from_context_def status_simps)+
      next
        case (Inr x)
        with author req True call claims show ?thesis
          by (intro that(2) [OF _ author req True call]) (simp add: handle_create_post_def claims_from_context_def status_simps)+
      qed
    qed
  qed
qed

lemma handle_create_comment_cases:
  assumes claims: "rq_claims r = Some cl"
  obtains (refused) ops where "handle_create_comment F explain r st = Inr (ops, st)" "status_of ops \<in> {400, 401}"
  | (called) ops author post req res st' where "handle_create_comment F explain r st = Inr (ops, st')"
      "ul_parse (fs_uuid F) (cl_user_id cl) = Inr author"
      "ul_parse (fs_uuid F) (value_of (rq_params r) ''postID'') = Inr post"
      "decode_json create_comment_fields (rq_body r) 0 = Inr req"
      "trim_space (req ''body'') \<noteq> ''''" "feed_create_comment F post author (req ''body'') st = (res, st')"
      "status_of ops = (case res of Inr _ \<Rightarrow> 201 | Inl err \<Rightarrow> if err = ErrPostNotFound then 404 else 500)"
proof (cases "ul_parse (fs_uuid F) (cl_user_id cl)")
  case (Inl e)
  with claims show thesis by (intro that(1)) (simp add: handle_create_comment_def claims_from_context_def status_simps)+
next
  case author: (Inr author)
  show thesis
  proof (cases "ul_parse (fs_uuid F) (value_of (rq_params r) ''postID'')")
    case (Inl e)
    with author claims show ?thesis
      by (intro that(1)) (simp add: handle_create_comment_def claims_from_context_def status_simps)+
  next
    case post: (Inr post)
    show ?thesis
    proof (cases "decode_json create_comment_fields (rq_body r) 0")
      case (Inl e)
      with author post claims show ?thesis
        by (intro that(1)) (simp add: handle_create_comment_def claims_from_context_def status_simps)+
    next
      case req: (Inr req)
      show ?thesis
      proof (cases "trim_space (req ''body'') \<noteq> ''''")
        case False
        with author post req claims show ?thesis
          by (intro that(1)) (simp add: handle_create_comment_def claims_from_context_def status_simps)+
      next
        case True
        obtain res st' where call: "feed_create_comment F post author (req ''body'') st = (res, st')" by fastforce
        show ?thesis
        proof (cases res)
          case (Inl err)
          with author post req True call claims show ?thesis
            by (cases "err = ErrPostNotFound"; intro that(2) [OF _ author post req True call])
              (simp add: handle_create_comment_def claims_from_context_def status_simps split: feed_error.split)+
        next
          case (Inr x)
          with author post req True call claims show ?thesis
            by (intro that(2) [OF _ author post req True call]) (simp add: handle_create_comment_def claims_from_context_def status_simps)+
        qed
      qed
    qed
  qed
qed

lemma handle_upsert_reaction_cases:
  assumes claims: "rq_claims r = Some cl"
  obtains (refused) ops where "handle_upsert_reaction F explain r st = Inr (ops, st)" "status_of ops \<in> {400, 401}"
  | (called) ops author post req res st' where "handle_upsert_reaction F explain r st = Inr (ops, st')"
      "ul_parse (fs_uuid F) (cl_user_id cl) = Inr author"
      "ul_parse (fs_uuid F) (value_of (rq_params r) ''postID'') = Inr post"
      "decode_json upsert_reaction_fields (rq_body r) 0 = Inr req"
      "fm_valid_type (fs_models F) (req ''type'')" "feed_upsert_reaction F post author (req ''type'') st = (res, st')"
      "status_of ops = (case res of Inr _ \<Rightarrow> 200 | Inl err \<Rightarrow> if err = ErrPostNotFound then 404 else 500)"
proof (cases "ul_parse (fs_uuid F) (cl_user_id cl)")
  case (Inl e)
  with claims show thesis by (intro that(1)) (simp add: handle_upsert_reaction_def claims_from_context_def status_simps)+
next
  case author: (Inr author)
  show thesis
  proof (cases "ul_parse (fs_uuid F) (value_of (rq_params r) ''postID'')")
    case (Inl e)
    with author claims show ?thesis
      by (intro that(1)) (simp add: handle_upsert_reaction_def claims_from_context_def status_simps)+
  next
    case post: (Inr post)
    show ?thesis
    proof (cases "decode_json upsert_reaction_fields (rq_body r) 0")
      case (Inl e)
      with author post claims show ?thesis
        by (intro that(1)) (simp add: handle_upsert_reaction_def claims_from_context_def status_simps)+
    next
      case req: (Inr req)
      show ?thesis
      proof (cases "fm_valid_type (fs_models F) (req ''type'')")
        case False
        with author post req claims show ?thesis
          by (intro that(1)) (simp add: handle_upsert_reaction_def claims_from_context_def status_simps)+
      next
        case True
        obtain res st' where call: "feed_upsert_reaction F post author (req ''type'') st = (res, st')" by fastforce
        show ?thesis
        proof (cases res)
          case (Inl err)
          with author post req True call claims show ?thesis
            by (cases "err = ErrPostNotFound"; intro that(2) [OF _ author post req True call])
              (simp add: handle_upsert_reaction_def claims_from_context_def status_simps split: feed_error.split)+
        next
          case (Inr x)
          with author post req True call claims show ?thesis
            by (intro that(2) [OF _ author post req True call]) (simp add: handle_upsert_reaction_def claims_from_context_def status_simps)+
        qed
      qed
    qed
  qed
qed

lemma comment_sent:
  assumes "rq_claims r = Some cl" and "ul_parse (fs_uuid F) (cl_user_id cl) = Inr author"
    and "ul_parse (fs_uuid F) (value_of (rq_params r) ''postID'') = Inr post"
    and "rq_body r = print_string_fields [(''body'', txt)]" and "utf8_ok txt" and "length (rq_body r) \<le> 2 ^ 20"
  shows "\<exists>ops st'. handle_create_comment F explain r st = Inr (ops, st') \<and>
    (if trim_space txt = '''' then status_of ops = 400 \<and> st' = st
     else \<exists>res. feed_create_comment F post author txt st = (res, st') \<and>
       status_of ops = (case res of Inr _ \<Rightarrow> 201 | Inl err \<Rightarrow> if err = ErrPostNotFound then 404 else 500) \<and>
       (\<forall>c raw. res = Inr c \<and> fm_comment (fs_models F) c = Inr raw \<longrightarrow> rs_body (respond ops) = raw @ [newline]))"
proof -
  have "\<forall>(n, v)\<in>set [(''body'', txt)]. n \<in> set create_comment_fields \<and> utf8_ok n \<and> utf8_ok v"
    using assms(5) by (simp add: create_comment_fields_def utf8_ok_ascii)
  then obtain req where req: "decode_json create_comment_fields (rq_body r) 0 = Inr req" "req ''body'' = txt"
    using decode_string_fields [of "[(''body'', txt)]" create_comment_fields] assms(4,6) by auto
  note unfold = handle_create_comment_def claims_from_context_def assms(1-3) req status_simps
  show ?thesis
  proof (cases "trim_space txt = ''''")
    case True
    then show ?thesis by (simp add: unfold)
  next
    case False
    obtain res st' where call: "feed_create_comment F post author txt st = (res, st')" by fastforce
    show ?thesis
    proof (cases res)
      case (Inl err)
      with False call show ?thesis by (simp add: unfold)
    next
      case (Inr c)
      with False call show ?thesis by (auto simp: unfold respond_write_json(2))
    qed
  qed
qed

subsection \<open>Properties\<close>

text \<open>
  C30. A comment is stored as it was sent. For an authenticated request whose body is the JSON text of
  a comment, any text of up to a mebibyte in valid UTF-8: a blank one is refused with 400 and
  changes nothing. Any other is given, once, to the repository of the comments: with the post of
  the path, the author of the token and the text unaltered. When the repository refuses, the
  answer is 404 for an unknown post and 500 otherwise, and nothing but the database may have changed. When it
  returns a comment, the answer is 201 with that comment, and the same comment is published as an event of
  type \<^verbatim>\<open>comment\<close> on the post of the path.
\<close>

theorem comment_posted_as_sent:
  assumes "rq_claims r = Some cl" and "ul_parse (fs_uuid F) (cl_user_id cl) = Inr author"
    and "ul_parse (fs_uuid F) (value_of (rq_params r) ''postID'') = Inr post"
    and "rq_body r = print_string_fields [(''body'', txt)]" and "utf8_ok txt" and "length (rq_body r) \<le> 2 ^ 20"
  shows "\<exists>ops st'. handle_create_comment F explain r st = Inr (ops, st') \<and>
    (if trim_space txt = '''' then status_of ops = 400 \<and> st' = st
     else \<exists>res s. fs_comments F \<lparr>cm_post = post, cm_author = author, cm_body = txt\<rparr> (fd_db st) = (res, s) \<and>
       (case res of
          Inl err \<Rightarrow> status_of ops = (if err = ErrNotFound then 404 else 500) \<and> st' = st\<lparr>fd_db := s\<rparr>
        | Inr comment \<Rightarrow> status_of ops = 201 \<and>
            (\<forall>raw. fm_comment (fs_models F) comment = Inr raw \<longrightarrow> rs_body (respond ops) = raw @ [newline]) \<and>
            st' = feed_publish F post ''comment'' (fm_comment (fs_models F)) comment (st\<lparr>fd_db := s\<rparr>)))"
proof -
  obtain ops st' where run: "handle_create_comment F explain r st = Inr (ops, st')"
    and out: "if trim_space txt = '''' then status_of ops = 400 \<and> st' = st
     else \<exists>res. feed_create_comment F post author txt st = (res, st') \<and>
       status_of ops = (case res of Inr _ \<Rightarrow> 201 | Inl err \<Rightarrow> if err = ErrPostNotFound then 404 else 500) \<and>
       (\<forall>c raw. res = Inr c \<and> fm_comment (fs_models F) c = Inr raw \<longrightarrow> rs_body (respond ops) = raw @ [newline])"
    using comment_sent [OF assms] by blast
  show ?thesis
  proof (cases "trim_space txt = ''''")
    case True
    with run out show ?thesis by simp
  next
    case False
    with out obtain res where call: "feed_create_comment F post author txt st = (res, st')"
      and status: "status_of ops = (case res of Inr _ \<Rightarrow> 201 | Inl err \<Rightarrow> if err = ErrPostNotFound then 404 else 500)"
      and body: "\<forall>c raw. res = Inr c \<and> fm_comment (fs_models F) c = Inr raw \<longrightarrow> rs_body (respond ops) = raw @ [newline]"
      by auto
    from call show ?thesis
      by (cases rule: feed_create_comment_cases) (use run status body False in simp_all)
  qed
qed

text \<open>For the witnesses: a request of the user \<open>u1\<close> with a comment.\<close>

definition comment_request :: "string \<Rightarrow> request" where
  "comment_request txt =
     \<lparr>rq_method = ''POST'', rq_path = ''/posts/p1/comments'', rq_header = [], rq_query = [],
      rq_params = [(''postID'', ''p1'')], rq_body = print_string_fields [(''body'', txt)], rq_request_id = None,
      rq_claims = Some one_claims\<rparr>"

theorem comment_posted_as_sent_witness:
  "\<exists>ops st'. handle_create_comment demo_feed (\<lambda>_. ''bad'') (comment_request ''hi'') empty_feed = Inr (ops, st') \<and>
     status_of ops = 201 \<and> fd_db st' = [''p1'', ''u1'', ''hi'']"
proof -
  have ids: "rq_claims (comment_request ''hi'') = Some one_claims"
    "ul_parse (fs_uuid demo_feed) (cl_user_id one_claims) = Inr ''u1''"
    "ul_parse (fs_uuid demo_feed) (value_of (rq_params (comment_request ''hi'')) ''postID'') = Inr ''p1''"
    "rq_body (comment_request ''hi'') = print_string_fields [(''body'', ''hi'')]"
    by (simp_all add: demo_feed_def demo_uuid_def one_claims_def minute_claims_def value_of_def comment_request_def)
  have utf: "utf8_ok ''hi''" by (simp add: utf8_ok_ascii)
  have len: "length (rq_body (comment_request ''hi'')) \<le> 2 ^ 20"
    by (simp add: comment_request_def print_string_fields_def json_quote_def quote_body.simps quote_char_def html_special_def)
  have trim: "trim_space ''hi'' \<noteq> ''''"
    using trim_space_id [OF no_outer_space_visible [of "''hi''"]] by (simp add: visible_def)
  have "fs_comments demo_feed \<lparr>cm_post = ''p1'', cm_author = ''u1'', cm_body = ''hi''\<rparr> (fd_db empty_feed) =
      (Inr (), [''p1'', ''u1'', ''hi''])"
    by (simp add: demo_feed_def empty_feed_def)
  with comment_posted_as_sent [OF ids utf len, of "\<lambda>_. ''bad''" empty_feed] trim show ?thesis by auto
qed

end
