(* ===== verification/Sha256Eval.thy ===== *)
theory Sha256Eval
  imports Tokens
begin

text \<open>
  SHA-256 over integers in place of machine words, equal to \<open>sha256\<close> and fast enough to be
  evaluated by the simplifier: a word is its \<open>uint\<close>, additions are cut to 32 bits once per round.
  The digest of a published test vector, and of the tokens that the witnesses use.
\<close>

definition irot :: "nat \<Rightarrow> int \<Rightarrow> int" where
  "irot n x = concat_bit (32 - n) (drop_bit n x) (take_bit n x)"

definition irot_xor :: "nat \<Rightarrow> nat \<Rightarrow> int \<Rightarrow> int \<Rightarrow> int" where
  "irot_xor i j third x = irot i x XOR irot j x XOR third"

definition ischedule_word :: "int list \<Rightarrow> int" where
  "ischedule_word ws =
     take_bit 32 (irot_xor 17 19 (drop_bit 10 (ws ! 1)) (ws ! 1) + ws ! 6 +
       irot_xor 7 18 (drop_bit 3 (ws ! 14)) (ws ! 14) + ws ! 15)"

fun ischedule :: "nat \<Rightarrow> int list \<Rightarrow> int list" where
  "ischedule 0 ws = ws"
| "ischedule (Suc n) ws = ischedule n (ischedule_word ws # ws)"

fun iround :: "int \<times> int \<Rightarrow> int list \<Rightarrow> int list" where
  "iround (k, w) [a, b, c, d, e, f, g, h] =
     (let t1 = h + irot_xor 6 11 (irot 25 e) e + ((e AND f) XOR (take_bit 32 (NOT e) AND g)) + k + w;
          t2 = irot_xor 2 13 (irot 22 a) a + ((a AND b) XOR (a AND c) XOR (b AND c))
      in [take_bit 32 (t1 + t2), a, b, c, take_bit 32 (d + t1), e, f, g])"
| "iround _ st = st"

definition iblock :: "int list \<Rightarrow> int list \<Rightarrow> int list" where
  "iblock ws st =
     map2 (\<lambda>x y. take_bit 32 (x + y)) st
       (fold iround (zip (map uint sha_k) (rev (ischedule 48 (rev ws)))) st)"

fun ibytes_to_words :: "nat list \<Rightarrow> int list" where
  "ibytes_to_words (a # b # c # d # bs) =
     take_bit 32 (int (((a * 256 + b) * 256 + c) * 256 + d)) # ibytes_to_words bs"
| "ibytes_to_words _ = []"

lemma uint_rotr: "n < 32 \<Longrightarrow> uint (word_rotr n (x :: w32)) = irot n (uint x)"
  by (simp add: uint_word_rotr_eq irot_def unsigned_take_bit_eq)

lemma uint_add: "uint (x + y :: w32) = take_bit 32 (uint x + uint y)"
  by (simp add: uint_word_ariths take_bit_eq_mod)

lemma uint_rot_xor:
  "i < 32 \<Longrightarrow> j < 32 \<Longrightarrow> uint (rot_xor i j third x) = irot_xor i j (uint third) (uint x)"
  by (simp add: rot_xor_def irot_xor_def unsigned_xor_eq uint_rotr)

lemma uint_drop_bit: "uint (drop_bit n x :: w32) = drop_bit n (uint x)"
  using take_bit_int_eq_self [of "uint x" 32] uint_lt2p [of x] by (simp add: unsigned_drop_bit_eq)

lemmas uint_word_ops = uint_rot_xor uint_rotr unsigned_xor_eq unsigned_and_eq unsigned_not_eq uint_drop_bit

lemma uint_sum: "uint (x + y :: w32) = (uint x + uint y) mod 2 ^ 32"
  by (simp add: uint_add take_bit_eq_mod)

lemma ischedule_word:
  assumes "15 < length ws"
  shows "ischedule_word (map uint ws) = uint (small1 (ws ! 1) + ws ! 6 + small0 (ws ! 14) + ws ! 15)"
  using assms
  by (simp add: ischedule_word_def small0_def small1_def uint_word_ops uint_sum take_bit_eq_mod mod_simps)

lemma ischedule: "15 < length ws \<Longrightarrow> ischedule n (map uint ws) = map uint (schedule n ws)"
proof (induction n arbitrary: ws)
  case (Suc n)
  from Suc.IH [of "(small1 (ws ! 1) + ws ! 6 + small0 (ws ! 14) + ws ! 15) # ws"] Suc.prems
  show ?case by (simp add: ischedule_word)
qed simp

lemma iround: "iround (uint k, uint w) (map uint st) = map uint (sha_round (k, w) st)"
proof (cases "\<exists>a b c d e f g h. st = [a, b, c, d, e, f, g, h]")
  case True
  then show ?thesis
    by (auto simp: Let_def big0_def big1_def uint_word_ops uint_sum take_bit_eq_mod mod_simps add_ac)
next
  case False
  then have "sha_round (k, w) st = st" by (cases "((k, w), st)" rule: sha_round.cases) auto
  moreover from False have "iround (uint k, uint w) (map uint st) = map uint st"
    by (cases "((uint k, uint w), map uint st)" rule: iround.cases) (auto simp: map_eq_Cons_conv)
  ultimately show ?thesis by simp
qed

fun iblocks :: "nat \<Rightarrow> nat list \<Rightarrow> int list \<Rightarrow> int list" where
  "iblocks 0 m st = st"
| "iblocks (Suc n) m st = iblocks n (drop 64 m) (iblock (ibytes_to_words (take 64 m)) st)"

definition ibe_bytes :: "int \<Rightarrow> nat list" where
  "ibe_bytes w = map (\<lambda>n. nat (take_bit 8 (drop_bit n w))) [24, 16, 8, 0]"

definition isha256 :: "nat list \<Rightarrow> nat list" where
  "isha256 m =
     (let p = sha_pad m in concat (map ibe_bytes (iblocks (length p div 64) p (map uint sha_init))))"

lemma uint_of_nat32: "uint (of_nat n :: w32) = take_bit 32 (int n)"
  by (simp add: unsigned_of_nat take_bit_of_nat)

lemma ibytes_to_words: "ibytes_to_words bs = map uint (bytes_to_words bs)"
  by (induction bs rule: ibytes_to_words.induct)
    (simp_all only: ibytes_to_words.simps bytes_to_words.simps list.map uint_of_nat32 refl)

lemma length_bytes_to_words: "length (bytes_to_words bs) = length bs div 4"
  by (induction bs rule: bytes_to_words.induct) simp_all

lemma iround_fold:
  "fold iround (zip (map uint ks) (map uint ws)) (map uint st) = map uint (fold sha_round (zip ks ws) st)"
proof (induction ks arbitrary: ws st)
  case (Cons k ks)
  show ?case
  proof (cases ws)
    case (Cons w ws)
    then show ?thesis using Cons.IH by (simp add: iround)
  qed simp
qed simp

lemma iblock:
  assumes "length blk = 64"
  shows "iblock (ibytes_to_words blk) (map uint st) = map uint (sha_block blk st)"
proof -
  let ?ws = "bytes_to_words blk"
  have "15 < length (rev ?ws)" using assms by (simp add: length_bytes_to_words)
  from ischedule [OF this, of 48] have "ischedule 48 (rev (map uint ?ws)) = map uint (schedule 48 (rev ?ws))"
    by (simp add: rev_map)
  then have "iblock (ibytes_to_words blk) (map uint st) =
      map2 (\<lambda>x y. take_bit 32 (x + y)) (map uint st)
        (map uint (fold sha_round (zip sha_k (rev (schedule 48 (rev ?ws)))) st))"
    by (simp only: iblock_def ibytes_to_words rev_map iround_fold)
  also have "\<dots> = map uint (sha_block blk st)"
    by (simp add: sha_block_def map_zip_map map_zip_map2 uint_add case_prod_unfold)
  finally show ?thesis .
qed

lemma iblocks: "length m = 64 * n \<Longrightarrow> iblocks n m (map uint st) = map uint (sha_blocks n m st)"
  by (induction n arbitrary: m st) (simp_all add: iblock)

lemma ibe_bytes: "ibe_bytes (uint w) = be_bytes 4 (unat (w :: w32))"
proof -
  have "nat (take_bit 8 (drop_bit n (uint w))) = unat w div 2 ^ n mod 256" for n
  proof -
    have "uint w = int (unat w)" by simp
    then have "nat (take_bit 8 (drop_bit n (uint w))) = nat (int (take_bit 8 (drop_bit n (unat w))))"
      by (simp only: take_bit_of_nat [symmetric] drop_bit_of_nat [symmetric])
    then show ?thesis by (simp only: nat_int take_bit_eq_mod drop_bit_eq_div) simp
  qed
  then have "ibe_bytes (uint w) = map (\<lambda>n. unat w div 2 ^ n mod 256) [24, 16, 8, 0]"
    by (simp only: ibe_bytes_def list.map)
  also have "\<dots> = be_bytes 4 (unat w)" by (simp add: be_bytes_def upt_rec)
  finally show ?thesis .
qed

text \<open>The two definitions agree on every message.\<close>

theorem isha256: "isha256 m = sha256 m"
proof -
  have "length (sha_pad m) = 64 * (length (sha_pad m) div 64)" using sha_pad_blocks [of m] by presburger
  from iblocks [OF this, of sha_init] show ?thesis
    by (simp only: isha256_def sha256_def Let_def map_map comp_def ibe_bytes)
qed

text \<open>
  Three digests: of \<^verbatim>\<open>abc\<close>, the test vector of FIPS 180-4, and of the refresh tokens made of 32 bytes 0 and 255.
\<close>

lemma one_block:
  assumes "length (sha_pad m) = 64"
  shows "sha256 m = concat (map ibe_bytes (iblock (ibytes_to_words (sha_pad m)) (map uint sha_init)))"
proof -
  have "iblocks 1 (sha_pad m) st = iblock (ibytes_to_words (sha_pad m)) st" for st
    using assms by (simp del: One_nat_def add: iblocks.simps(2) [of 0, folded One_nat_def])
  then show ?thesis using assms by (simp add: isha256 [symmetric] isha256_def)
qed

lemma sha_init_ints:
  "map uint sha_init =
     [1779033703, 3144134277, 1013904242, 2773480762, 1359893119, 2600822924, 528734635, 1541459225]"
  by (simp add: sha_init_def)

lemma iblock_abc:
  "iblock
     [1633837952, 0, 0, 0, 0, 0, 0, 0, 0, 0, 0, 0, 0, 0, 0, 24]
     [1779033703, 3144134277, 1013904242, 2773480762, 1359893119, 2600822924, 528734635, 1541459225] =
   [3128432319, 2399260650, 1094795486, 1571693091, 2953011619, 2518121116, 3021012833, 4060091821]"
  by code_simp

lemma iblock_zero:
  "iblock
     [1094795585, 1094795585, 1094795585, 1094795585, 1094795585, 1094795585, 1094795585, 1094795585,
      1094795585, 1094795585, 1094795648, 0, 0, 0, 0, 344]
     [1779033703, 3144134277, 1013904242, 2773480762, 1359893119, 2600822924, 528734635, 1541459225] =
   [251687813, 3069826231, 4004672646, 95412649, 2225120191, 2750420176, 2653583436, 3924151578]"
  by code_simp

lemma iblock_ones:
  "iblock
     [1600085855, 1600085855, 1600085855, 1600085855, 1600085855, 1600085855, 1600085855, 1600085855,
      1600085855, 1600085855, 1600075904, 0, 0, 0, 0, 344]
     [1779033703, 3144134277, 1013904242, 2773480762, 1359893119, 2600822924, 528734635, 1541459225] =
   [576683637, 849204314, 2740229981, 1939370777, 814977967, 978085683, 3155386394, 1327204246]"
  by code_simp

lemma zeros:
  "replicate 52 (0::nat) = [0, 0, 0, 0, 0, 0, 0, 0, 0, 0, 0, 0, 0, 0, 0, 0, 0, 0, 0, 0, 0, 0, 0, 0, 0, 0, 0, 0, 0, 0, 0, 0,
     0, 0, 0, 0, 0, 0, 0, 0, 0, 0, 0, 0, 0, 0, 0, 0, 0, 0, 0, 0]"
  "replicate 12 (0::nat) = [0, 0, 0, 0, 0, 0, 0, 0, 0, 0, 0, 0]"
  by code_simp+

lemma pad_abc: "sha_pad (map code ''abc'') = [97, 98, 99, 128] @ replicate 52 0 @ [0, 0, 0, 0, 0, 0, 0, 24]"
  by (simp add: sha_pad_def be_bytes_def upt_rec)

lemma sha256_abc:
  "sha256 (map code ''abc'') =
   [186, 120, 22, 191, 143, 1, 207, 234, 65, 65, 64, 222, 93, 174, 34, 35, 176, 3, 97, 163, 150,
    23, 122, 156, 180, 16, 255, 97, 242, 0, 21, 173]"
proof -
  have "ibytes_to_words (sha_pad (map code ''abc'')) = [1633837952, 0, 0, 0, 0, 0, 0, 0, 0, 0, 0, 0, 0, 0, 0, 24]"
    unfolding pad_abc zeros by simp
  moreover have "length (sha_pad (map code ''abc'')) = 64" unfolding pad_abc by simp
  ultimately show ?thesis by (simp add: one_block sha_init_ints iblock_abc ibe_bytes_def)
qed

definition zero_token :: string where
  "zero_token = ''AAAAAAAAAAAAAAAAAAAAAAAAAAAAAAAAAAAAAAAAAAA''"

lemma b64_zero: "b64_encode (replicate 32 0) = zero_token"
proof -
  have "replicate 32 (0::nat) = [0, 0, 0, 0, 0, 0, 0, 0, 0, 0, 0, 0, 0, 0, 0, 0, 0, 0, 0, 0, 0, 0, 0, 0, 0, 0, 0, 0, 0, 0, 0, 0]" by code_simp
  moreover have "b64_char 0 = CHR ''A''" by code_simp
  ultimately show ?thesis by (simp add: b64_encode_def zero_token_def)
qed

lemma pad_zero: "sha_pad (map code zero_token) =
  [65, 65, 65, 65, 65, 65, 65, 65, 65, 65, 65, 65, 65, 65, 65, 65, 65, 65, 65, 65, 65, 65, 65, 65,
   65, 65, 65, 65, 65, 65, 65, 65, 65, 65, 65, 65, 65, 65, 65, 65, 65, 65, 65] @ 128 # replicate 12 0 @ [0, 0, 0, 0, 0, 0, 1, 88]"
  by (simp add: sha_pad_def be_bytes_def upt_rec zero_token_def)

lemma sha256_zero:
  "sha256 (map code zero_token) =
   [15, 0, 115, 133, 182, 249, 212, 183, 238, 178, 116, 134, 5, 175, 225, 169, 132, 160, 163, 191,
    163, 240, 20, 208, 158, 42, 120, 76, 233, 229, 205, 26]"
proof -
  have "ibytes_to_words (sha_pad (map code zero_token)) = [1094795585, 1094795585, 1094795585, 1094795585, 1094795585, 1094795585, 1094795585, 1094795585,
      1094795585, 1094795585, 1094795648, 0, 0, 0, 0, 344]"
    unfolding pad_zero zeros by simp
  moreover have "length (sha_pad (map code zero_token)) = 64" unfolding pad_zero by simp
  ultimately show ?thesis by (simp add: one_block sha_init_ints iblock_zero ibe_bytes_def)
qed

definition ones_token :: string where
  "ones_token = ''__________________________________________8''"

lemma b64_ones: "b64_encode (replicate 32 255) = ones_token"
proof -
  have "replicate 32 (255::nat) = [255, 255, 255, 255, 255, 255, 255, 255, 255, 255, 255, 255, 255, 255, 255, 255, 255, 255, 255,
      255, 255, 255, 255, 255, 255, 255, 255, 255, 255, 255, 255, 255]" by code_simp
  moreover have "b64_char 63 = CHR ''_''" "b64_char 60 = CHR ''8''" by code_simp+
  ultimately show ?thesis by (simp add: b64_encode_def ones_token_def)
qed

lemma pad_ones: "sha_pad (map code ones_token) =
  [95, 95, 95, 95, 95, 95, 95, 95, 95, 95, 95, 95, 95, 95, 95, 95, 95, 95, 95, 95, 95, 95, 95, 95,
   95, 95, 95, 95, 95, 95, 95, 95, 95, 95, 95, 95, 95, 95, 95, 95, 95, 95, 56] @ 128 # replicate 12 0 @ [0, 0, 0, 0, 0, 0, 1, 88]"
  by (simp add: sha_pad_def be_bytes_def upt_rec ones_token_def)

lemma sha256_ones:
  "sha256 (map code ones_token) =
   [34, 95, 126, 117, 50, 157, 212, 90, 163, 84, 151, 93, 115, 152, 115, 25, 48, 147, 147, 175, 58,
    76, 103, 51, 188, 19, 96, 26, 79, 27, 135, 150]"
proof -
  have "ibytes_to_words (sha_pad (map code ones_token)) = [1600085855, 1600085855, 1600085855, 1600085855, 1600085855, 1600085855, 1600085855, 1600085855,
      1600085855, 1600085855, 1600075904, 0, 0, 0, 0, 344]"
    unfolding pad_ones zeros by simp
  moreover have "length (sha_pad (map code ones_token)) = 64" unfolding pad_ones by simp
  ultimately show ?thesis by (simp add: one_block sha_init_ints iblock_ones ibe_bytes_def)
qed

lemma token_hashes:
  "hash_refresh_token ''abc'' \<noteq> hash_refresh_token zero_token"
  "hash_refresh_token ''abc'' \<noteq> hash_refresh_token ones_token"
  "hash_refresh_token zero_token \<noteq> hash_refresh_token ones_token"
  unfolding hash_refresh_token_inj sha256_abc sha256_zero sha256_ones by simp_all

end
