(* ===== verification/AuthMemory.thy ===== *)
theory AuthMemory
  imports AuthService Sha256Eval
begin

text \<open>
  Two tables in memory with the constraints of \<^verbatim>\<open>migrations/000001_init_auth.up.sql\<close>: the
  repositories that the witnesses run on, and the proof that what the service relies on can be
  provided. Rows are kept in the order of their creation and numbered from 0.
\<close>

record mem =
  m_users :: "user list"
  m_tokens :: "refresh_row list"

definition mem_db :: "mem \<Rightarrow> auth_db" where
  "mem_db m =
     \<lparr>db_users = (\<lambda>i. find (\<lambda>u. us_id u = i) (m_users m)), db_tokens = (\<lambda>i. find (\<lambda>r. rt_id r = i) (m_tokens m))\<rparr>"

definition mem_ok :: "mem \<Rightarrow> bool" where
  "mem_ok m \<longleftrightarrow>
     map us_id (m_users m) = map show_digits [0..<length (m_users m)] \<and> distinct (map us_username (m_users m)) \<and>
     map rt_id (m_tokens m) = map show_digits [0..<length (m_tokens m)] \<and> distinct (map rt_hash (m_tokens m))"

definition lookup_result :: "'a option \<Rightarrow> repo_error + 'a" where
  "lookup_result x = (case x of None \<Rightarrow> Inl ErrNotFound | Some a \<Rightarrow> Inr a)"

definition mem_users :: "mem users_repo" where
  "mem_users =
     \<lparr>ur_create = (\<lambda>n m.
        if cu_username n \<in> us_username ` set (m_users m) then (Inl (RepoFailure ''duplicate username''), m)
        else (let u = \<lparr>us_id = show_digits (length (m_users m)), us_username = cu_username n, us_email = cu_email n,
                       us_password_hash = cu_password_hash n\<rparr>
              in (Inr u, m\<lparr>m_users := m_users m @ [u]\<rparr>))),
      ur_get_by_username = (\<lambda>n m. lookup_result (find (\<lambda>u. us_username u = n) (m_users m))),
      ur_get_by_id = (\<lambda>i m. lookup_result (find (\<lambda>u. us_id u = i) (m_users m)))\<rparr>"

definition mem_tokens :: "mem tokens_repo" where
  "mem_tokens =
     \<lparr>tr_create = (\<lambda>n m.
        if cr_hash n \<in> rt_hash ` set (m_tokens m) then (Inl (RepoFailure ''duplicate token''), m)
        else (let r = \<lparr>rt_id = show_digits (length (m_tokens m)), rt_user = cr_user n, rt_hash = cr_hash n,
                       rt_expires = cr_expires n, rt_revoked = None, rt_replaced_by = None\<rparr>
              in (Inr r, m\<lparr>m_tokens := m_tokens m @ [r]\<rparr>))),
      tr_get_by_hash = (\<lambda>h m. lookup_result (find (\<lambda>r. rt_hash r = h) (m_tokens m))),
      tr_revoke = (\<lambda>i new m.
        if i \<in> rt_id ` set (m_tokens m) then
          (None, m\<lparr>m_tokens := map (\<lambda>r. if rt_id r = i then r\<lparr>rt_revoked := Some 1, rt_replaced_by := new\<rparr> else r) (m_tokens m)\<rparr>)
        else (Some ErrNotFound, m)),
      tr_revoke_all = (\<lambda>u m.
        (None, m\<lparr>m_tokens := map (\<lambda>r. if rt_user r = u then r\<lparr>rt_revoked := Some 1\<rparr> else r) (m_tokens m)\<rparr>)),
      tr_is_active = (\<lambda>r t. rt_revoked r = None \<and> t < rt_expires r)\<rparr>"

lemma show_digits_inj: "show_digits m = show_digits n \<longleftrightarrow> m = n"
  using digits_value_show by (metis option.inject)

lemma distinct_show: "distinct (map show_digits [0..<n])"
  by (simp add: distinct_map inj_on_def show_digits_inj)

lemma find_key:
  assumes "distinct (map f xs)" and "x \<in> set xs"
  shows "find (\<lambda>y. f y = f x) xs = Some x"
  using assms by (induction xs) auto

lemma find_SomeD: "find P xs = Some x \<Longrightarrow> x \<in> set xs \<and> P x"
  by (auto simp: find_Some_iff)

lemma find_map_upd:
  assumes "\<And>x. f (g x) = f x"
  shows "find (\<lambda>x. f x = k) (map g xs) = map_option g (find (\<lambda>x. f x = k) xs)"
  using assms by (induction xs) auto

lemma fresh_id:
  assumes "map f xs = map show_digits [0..<length xs]"
  shows "find (\<lambda>x. f x = show_digits (length xs)) xs = None"
proof -
  have "show_digits (length xs) \<notin> set (map f xs)" unfolding assms by (auto simp: show_digits_inj)
  then show ?thesis unfolding find_None_iff by (metis image_eqI list.set_map)
qed

lemma find_snoc: "find P (xs @ [x]) = (case find P xs of Some y \<Rightarrow> Some y | None \<Rightarrow> if P x then Some x else None)"
  by (induction xs) auto

lemma mem_okD:
  assumes "mem_ok m"
  shows "distinct (map us_id (m_users m))" "distinct (map us_username (m_users m))"
    "distinct (map rt_id (m_tokens m))" "distinct (map rt_hash (m_tokens m))"
  using assms distinct_show by (simp_all only: mem_ok_def)

lemma mem_row:
  assumes "mem_ok m"
  shows "u \<in> set (m_users m) \<longleftrightarrow> db_users (mem_db m) (us_id u) = Some u"
    and "r \<in> set (m_tokens m) \<longleftrightarrow> db_tokens (mem_db m) (rt_id r) = Some r"
  using find_key [OF mem_okD(1) [OF assms]] find_key [OF mem_okD(3) [OF assms]] find_SomeD
  by (force simp: mem_db_def)+

lemma mem_users_ok: "users_ok mem_users mem_ok mem_db"
proof -
  have "user_lookup_ok mem_users mem_ok mem_db"
    unfolding user_lookup_ok_def
  proof (intro allI impI conjI)
    fix m n i u v assume ok: "mem_ok m"
    show "db_users (mem_db m) (us_id u) = Some u" "us_username u = n" if "ur_get_by_username mem_users n m = Inr u"
      using that mem_row(1) [OF ok, of u] by (auto simp: mem_users_def lookup_result_def dest!: find_SomeD split: option.splits)
    show "us_username v \<noteq> n" if "ur_get_by_username mem_users n m = Inl ErrNotFound" "db_users (mem_db m) i = Some v"
      using that by (auto simp: mem_users_def mem_db_def lookup_result_def find_None_iff dest!: find_SomeD split: option.splits)
    show "db_users (mem_db m) i = Some u" "us_id u = i" if "ur_get_by_id mem_users i m = Inr u"
      using that by (auto simp: mem_users_def mem_db_def lookup_result_def dest: find_SomeD split: option.splits)
  qed
  moreover have "user_create_ok mem_users mem_ok mem_db"
    unfolding user_create_ok_def
  proof (intro allI impI)
    fix m n res m' assume a: "mem_ok m \<and> ur_create mem_users n m = (res, m')"
    show "mem_ok m' \<and> (case res of
        Inl err \<Rightarrow> mem_db m' = mem_db m
      | Inr u \<Rightarrow> us_username u = cu_username n \<and> us_email u = cu_email n \<and> us_password_hash u = cu_password_hash n \<and>
          db_users (mem_db m) (us_id u) = None \<and>
          mem_db m' = (mem_db m)\<lparr>db_users := (db_users (mem_db m))(us_id u \<mapsto> u)\<rparr>)"
    proof (cases "cu_username n \<in> us_username ` set (m_users m)")
      case True
      with a show ?thesis by (auto simp: mem_users_def)
    next
      case False
      have none: "find (\<lambda>x. us_id x = show_digits (length (m_users m))) (m_users m) = None"
        by (rule fresh_id) (use a in \<open>simp add: mem_ok_def\<close>)
      from False a none show ?thesis
        by (auto simp: mem_users_def Let_def mem_ok_def mem_db_def find_snoc fun_eq_iff split: option.split)
    qed
  qed
  moreover have "usernames_unique (mem_db m)" if "mem_ok m" for m
    unfolding usernames_unique_def
  proof (intro allI impI, elim conjE)
    fix i j u v assume a: "db_users (mem_db m) i = Some u" "db_users (mem_db m) j = Some v" "us_username u = us_username v"
    then have m: "u \<in> set (m_users m)" "us_id u = i" "v \<in> set (m_users m)" "us_id v = j"
      by (auto simp: mem_db_def dest: find_SomeD)
    with mem_okD(2) [OF that] a(3) have "u = v" by (simp add: distinct_map inj_on_def)
    with m show "i = j" by simp
  qed
  ultimately show ?thesis by (simp add: users_ok_def)
qed

lemma find_fun_upd:
  assumes "\<And>x. f (g x) = f x" and "find (\<lambda>x. f x = i) xs = Some r"
  shows "(\<lambda>k. find (\<lambda>x. f x = k) (map (\<lambda>x. if f x = i then g x else x) xs)) = (\<lambda>k. find (\<lambda>x. f x = k) xs)(i \<mapsto> g r)"
proof
  fix k
  have "find (\<lambda>x. f x = k) (map (\<lambda>x. if f x = i then g x else x) xs) =
      map_option (\<lambda>x. if f x = i then g x else x) (find (\<lambda>x. f x = k) xs)"
    by (rule find_map_upd) (simp add: assms(1))
  also have "\<dots> = ((\<lambda>k. find (\<lambda>x. f x = k) xs)(i \<mapsto> g r)) k"
    using assms(2) by (cases "find (\<lambda>x. f x = k) xs") (auto dest: find_SomeD)
  finally show "find (\<lambda>x. f x = k) (map (\<lambda>x. if f x = i then g x else x) xs) = ((\<lambda>k. find (\<lambda>x. f x = k) xs)(i \<mapsto> g r)) k" .
qed

lemma mem_ok_map:
  assumes "mem_ok m" and "\<And>r. rt_id (g r) = rt_id r" and "\<And>r. rt_hash (g r) = rt_hash r"
  shows "mem_ok (m\<lparr>m_tokens := map g (m_tokens m)\<rparr>)"
proof -
  have "map rt_id (map g (m_tokens m)) = map rt_id (m_tokens m)" "map rt_hash (map g (m_tokens m)) = map rt_hash (m_tokens m)"
    using assms(2,3) by simp_all
  moreover have "m_users (m\<lparr>m_tokens := map g (m_tokens m)\<rparr>) = m_users m"
    "m_tokens (m\<lparr>m_tokens := map g (m_tokens m)\<rparr>) = map g (m_tokens m)" by simp_all
  ultimately show ?thesis using assms(1) by (simp only: mem_ok_def length_map)
qed

lemma mem_revoke_ok: "token_revoke_ok mem_tokens mem_ok mem_db"
  unfolding token_revoke_ok_def
proof (intro allI impI)
  fix m i new res m'
  assume a: "mem_ok m \<and> tr_revoke mem_tokens i new m = (res, m')"
  let ?g = "\<lambda>r :: refresh_row. r\<lparr>rt_revoked := Some 1, rt_replaced_by := new\<rparr>"
  show "mem_ok m' \<and> (case res of
      Some err \<Rightarrow> mem_db m' = mem_db m \<and> (\<forall>r. err = ErrNotFound \<longrightarrow> db_tokens (mem_db m) i = Some r \<longrightarrow> rt_revoked r \<noteq> None)
    | None \<Rightarrow> \<exists>r t. db_tokens (mem_db m) i = Some r \<and>
        mem_db m' = (mem_db m)\<lparr>db_tokens := (db_tokens (mem_db m))(i \<mapsto> r\<lparr>rt_revoked := Some t, rt_replaced_by := new\<rparr>)\<rparr>)"
  proof (cases "i \<in> rt_id ` set (m_tokens m)")
    case False
    then have "find (\<lambda>r. rt_id r = i) (m_tokens m) = None" by (auto simp: find_None_iff)
    with False a show ?thesis by (auto simp: mem_tokens_def mem_db_def)
  next
    case True
    then obtain r where r: "find (\<lambda>r. rt_id r = i) (m_tokens m) = Some r"
      by (cases "find (\<lambda>r. rt_id r = i) (m_tokens m)") (auto simp: find_None_iff)
    have m': "res = None" "m' = m\<lparr>m_tokens := map (\<lambda>r. if rt_id r = i then ?g r else r) (m_tokens m)\<rparr>"
      using True a by (simp_all add: mem_tokens_def)
    have "mem_ok m'" unfolding m' by (rule mem_ok_map) (use a in simp_all)
    moreover have "mem_db m' = (mem_db m)\<lparr>db_tokens := (db_tokens (mem_db m))(i \<mapsto> ?g r)\<rparr>"
      using find_fun_upd [where f = rt_id and g = ?g and i = i and xs = "m_tokens m" and r = r, OF _ r]
      by (simp add: mem_db_def m')
    ultimately show ?thesis using r m' by (auto simp: mem_db_def)
  qed
qed

lemma mem_revoke_all_ok: "token_revoke_all_ok mem_tokens mem_ok mem_db"
  unfolding token_revoke_all_ok_def
proof (intro allI impI)
  fix m i res m'
  assume a: "mem_ok m \<and> tr_revoke_all mem_tokens i m = (res, m')"
  let ?g = "\<lambda>r :: refresh_row. if rt_user r = i then r\<lparr>rt_revoked := Some 1\<rparr> else r"
  have m': "res = None" "m' = m\<lparr>m_tokens := map ?g (m_tokens m)\<rparr>" using a by (simp_all add: mem_tokens_def)
  have "mem_ok m'" unfolding m' by (rule mem_ok_map) (use a in simp_all)
  moreover have "db_tokens (mem_db m') j = map_option ?g (db_tokens (mem_db m) j)" for j
    unfolding m' mem_db_def by (simp add: find_map_upd [where f = rt_id and g = ?g])
  then have "revoked_all i (mem_db m) (mem_db m')" by (auto simp: revoked_all_def mem_db_def m')
  ultimately show "mem_ok m' \<and> (case res of Some err \<Rightarrow> mem_db m' = mem_db m | None \<Rightarrow> revoked_all i (mem_db m) (mem_db m'))"
    using m' by simp
qed

lemma mem_create_ok: "token_create_ok mem_tokens mem_ok mem_db"
  unfolding token_create_ok_def
proof (intro allI impI)
  fix m n res m'
  assume a: "mem_ok m \<and> tr_create mem_tokens n m = (res, m')"
  show "mem_ok m' \<and> (case res of
      Inl err \<Rightarrow> mem_db m' = mem_db m
    | Inr r \<Rightarrow> rt_user r = cr_user n \<and> rt_hash r = cr_hash n \<and> rt_expires r = cr_expires n \<and>
        rt_revoked r = None \<and> rt_replaced_by r = None \<and> db_tokens (mem_db m) (rt_id r) = None \<and>
        mem_db m' = (mem_db m)\<lparr>db_tokens := (db_tokens (mem_db m))(rt_id r \<mapsto> r)\<rparr>)"
  proof (cases "cr_hash n \<in> rt_hash ` set (m_tokens m)")
    case True
    with a show ?thesis by (auto simp: mem_tokens_def)
  next
    case False
    have none: "find (\<lambda>x. rt_id x = show_digits (length (m_tokens m))) (m_tokens m) = None"
      by (rule fresh_id) (use a in \<open>simp add: mem_ok_def\<close>)
    from False a none show ?thesis
      by (auto simp: mem_tokens_def Let_def mem_ok_def mem_db_def find_snoc fun_eq_iff split: option.split)
  qed
qed

lemma mem_lookup_ok: "token_lookup_ok mem_tokens mem_ok mem_db"
  unfolding token_lookup_ok_def
proof (intro allI impI conjI)
  fix m h i r r' assume ok: "mem_ok m"
  show "db_tokens (mem_db m) (rt_id r) = Some r" "rt_hash r = h" if "tr_get_by_hash mem_tokens h m = Inr r"
    using that mem_row(2) [OF ok, of r] by (auto simp: mem_tokens_def lookup_result_def dest!: find_SomeD split: option.splits)
  show "rt_hash r' \<noteq> h" if "tr_get_by_hash mem_tokens h m = Inl ErrNotFound" "db_tokens (mem_db m) i = Some r'"
    using that by (auto simp: mem_tokens_def mem_db_def lookup_result_def find_None_iff dest!: find_SomeD split: option.splits)
qed

lemma mem_hashes_unique: "mem_ok m \<Longrightarrow> hashes_unique (mem_db m)"
  unfolding hashes_unique_def
proof (intro allI impI, elim conjE)
  fix i j r r'
  assume ok: "mem_ok m" and a: "db_tokens (mem_db m) i = Some r" "db_tokens (mem_db m) j = Some r'" "rt_hash r = rt_hash r'"
  then have m: "r \<in> set (m_tokens m)" "rt_id r = i" "r' \<in> set (m_tokens m)" "rt_id r' = j"
    by (auto simp: mem_db_def dest: find_SomeD)
  with mem_okD(4) [OF ok] a(3) have "r = r'" by (simp add: distinct_map inj_on_def)
  with m show "i = j" by simp
qed

lemma mem_tokens_ok: "tokens_ok mem_tokens mem_ok mem_db"
proof -
  have "active_ok mem_tokens" by (simp add: active_ok_def mem_tokens_def)
  with mem_lookup_ok mem_create_ok mem_revoke_ok mem_revoke_all_ok mem_hashes_unique show ?thesis
    by (simp add: tokens_ok_def)
qed

subsection \<open>A service on these tables\<close>

definition plain_bcrypt :: bcrypt where
  "plain_bcrypt =
     \<lparr>bc_generate = (\<lambda>plain cost salt. if 72 < length plain then Inl ''password too long'' else Inr (CHR ''#'' # plain)),
      bc_compare = (\<lambda>hash plain. if hash = CHR ''#'' # plain then None else Some ''mismatch'')\<rparr>"

definition demo_service :: "mem auth_service" where
  "demo_service =
     \<lparr>as_users = mem_users, as_tokens = mem_tokens,
      as_cfg = \<lparr>ac_secret = ''key'', ac_access_ttl = 60 * 10 ^ 9, ac_refresh_ttl = 3600 * 10 ^ 9\<rparr>,
      as_bcrypt = plain_bcrypt, as_jwt = single_lib ''0'' ''ann''\<rparr>"

definition demo_env :: "nat list option \<Rightarrow> auth_env" where
  "demo_env rand = \<lparr>ae_salt = [], ae_now = 0, ae_now_access = 0, ae_now_issue = 0, ae_rand = rand\<rparr>"

definition demo_user :: user where
  "demo_user = \<lparr>us_id = ''0'', us_username = ''ann'', us_email = ''a@b'', us_password_hash = ''#pw''\<rparr>"

definition demo_row :: "int option \<Rightarrow> refresh_row" where
  "demo_row revoked = \<lparr>rt_id = ''0'', rt_user = ''0'', rt_hash = hash_refresh_token ''abc'', rt_expires = 5,
     rt_revoked = revoked, rt_replaced_by = None\<rparr>"

definition demo_mem :: "int option \<Rightarrow> mem" where
  "demo_mem revoked = \<lparr>m_users = [demo_user], m_tokens = [demo_row revoked]\<rparr>"

lemma plain_bcrypt_ok: "bcrypt_ok plain_bcrypt"
  by (simp add: bcrypt_ok_def plain_bcrypt_def split: if_split)

lemma demo_repos_ok: "repos_ok demo_service mem_ok mem_db"
  by (simp add: repos_ok_def demo_service_def mem_users_ok mem_tokens_ok)

lemma show_digits_0: "show_digits 0 = ''0''"
  by code_simp

lemma show_digits_1: "show_digits (Suc 0) = ''1''"
  by code_simp

lemma demo_mem_ok: "mem_ok (demo_mem revoked)"
  by (simp add: mem_ok_def demo_mem_def demo_user_def demo_row_def show_digits_0)

lemmas demo_defs =
  demo_service_def demo_env_def demo_mem_def demo_user_def demo_row_def mem_users_def mem_tokens_def plain_bcrypt_def

definition issued_row :: "string \<Rightarrow> nat \<Rightarrow> refresh_row" where
  "issued_row token n = \<lparr>rt_id = show_digits n, rt_user = ''0'', rt_hash = hash_refresh_token token,
     rt_expires = 3600 * 10 ^ 9, rt_revoked = None, rt_replaced_by = None\<rparr>"

definition demo_pair :: "string \<Rightarrow> token_pair" where
  "demo_pair token = \<lparr>tp_access = ''jwt'', tp_refresh = token, tp_refresh_expires = 3600 * 10 ^ 9\<rparr>"

text \<open>Issuing on these tables, with the random bytes 0 or 255.\<close>

lemma demo_generate:
  "generate_refresh_token (Some (replicate 32 0)) = Inr (zero_token, hash_refresh_token zero_token)"
  "generate_refresh_token (Some (replicate 32 255)) = Inr (ones_token, hash_refresh_token ones_token)"
  by (simp_all add: generate_refresh_token_def buf_size_def Let_def b64_zero b64_ones)

lemma demo_issue:
  assumes "generate_refresh_token rand = Inr (token, hash_refresh_token token)"
    and "hash_refresh_token token \<notin> rt_hash ` set (m_tokens m)"
  shows "issue_token_pair_with_row demo_service (demo_env rand) demo_user m =
    (Inr (demo_pair token, issued_row token (length (m_tokens m))),
     m\<lparr>m_tokens := m_tokens m @ [issued_row token (length (m_tokens m))]\<rparr>)"
  using assms single_generated [of "''0''" "''ann''"]
  by (simp add: issue_token_pair_with_row_def demo_defs default_role_def Let_def issued_row_def demo_pair_def)

lemma demo_issue_fails:
  "issue_token_pair_with_row demo_service (demo_env None) demo_user m =
     (Inl (RefreshTokenFailed ''fail at rand.Read(buf)''), m)"
  using single_generated [of "''0''" "''ann''"]
  by (simp add: issue_token_pair_with_row_def demo_defs default_role_def generate_refresh_token_def)

lemma demo_check:
  "refresh_check demo_service (demo_env rand) ''abc'' (demo_mem None) = (Inr (demo_row None), demo_mem None)"
  by (simp add: refresh_check_def demo_defs lookup_result_def)

lemma demo_user_by_id: "m_users m = [demo_user] \<Longrightarrow> ur_get_by_id (as_users demo_service) ''0'' m = Inr demo_user"
  by (simp add: demo_defs lookup_result_def)

lemma demo_rotate:
  assumes "generate_refresh_token rand = Inr (token, hash_refresh_token token)"
    and "hash_refresh_token token \<notin> rt_hash ` set (m_tokens m)"
    and "m_users m = [demo_user]" and "rt_id old \<in> rt_id ` set (m_tokens m)" and "rt_user old = ''0''"
  shows "\<exists>m'. refresh_rotate demo_service (demo_env rand) old m = (Inr (demo_pair token), m') \<and>
    m_users m' = [demo_user] \<and> map rt_hash (m_tokens m') = map rt_hash (m_tokens m) @ [hash_refresh_token token] \<and>
    map rt_id (m_tokens m') = map rt_id (m_tokens m) @ [show_digits (length (m_tokens m))]"
proof -
  have tr: "tr_revoke (as_tokens demo_service) = tr_revoke mem_tokens" by (simp add: demo_service_def)
  show ?thesis
    using assms demo_user_by_id [OF assms(3)]
    by (simp add: refresh_rotate_def demo_issue [OF assms(1,2)] tr mem_tokens_def issued_row_def)
qed

lemma demo_rotated:
  "\<exists>m'. refresh demo_service (demo_env (Some (replicate 32 0))) ''abc'' (demo_mem None) = (Inr (demo_pair zero_token), m') \<and>
     m_users m' = [demo_user] \<and>
     map rt_hash (m_tokens m') = [hash_refresh_token ''abc'', hash_refresh_token zero_token] \<and>
     map rt_id (m_tokens m') = [''0'', ''1'']"
proof -
  have "hash_refresh_token zero_token \<notin> rt_hash ` set (m_tokens (demo_mem None))"
    "m_users (demo_mem None) = [demo_user]" "rt_id (demo_row None) \<in> rt_id ` set (m_tokens (demo_mem None))"
    "rt_user (demo_row None) = ''0''"
    using token_hashes by (simp_all add: demo_mem_def demo_row_def)
  from demo_rotate [OF demo_generate(1) this] show ?thesis
    unfolding refresh_def demo_check by (simp add: demo_mem_def demo_row_def show_digits_1)
qed

lemma demo_register_steps:
  "hash_password (as_bcrypt demo_service) x ''pw'' = Inr ''#pw''"
  "ur_create (as_users demo_service) \<lparr>cu_username = ''ann'', cu_email = ''a@b'', cu_password_hash = ''#pw''\<rparr>
     \<lparr>m_users = [], m_tokens = []\<rparr> = (Inr demo_user, \<lparr>m_users = [demo_user], m_tokens = []\<rparr>)"
  by (simp_all add: demo_defs hash_password_def show_digits_0 Let_def)

end
