(* ===== verification/AuthProps.thy ===== *)
theory AuthProps
  imports AuthMemory
begin

text \<open>
  What the authentication service guarantees over any repositories that keep \<open>repos_ok\<close>:
  rotation and reuse detection of refresh tokens, login, logout, and the three places where the
  guarantees stop short (two concurrent refreshes, a registration that fails half-way, a token
  presented after logout). The witnesses run on the repositories of \<open>AuthMemory\<close>.
\<close>

subsection \<open>Lemmas\<close>

text \<open>A token all of whose rows are revoked is dead: no refresh succeeds, and a logout has no effect.\<close>

definition dead :: "auth_db \<Rightarrow> string \<Rightarrow> bool" where
  "dead d t \<longleftrightarrow> (\<forall>r. stored d t r \<longrightarrow> rt_revoked r \<noteq> None)"

lemma stored_dead:
  assumes "tokens_ok T ok db" and "ok s" and "stored (db s) t r" and "rt_revoked r \<noteq> None"
  shows "dead (db s) t"
  unfolding dead_def
proof (intro allI impI)
  fix r' assume "stored (db s) t r'"
  from stored_unique [OF assms(1,2) this assms(3)] assms(4) show "rt_revoked r' \<noteq> None" by simp
qed

lemma dead_refresh:
  assumes T: "tokens_ok (as_tokens A) ok db" and s: "ok s" and d: "dead (db s) t"
  obtains (reused) "fst (refresh A e t s) = Inl ErrTokenReuse"
  | (unknown) "fst (refresh A e t s) = Inl ErrInvalidCredentials" "\<And>r. \<not> stored (db s) t r"
  | (failed) x where "fst (refresh A e t s) = Inl (Repository (RepoFailure x))"
proof -
  obtain res s' where check: "refresh_check A e t s = (res, s')" by fastforce
  from T s check show thesis
  proof (cases rule: refresh_check_cases)
    case (failed x)
    with check that(3) show ?thesis by (simp add: refresh_def)
  next
    case unknown
    with check that(2) show ?thesis by (simp add: refresh_def)
  next
    case (reused r)
    with check that(1) show ?thesis by (simp add: refresh_def)
  qed (use d in \<open>auto simp: dead_def\<close>)
qed

lemma dead_logout:
  assumes T: "tokens_ok (as_tokens A) ok db" and s: "ok s" and d: "dead (db s) t"
  shows "snd (logout A t s) = s"
  using T s
proof (cases rule: lookup_cases [where t = t])
  case (found r)
  with d show ?thesis by (simp add: logout_def dead_def)
qed (simp_all add: logout_def)

lemma logout_cases:
  assumes T: "tokens_ok (as_tokens A) ok db" and s: "ok s" and out: "logout A t s = (None, s')"
  obtains (nothing) "s' = s" "dead (db s) t"
  | (revoked) r at where "ok s'" "stored (db s) t r" "rt_revoked r = None"
      "db s' = (db s)\<lparr>db_tokens := (db_tokens (db s))(rt_id r \<mapsto> r\<lparr>rt_revoked := Some at, rt_replaced_by := None\<rparr>)\<rparr>"
  using T s
proof (cases rule: lookup_cases [where t = t])
  case (failed x)
  with out show thesis by (simp add: logout_def)
next
  case unknown
  with out that(1) show thesis by (simp add: logout_def dead_def)
next
  case (found r)
  show thesis
  proof (cases "rt_revoked r = None")
    case False
    with found out that(1) stored_dead [OF T s found(2)] show ?thesis by (simp add: logout_def)
  next
    case True
    have row: "db_tokens (db s) (rt_id r) = Some r" using found(2) by (simp add: stored_def)
    obtain res s1 where rev: "tr_revoke (as_tokens A) (rt_id r) None s = (res, s1)" by fastforce
    from T s rev show ?thesis
    proof (cases rule: revoke_cases)
      case (failed err)
      have "err \<noteq> ErrNotFound" using failed(4) row True by blast
      with failed(1) found(1) True out rev show ?thesis by (simp add: logout_def)
    next
      case (revoked r' at)
      with row have "r' = r" by simp
      with revoked found True out rev that(2) [of r at] show ?thesis by (simp add: logout_def)
    qed
  qed
qed

text \<open>What a rotation leaves behind, whether or not the revocation of the old row went through.\<close>

lemma refresh_rotate_leaves:
  assumes R: "repos_ok A ok db" and s: "ok s" and rot: "refresh_rotate A e old s = (res, s')"
    and res: "(\<exists>p. res = Inr p) \<or> (\<exists>err. res = Inl (RevokePreviousFailed err))"
    and old: "db_tokens (db s) (rt_id old) = Some old'"
  obtains new where "ok s'" "rt_user new = rt_user old" "rt_revoked new = None" "db_tokens (db s) (rt_id new) = None"
    "db_tokens (db s') (rt_id new) = Some new" "\<exists>x. db_tokens (db s') (rt_id old) = Some x"
    "\<And>i. i \<noteq> rt_id old \<Longrightarrow> i \<noteq> rt_id new \<Longrightarrow> db_tokens (db s') i = db_tokens (db s) i"
    "\<And>p. res = Inr p \<Longrightarrow> rt_hash new = hash_refresh_token (tp_refresh p)"
proof -
  have U: "users_ok (as_users A) ok db" and T: "tokens_ok (as_tokens A) ok db" using R by (simp_all add: repos_ok_def)
  obtain u where u: "ur_get_by_id (as_users A) (rt_user old) s = Inr u"
    using rot res by (auto simp: refresh_rotate_def split: sum.splits)
  then have uid: "us_id u = rt_user old" using users_okD(3) [OF U s] by blast
  obtain ires s1 where issue: "issue_token_pair_with_row A e u s = (ires, s1)" by fastforce
  from T s issue show thesis
  proof (cases rule: issue_cases)
    case (failed err)
    have "err \<noteq> RevokePreviousFailed x" for x using failed(1) issue by (rule issue_not_revoke)
    with failed rot u issue res show thesis by (auto simp: refresh_rotate_def)
  next
    case (issued p new)
    have ne: "rt_id new \<noteq> rt_id old" using issued(9) old by auto
    obtain rres s2 where rev: "tr_revoke (as_tokens A) (rt_id old) (Some (rt_id new)) s1 = (rres, s2)" by fastforce
    from T issued(2) rev show thesis
    proof (cases rule: revoke_cases)
      case (failed err)
      then have "res = Inl (RevokePreviousFailed err)" "s' = s2" using rot u issue issued(1) rev by (simp_all add: refresh_rotate_def)
      with that [of new] failed issued uid ne old show thesis by simp
    next
      case (revoked r at)
      then have "res = Inr p" "s' = s2" using rot u issue issued(1) rev by (simp_all add: refresh_rotate_def)
      with that [of new] revoked issued uid ne old show thesis by simp
    qed
  qed
qed

text \<open>Login, by the outcome of the look-up and of the password check.\<close>

lemma login_cases:
  assumes R: "repos_ok A ok db" and s: "ok s" and login: "login A e n pw s = (res, s')"
  obtains (failed) x where "ur_get_by_username (as_users A) n s = Inl (RepoFailure x)" "res = Inl (Repository (RepoFailure x))" "s' = s"
  | (unknown) "res = Inl ErrInvalidCredentials" "s' = s" "\<And>i u. db_users (db s) i = Some u \<Longrightarrow> us_username u \<noteq> n"
  | (wrong) u where "res = Inl ErrInvalidCredentials" "s' = s" "db_users (db s) (us_id u) = Some u" "us_username u = n"
      "\<not> verify_password (as_bcrypt A) (us_password_hash u) pw"
  | (right) u where "db_users (db s) (us_id u) = Some u" "us_username u = n"
      "verify_password (as_bcrypt A) (us_password_hash u) pw"
      "(res, s') = (case issue_token_pair A e u s of (Inl err, s) \<Rightarrow> (Inl err, s) | (Inr pair, s) \<Rightarrow> (Inr (u, pair), s))"
proof -
  have U: "users_ok (as_users A) ok db" using R by (simp add: repos_ok_def)
  show thesis
  proof (cases "ur_get_by_username (as_users A) n s")
    case (Inl err)
    show ?thesis
    proof (cases err)
      case ErrNotFound
      note none = Inl [unfolded ErrNotFound]
      have "us_username v \<noteq> n" if "db_users (db s) i = Some v" for i v by (rule users_okD(2) [OF U s none that])
      with none login that(2) show ?thesis by (simp add: login_def)
    next
      case (RepoFailure x)
      note fail = Inl [unfolded RepoFailure]
      with login have "res = Inl (Repository (RepoFailure x))" "s' = s" by (simp_all add: login_def)
      with fail show ?thesis by (rule that(1))
    qed
  next
    case (Inr u)
    note u = users_okD(1) [OF U s Inr]
    show ?thesis
    proof (cases "verify_password (as_bcrypt A) (us_password_hash u) pw")
      case True
      with Inr login u that(4) [of u] show ?thesis by (simp add: login_def)
    next
      case False
      with Inr login u that(3) [of u] show ?thesis by (simp add: login_def)
    qed
  qed
qed

lemma users_issue:
  assumes "repos_ok A ok db" and "ok s" and "issue_token_pair A e u s = (res, s')"
  shows "ok s'" and "db_users (db s') = db_users (db s)" and "res \<noteq> Inl ErrInvalidCredentials"
proof -
  have T: "tokens_ok (as_tokens A) ok db" using assms(1) by (simp add: repos_ok_def)
  obtain ires s1 where issue: "issue_token_pair_with_row A e u s = (ires, s1)" by fastforce
  from T assms(2) issue have "ok s1 \<and> db_users (db s1) = db_users (db s) \<and> ires \<noteq> Inl ErrInvalidCredentials"
    by (cases rule: issue_cases) auto
  then show "ok s'" "db_users (db s') = db_users (db s)" "res \<noteq> Inl ErrInvalidCredentials"
    using assms(3) issue by (auto simp: issue_token_pair_def split: sum.splits prod.splits)
qed

text \<open>Creating a user.\<close>

lemma create_user_stored:
  assumes R: "repos_ok A ok db" and s: "ok s" and create: "ur_create (as_users A) n s = (Inr u, s1)"
  shows "ok s1" and "db_users (db s1) = (db_users (db s))(us_id u \<mapsto> u)" and "db_users (db s) (us_id u) = None"
    and "us_username u = cu_username n" and "us_password_hash u = cu_password_hash n"
proof -
  have U: "users_ok (as_users A) ok db" using R by (simp add: repos_ok_def)
  from U s create show "ok s1" "db_users (db s1) = (db_users (db s))(us_id u \<mapsto> u)" "db_users (db s) (us_id u) = None"
    "us_username u = cu_username n" "us_password_hash u = cu_password_hash n"
    by (cases rule: create_user_cases; simp)+
qed

text \<open>A name that is taken cannot be registered: the table keeps names unique.\<close>

lemma create_taken:
  assumes R: "repos_ok A ok db" and s: "ok s" and v: "db_users (db s) i = Some v" "us_username v = cu_username n"
    and create: "ur_create (as_users A) n s = (res, s1)"
  shows "\<exists>err. res = Inl err"
proof (cases res)
  case (Inr u)
  have U: "users_ok (as_users A) ok db" using R by (simp add: repos_ok_def)
  note new = create_user_stored [OF R s create [unfolded Inr]]
  have ne: "i \<noteq> us_id u" using v(1) new(3) by auto
  have "db_users (db s1) i = Some v" "db_users (db s1) (us_id u) = Some u" "us_username v = us_username u"
    using new(2,4) v ne by simp_all
  from users_okD(4) [OF U new(1) this] ne show ?thesis by simp
qed simp

lemma refresh_spent_again:
  assumes "repos_ok A ok db" and "ok s" and "refresh A e t s = (Inr pair, s')"
  shows "fst (refresh A e' t s') = Inl ErrTokenReuse \<or> (\<exists>x. fst (refresh A e' t s') = Inl (Repository (RepoFailure x)))"
proof -
  have T: "tokens_ok (as_tokens A) ok db" using assms(1) by (simp add: repos_ok_def)
  obtain old' where s': "ok s'" and old': "stored (db s') t old'" "rt_revoked old' \<noteq> None"
    using refresh_spent [OF assms] by metis
  from T s' stored_dead [OF T s' old'] show ?thesis
    by (cases rule: dead_refresh [where e = e']) (use old' in auto)
qed

lemma login_refused:
  assumes "repos_ok A ok db" and "ok s" and "\<forall>x. ur_get_by_username (as_users A) n s \<noteq> Inl (RepoFailure x)"
  shows "(fst (login A e n pw s) = Inl ErrInvalidCredentials \<longleftrightarrow>
      \<not> (\<exists>i u. db_users (db s) i = Some u \<and> us_username u = n \<and> verify_password (as_bcrypt A) (us_password_hash u) pw)) \<and>
    (fst (login A e n pw s) = Inl ErrInvalidCredentials \<longrightarrow> login A e n pw s = (Inl ErrInvalidCredentials, s))"
proof -
  have U: "users_ok (as_users A) ok db" using assms(1) by (simp add: repos_ok_def)
  obtain res s' where login: "login A e n pw s = (res, s')" by fastforce
  from assms(1,2) login show ?thesis
  proof (cases rule: login_cases)
    case (failed x)
    with assms(3) show ?thesis by blast
  next
    case unknown
    with login show ?thesis by auto
  next
    case (wrong u)
    have "v = u" if "db_users (db s) i = Some v" "us_username v = n" for i v
    proof -
      have "us_username v = us_username u" using that(2) wrong(4) by simp
      from users_okD(4) [OF U assms(2) that(1) wrong(3) this] that(1) wrong(3) show "v = u" by simp
    qed
    with wrong(5) have "\<not> (\<exists>i u. db_users (db s) i = Some u \<and> us_username u = n \<and> verify_password (as_bcrypt A) (us_password_hash u) pw)"
      by blast
    with wrong(1,2) login show ?thesis by simp
  next
    case (right u)
    obtain ires s1 where issue: "issue_token_pair A e u s = (ires, s1)" by fastforce
    with users_issue(3) [OF assms(1,2) issue] right(4) login have "fst (login A e n pw s) \<noteq> Inl ErrInvalidCredentials"
      by (cases ires) auto
    with right(1-3) show ?thesis by blast
  qed
qed

lemma login_no_reuse:
  assumes "repos_ok A ok db" and "ok s" and "login A e n pw s = (res, s')"
  shows "res \<noteq> Inl ErrTokenReuse"
  using assms
proof (cases rule: login_cases)
  case (right u)
  obtain ires s1 where issue: "issue_token_pair A e u s = (ires, s1)" by fastforce
  have "ires \<noteq> Inl ErrTokenReuse"
    using issue by (auto simp: issue_token_pair_def issue_token_pair_with_row_def Let_def split: sum.splits prod.splits)
  with right(4) issue show ?thesis by (cases ires) auto
qed simp_all

subsection \<open>Properties\<close>

text \<open>
  C13. Rotation. A successful \<^verbatim>\<open>Refresh\<close> was given a stored token that is neither revoked nor expired;
  afterwards exactly that row is revoked and points to one new row of the same user, which is
  active, holds the digest of the token handed out and its expiry; no other row has changed.
\<close>

theorem refresh_rotates:
  assumes "repos_ok A ok db" and "ok s" and "refresh A e t s = (Inr pair, s')"
  shows "ok s' \<and> (\<exists>old new. stored (db s) t old \<and> rt_revoked old = None \<and> ae_now e < rt_expires old \<and>
    rotated (db s) (db s') old new \<and> stored (db s') (tp_refresh pair) new \<and> rt_expires new = tp_refresh_expires pair)"
  by (rule refresh_success [OF assms])

theorem refresh_rotates_witness:
  "\<exists>m' old. refresh demo_service (demo_env (Some (replicate 32 0))) ''abc'' (demo_mem None) = (Inr (demo_pair zero_token), m') \<and>
     stored (mem_db (demo_mem None)) ''abc'' old"
  using demo_rotated refresh_rotates [OF demo_repos_ok demo_mem_ok] by metis

text \<open>
  C14. Reuse detection. A token that was rotated or logged out before is refused with
  \<^verbatim>\<open>ErrTokenReuse\<close>, and every refresh token of its user is revoked with it, whoever holds it; the tokens of other users
  are untouched. But the error of \<^verbatim>\<open>RevokeAllForUser\<close> is dropped: if that call fails the answer is
  the same and nothing has been revoked.
\<close>

theorem refresh_reuse_revokes:
  assumes "repos_ok A ok db" and "ok s" and "stored (db s) t r" and "rt_revoked r \<noteq> None"
    and "tr_get_by_hash (as_tokens A) (hash_refresh_token t) s = Inr r'"
  shows "\<exists>s'. refresh A e t s = (Inl ErrTokenReuse, s') \<and> ok s' \<and>
    (if fst (tr_revoke_all (as_tokens A) (rt_user r) s) = None
     then (\<forall>i x. db_tokens (db s') i = Some x \<and> rt_user x = rt_user r \<longrightarrow> rt_revoked x \<noteq> None) \<and>
          (\<forall>i x. db_tokens (db s) i = Some x \<and> rt_user x \<noteq> rt_user r \<longrightarrow> db_tokens (db s') i = Some x)
     else db s' = db s)"
proof -
  have T: "tokens_ok (as_tokens A) ok db" using assms(1) by (simp add: repos_ok_def)
  have r': "r' = r"
    using tokens_okD(1) [OF T assms(2,5)] stored_unique [OF T assms(2) _ assms(3), of r'] by (simp add: stored_def)
  obtain res s' where rev: "tr_revoke_all (as_tokens A) (rt_user r) s = (res, s')" by fastforce
  have eq: "refresh A e t s = (Inl ErrTokenReuse, s')"
    using assms(4,5) rev r' by (simp add: refresh_def refresh_check_def)
  from T assms(2) rev show ?thesis
  proof (cases rule: revoke_all_cases)
    case (failed err)
    with eq rev show ?thesis by simp
  next
    case revoked
    have "rt_revoked x \<noteq> None" if "db_tokens (db s') i = Some x" "rt_user x = rt_user r" for i x
    proof (cases "db_tokens (db s) i")
      case None
      with revoked(3) that(1) show ?thesis by (simp add: revoked_all_def)
    next
      case (Some y)
      with revoked(3) that show ?thesis unfolding revoked_all_def by (fastforce split: if_splits)
    qed
    moreover have "db_tokens (db s') i = Some x" if "db_tokens (db s) i = Some x" "rt_user x \<noteq> rt_user r" for i x
      using revoked(3) that unfolding revoked_all_def by metis
    ultimately show ?thesis using eq rev revoked(1,2) by auto
  qed
qed

theorem refresh_reuse_revokes_witness:
  "\<exists>m'. refresh demo_service (demo_env None) ''abc'' (demo_mem (Some 1)) = (Inl ErrTokenReuse, m')"
proof -
  have "stored (mem_db (demo_mem (Some 1))) ''abc'' (demo_row (Some 1))"
    by (simp add: stored_def mem_db_def demo_mem_def demo_row_def)
  moreover have "rt_revoked (demo_row (Some 1)) \<noteq> None" by (simp add: demo_row_def)
  moreover have "tr_get_by_hash (as_tokens demo_service) (hash_refresh_token ''abc'') (demo_mem (Some 1)) = Inr (demo_row (Some 1))"
    by (simp add: demo_defs lookup_result_def)
  ultimately show ?thesis using refresh_reuse_revokes [OF demo_repos_ok demo_mem_ok] by blast
qed

text \<open>
  A refresh token works once. After a successful \<^verbatim>\<open>Refresh\<close> the same token never succeeds
  again: unless the database fails, it is detected as reused.
\<close>

theorem refresh_single_use:
  assumes "repos_ok A ok db" and "ok s" and "refresh A e t s = (Inr pair, s')"
  shows "fst (refresh A e' t s') = Inl ErrTokenReuse \<or> (\<exists>x. fst (refresh A e' t s') = Inl (Repository (RepoFailure x)))"
  by (rule refresh_spent_again [OF assms])

theorem refresh_single_use_witness:
  "\<exists>m' err. fst (refresh demo_service (demo_env (Some (replicate 32 255))) ''abc'' m') = Inl err"
  using demo_rotated refresh_single_use [OF demo_repos_ok demo_mem_ok] by metis

text \<open>
  C15. Rotation is not atomic. Two requests with the same token whose checks both run before either
  rotation both get past them, and unless the database fails leave two active successors in
  the table: one stolen token forks into two sessions, and no reuse is reported. That holds even
  when the second revocation is refused and the second request ends in an error.
\<close>

theorem refresh_race:
  assumes "repos_ok A ok db" and "ok s"
    and "refresh_check A e1 t s = (Inr r1, s1)" and "refresh_check A e2 t s1 = (Inr r2, s2)"
    and "refresh_rotate A e1 r1 s2 = (Inr p1, s3)" and "refresh_rotate A e2 r2 s3 = (res, s4)"
    and "(\<exists>p. res = Inr p) \<or> (\<exists>err. res = Inl (RevokePreviousFailed err))"
  shows "ok s4 \<and> r1 = r2 \<and> (\<exists>n1 n2. rt_id n1 \<noteq> rt_id n2 \<and>
    db_tokens (db s4) (rt_id n1) = Some n1 \<and> db_tokens (db s4) (rt_id n2) = Some n2 \<and>
    rt_user n1 = rt_user r1 \<and> rt_user n2 = rt_user r1 \<and> rt_revoked n1 = None \<and> rt_revoked n2 = None \<and>
    rt_hash n1 = hash_refresh_token (tp_refresh p1) \<and> (\<forall>p2. res = Inr p2 \<longrightarrow> rt_hash n2 = hash_refresh_token (tp_refresh p2)))"
proof -
  have T: "tokens_ok (as_tokens A) ok db" using assms(1) by (simp add: repos_ok_def)
  from T assms(2,3) have r1: "s1 = s" "stored (db s) t r1" by (cases rule: refresh_check_cases; simp)+
  from T assms(2) assms(4) [unfolded r1(1)] have r2: "s2 = s" "stored (db s) t r2" by (cases rule: refresh_check_cases; simp)+
  have eq: "r1 = r2" by (rule stored_unique [OF T assms(2) r1(2) r2(2)])
  have row: "db_tokens (db s) (rt_id r1) = Some r1" using r1(2) by (simp add: stored_def)
  have first: "(\<exists>p. Inr p1 = (Inr p :: service_error + token_pair)) \<or> (\<exists>err. Inr p1 = Inl (RevokePreviousFailed err))" by simp
  obtain n1 where n1: "ok s3" "rt_user n1 = rt_user r1" "rt_revoked n1 = None" "db_tokens (db s) (rt_id n1) = None"
    "db_tokens (db s3) (rt_id n1) = Some n1" "\<exists>x. db_tokens (db s3) (rt_id r1) = Some x"
    "\<And>i. i \<noteq> rt_id r1 \<Longrightarrow> i \<noteq> rt_id n1 \<Longrightarrow> db_tokens (db s3) i = db_tokens (db s) i"
    "\<And>p. Inr p1 = (Inr p :: service_error + token_pair) \<Longrightarrow> rt_hash n1 = hash_refresh_token (tp_refresh p)"
    by (rule refresh_rotate_leaves [OF assms(1,2) assms(5) [unfolded r2(1)] first row]) (rule that; fast)
  then obtain x where x: "db_tokens (db s3) (rt_id r2) = Some x" using eq by auto
  obtain n2 where n2: "ok s4" "rt_user n2 = rt_user r2" "rt_revoked n2 = None" "db_tokens (db s3) (rt_id n2) = None"
    "db_tokens (db s4) (rt_id n2) = Some n2" "\<exists>x. db_tokens (db s4) (rt_id r2) = Some x"
    "\<And>i. i \<noteq> rt_id r2 \<Longrightarrow> i \<noteq> rt_id n2 \<Longrightarrow> db_tokens (db s4) i = db_tokens (db s3) i"
    "\<And>p. res = Inr p \<Longrightarrow> rt_hash n2 = hash_refresh_token (tp_refresh p)"
    by (rule refresh_rotate_leaves [OF assms(1) n1(1) assms(6,7) x]) (rule that; fast)
  have "rt_id n1 \<noteq> rt_id n2" "rt_id n1 \<noteq> rt_id r2" using n1(4,5) n2(4) row eq by auto
  moreover from this have "db_tokens (db s4) (rt_id n1) = Some n1" using n2(7) [of "rt_id n1"] n1(5) by simp
  ultimately show ?thesis using n1(2,3) n1(8) [OF refl] n2(1,2,3,5,8) eq by auto
qed

theorem refresh_race_witness:
  "\<exists>m p2 n1 n2. refresh_rotate demo_service (demo_env (Some (replicate 32 255))) (demo_row None)
      (snd (refresh demo_service (demo_env (Some (replicate 32 0))) ''abc'' (demo_mem None))) = (Inr p2, m) \<and>
    rt_id n1 \<noteq> rt_id n2 \<and> db_tokens (mem_db m) (rt_id n1) = Some n1 \<and> db_tokens (mem_db m) (rt_id n2) = Some n2 \<and>
    rt_revoked n1 = None \<and> rt_revoked n2 = None"
proof -
  obtain m1 where m1: "refresh demo_service (demo_env (Some (replicate 32 0))) ''abc'' (demo_mem None) = (Inr (demo_pair zero_token), m1)"
    "m_users m1 = [demo_user]" "map rt_hash (m_tokens m1) = [hash_refresh_token ''abc'', hash_refresh_token zero_token]"
    "map rt_id (m_tokens m1) = [''0'', ''1'']"
    using demo_rotated by metis
  then have rot1: "refresh_rotate demo_service (demo_env (Some (replicate 32 0))) (demo_row None) (demo_mem None) =
      (Inr (demo_pair zero_token), m1)"
    by (simp add: refresh_def demo_check)
  have "set (map rt_hash (m_tokens m1)) = {hash_refresh_token ''abc'', hash_refresh_token zero_token}"
    "set (map rt_id (m_tokens m1)) = {''0'', ''1''}" by (simp_all only: m1(3,4) list.set)
  then have "hash_refresh_token ones_token \<notin> rt_hash ` set (m_tokens m1)" "rt_id (demo_row None) \<in> rt_id ` set (m_tokens m1)"
    "rt_user (demo_row None) = ''0''"
    using token_hashes by (simp_all add: demo_row_def)
  with demo_rotate [OF demo_generate(2) _ m1(2)] obtain m2
    where rot2: "refresh_rotate demo_service (demo_env (Some (replicate 32 255))) (demo_row None) m1 = (Inr (demo_pair ones_token), m2)"
    by blast
  from refresh_race [OF demo_repos_ok demo_mem_ok demo_check demo_check rot1 rot2] rot2 m1(1) show ?thesis by auto
qed

text \<open>
  C16. A login that succeeds returns the stored user of that name, whose password hash the password
  matches. Its access token parses to that user's id and name for its lifetime, less a second, and
  its refresh token is stored as one new active row of that user; no other row has changed.
\<close>

theorem login_sound:
  assumes "repos_ok A ok db" and "jwt_ok (as_jwt A) sig" and "ok s"
    and "login A e n pw s = (Inr (u, pair), s')" and "utf8_ok (us_id u)" and "utf8_ok n"
  shows "ok s' \<and> db_users (db s) (us_id u) = Some u \<and> us_username u = n \<and>
    verify_password (as_bcrypt A) (us_password_hash u) pw \<and>
    (\<exists>row. db_tokens (db s) (rt_id row) = None \<and> stored (db s') (tp_refresh pair) row \<and> rt_user row = us_id u \<and>
       rt_revoked row = None \<and> db_tokens (db s') = (db_tokens (db s))(rt_id row \<mapsto> row)) \<and>
    (\<exists>c. cl_user_id c = us_id u \<and> cl_username c = n \<and>
       (\<forall>later. ae_now_access e \<le> later \<and> later \<le> ae_now_access e + ac_access_ttl (as_cfg A) - 10 ^ 9 \<longrightarrow>
          parse_access_token (as_jwt A) (tp_access pair) (ac_secret (as_cfg A)) later = Inr c))"
  using assms(1,3,4)
proof (cases rule: login_cases)
  case (right u')
  have T: "tokens_ok (as_tokens A) ok db" using assms(1) by (simp add: repos_ok_def)
  have issue1: "issue_token_pair A e u' s = (Inr pair, s')" "u' = u"
    using right(4) by (auto split: sum.splits prod.splits)
  then obtain row where issue: "issue_token_pair_with_row A e u s = (Inr (pair, row), s')"
    by (auto simp: issue_token_pair_def split: sum.splits prod.splits)
  from T assms(3) issue show ?thesis
  proof (cases rule: issue_cases)
    case (issued p r)
    have "utf8_ok default_role" by (simp add: default_role_def utf8_ok_ascii)
    moreover have "utf8_ok (us_username u)" using right(2) issue1(2) assms(6) by simp
    moreover note issued_token [OF assms(2,5) _ _ issued(11)] jwt_ok_date [OF assms(2), of "ae_now_access e + ac_access_ttl (as_cfg A)"]
    ultimately have "\<forall>later. ae_now_access e \<le> later \<and> later \<le> ae_now_access e + ac_access_ttl (as_cfg A) - 10 ^ 9 \<longrightarrow>
        parse_access_token (as_jwt A) (tp_access p) (ac_secret (as_cfg A)) later =
        Inr (issued_claims (as_jwt A) (us_id u) (us_username u) default_role (ac_access_ttl (as_cfg A)) (ae_now_access e))"
      by auto
    moreover have "cl_user_id (issued_claims (as_jwt A) (us_id u) (us_username u) default_role (ac_access_ttl (as_cfg A))
        (ae_now_access e)) = us_id u" by simp
    moreover have "cl_username (issued_claims (as_jwt A) (us_id u) (us_username u) default_role (ac_access_ttl (as_cfg A))
        (ae_now_access e)) = n" using right(2) issue1(2) by simp
    moreover have "stored (db s') (tp_refresh p) r" using issued by (simp add: stored_def)
    moreover have "p = pair" using issued(1) by simp
    moreover have "db_tokens (db s') = (db_tokens (db s))(rt_id r \<mapsto> r)" using issued(10) by simp
    ultimately show ?thesis using right(1,2,3) issue1(2) issued(2,3,7,9) by blast
  qed simp
qed simp_all

theorem login_sound_witness:
  "\<exists>m'. login demo_service (demo_env (Some (replicate 32 0))) ''ann'' ''pw'' (demo_mem None) = (Inr (demo_user, demo_pair zero_token), m') \<and>
    (\<exists>c. cl_username c = ''ann'' \<and> parse_access_token (as_jwt demo_service) ''jwt'' ''key'' 7 = Inr c)"
proof -
  have look: "ur_get_by_username (as_users demo_service) ''ann'' (demo_mem None) = Inr demo_user"
    "verify_password (as_bcrypt demo_service) (us_password_hash demo_user) ''pw''"
    by (simp_all add: demo_defs lookup_result_def verify_password_def)
  have "hash_refresh_token zero_token \<notin> rt_hash ` set (m_tokens (demo_mem None))"
    using token_hashes by (simp add: demo_mem_def demo_row_def)
  from demo_issue [OF demo_generate(1) this] look obtain m'
    where m': "login demo_service (demo_env (Some (replicate 32 0))) ''ann'' ''pw'' (demo_mem None) = (Inr (demo_user, demo_pair zero_token), m')"
    by (simp add: login_def issue_token_pair_def)
  have jwt: "jwt_ok (as_jwt demo_service) (single_sig ''0'' ''ann'')" using single_lib_ok by (simp add: demo_service_def)
  have utf: "utf8_ok (us_id demo_user)" "utf8_ok ''ann''" by (simp_all add: demo_user_def utf8_ok_ascii)
  have cfg: "ae_now_access (demo_env x) = 0" "ac_access_ttl (as_cfg demo_service) = 60 * 10 ^ 9"
    "tp_access (demo_pair y) = ''jwt''" "ac_secret (as_cfg demo_service) = ''key''" for x y
    by (simp_all add: demo_env_def demo_service_def demo_pair_def)
  have "(0 :: int) \<le> 7 \<and> (7 :: int) \<le> 0 + 60 * 10 ^ 9 - 10 ^ 9" by simp
  with login_sound [OF demo_repos_ok jwt demo_mem_ok m' utf, unfolded cfg] m' show ?thesis by blast
qed

text \<open>
  A login is refused with \<^verbatim>\<open>ErrInvalidCredentials\<close> exactly if no stored user of that name has a
  matching password, provided the look-up itself did not fail; the refusal leaves the state alone and does not tell
  an unknown name from a wrong password.
\<close>

theorem login_refused_iff:
  assumes "repos_ok A ok db" and "ok s" and "\<forall>x. ur_get_by_username (as_users A) n s \<noteq> Inl (RepoFailure x)"
  shows "(fst (login A e n pw s) = Inl ErrInvalidCredentials \<longleftrightarrow>
      \<not> (\<exists>i u. db_users (db s) i = Some u \<and> us_username u = n \<and> verify_password (as_bcrypt A) (us_password_hash u) pw)) \<and>
    (fst (login A e n pw s) = Inl ErrInvalidCredentials \<longrightarrow> login A e n pw s = (Inl ErrInvalidCredentials, s))"
  by (rule login_refused [OF assms])

theorem login_refused_iff_witness:
  "login demo_service (demo_env None) ''ann'' ''guess'' (demo_mem None) = (Inl ErrInvalidCredentials, demo_mem None)"
proof -
  have look: "\<forall>x. ur_get_by_username (as_users demo_service) ''ann'' (demo_mem None) \<noteq> Inl (RepoFailure x)"
    by (simp add: demo_defs lookup_result_def)
  have "\<not> (\<exists>i u. db_users (mem_db (demo_mem None)) i = Some u \<and> us_username u = ''ann'' \<and>
      verify_password (as_bcrypt demo_service) (us_password_hash u) ''guess'')"
    by (simp add: mem_db_def demo_defs verify_password_def)
  with login_refused_iff [OF demo_repos_ok demo_mem_ok look] show ?thesis by blast
qed

text \<open>
  C17. A registered user can log in with the password given, whatever the bcrypt salt: the login is
  never refused as invalid, and if it succeeds it is for the same user.
\<close>

theorem register_then_login:
  assumes "repos_ok A ok db" and "bcrypt_ok (as_bcrypt A)" and "ok s"
    and "register A e n em pw s = (Inr (u, pair), s')"
  shows "ok s' \<and> db_users (db s') = (db_users (db s))(us_id u \<mapsto> u) \<and> db_users (db s) (us_id u) = None \<and> us_username u = n \<and>
    fst (login A e' n pw s') \<noteq> Inl ErrInvalidCredentials \<and>
    (\<forall>u' pair' s''. login A e' n pw s' = (Inr (u', pair'), s'') \<longrightarrow> u' = u)"
proof -
  have U: "users_ok (as_users A) ok db" using assms(1) by (simp add: repos_ok_def)
  obtain h where h: "hash_password (as_bcrypt A) (ae_salt e) pw = Inr h"
    using assms(4) by (auto simp: register_def split: sum.splits)
  let ?n = "\<lparr>cu_username = n, cu_email = em, cu_password_hash = h\<rparr>"
  obtain s1 where create: "ur_create (as_users A) ?n s = (Inr u, s1)" and issue: "issue_token_pair A e u s1 = (Inr pair, s')"
    using assms(4) h by (auto simp: register_def split: sum.splits prod.splits)
  note new = create_user_stored [OF assms(1,3) create]
  note after = users_issue [OF assms(1) new(1) issue]
  have name: "us_username u = n" and verify: "verify_password (as_bcrypt A) (us_password_hash u) pw"
    using new(4,5) verify_hashed [OF assms(2) h] by simp_all
  have row: "db_users (db s') (us_id u) = Some u" using after(2) new(2) by simp
  have only: "v = u" if "db_users (db s') i = Some v" "us_username v = n" for i v
    using users_okD(4) [OF U after(1) that(1) row] that row name by simp
  obtain res s'' where login: "login A e' n pw s' = (res, s'')" by fastforce
  from assms(1) after(1) login have "res \<noteq> Inl ErrInvalidCredentials \<and> (\<forall>u' pair'. res = Inr (u', pair') \<longrightarrow> u' = u)"
  proof (cases rule: login_cases)
    case unknown
    with row name show ?thesis by blast
  next
    case (wrong v)
    with only verify show ?thesis by blast
  next
    case (right v)
    obtain ires s2 where i: "issue_token_pair A e' v s' = (ires, s2)" by fastforce
    from right(4) i users_issue(3) [OF assms(1) after(1) i] only [OF right(1,2)] show ?thesis by (cases ires) auto
  qed simp
  with new(2,3) after(1,2) name login show ?thesis by auto
qed

theorem register_then_login_witness:
  "\<exists>u pair m'. register demo_service (demo_env (Some (replicate 32 0))) ''ann'' ''a@b'' ''pw'' \<lparr>m_users = [], m_tokens = []\<rparr> =
     (Inr (u, pair), m') \<and> fst (login demo_service (demo_env None) ''ann'' ''pw'' m') \<noteq> Inl ErrInvalidCredentials"
proof -
  have ok: "mem_ok \<lparr>m_users = [], m_tokens = []\<rparr>" by (simp add: mem_ok_def)
  have bc: "bcrypt_ok (as_bcrypt demo_service)" using plain_bcrypt_ok by (simp add: demo_service_def)
  note steps = demo_register_steps
  have "\<exists>pair m'. register demo_service (demo_env (Some (replicate 32 0))) ''ann'' ''a@b'' ''pw'' \<lparr>m_users = [], m_tokens = []\<rparr> =
      (Inr (demo_user, pair), m')"
    unfolding register_def steps issue_token_pair_def by (simp add: steps demo_issue [OF demo_generate(1)])
  then show ?thesis using register_then_login [OF demo_repos_ok bc ok] by metis
qed

text \<open>
  C18. Logout kills the token. After it no refresh with the token succeeds and another logout changes
  nothing; rows of other tokens are untouched. The price: a token that was logged out and
  is presented again counts as reuse, like a rotated one.
\<close>

theorem logout_kills_token:
  assumes "repos_ok A ok db" and "ok s" and "logout A t s = (None, s')"
  shows "ok s' \<and> db_users (db s') = db_users (db s) \<and>
    (\<forall>i. (\<forall>r. db_tokens (db s) i = Some r \<longrightarrow> rt_hash r \<noteq> hash_refresh_token t) \<longrightarrow> db_tokens (db s') i = db_tokens (db s) i) \<and>
    (\<forall>e p. fst (refresh A e t s') \<noteq> Inr p) \<and> snd (logout A t s') = s' \<and>
    ((\<exists>r. stored (db s) t r) \<longrightarrow> (\<forall>e. fst (refresh A e t s') = Inl ErrTokenReuse \<or> (\<exists>x. fst (refresh A e t s') = Inl (Repository (RepoFailure x)))))"
proof -
  have T: "tokens_ok (as_tokens A) ok db" using assms(1) by (simp add: repos_ok_def)
  from T assms(2,3) obtain
    s': "ok s'" "db_users (db s') = db_users (db s)" "dead (db s') t"
      "\<forall>i. (\<forall>r. db_tokens (db s) i = Some r \<longrightarrow> rt_hash r \<noteq> hash_refresh_token t) \<longrightarrow> db_tokens (db s') i = db_tokens (db s) i"
      "(\<exists>r. stored (db s) t r) \<longrightarrow> (\<exists>r. stored (db s') t r)"
  proof (cases rule: logout_cases)
    case nothing
    with assms(2) that show ?thesis by simp
  next
    case (revoked r at)
    have row: "db_tokens (db s) (rt_id r) = Some r" "rt_hash r = hash_refresh_token t" using revoked(2) by (simp_all add: stored_def)
    have st: "stored (db s') t (r\<lparr>rt_revoked := Some at, rt_replaced_by := None\<rparr>)" using revoked(4) row(2) by (simp add: stored_def)
    have "dead (db s') t" by (rule stored_dead [OF T revoked(1) st]) simp
    moreover have "(\<forall>r. db_tokens (db s) i = Some r \<longrightarrow> rt_hash r \<noteq> hash_refresh_token t) \<longrightarrow> db_tokens (db s') i = db_tokens (db s) i" for i
      using row by (simp add: revoked(4))
    moreover have "db_users (db s') = db_users (db s)" by (simp add: revoked(4))
    ultimately show ?thesis using revoked(1) st that by blast
  qed
  have cases: "fst (refresh A e t s') \<noteq> Inr p \<and>
      ((\<exists>r. stored (db s) t r) \<longrightarrow> fst (refresh A e t s') = Inl ErrTokenReuse \<or> (\<exists>x. fst (refresh A e t s') = Inl (Repository (RepoFailure x))))" for e p
    by (rule dead_refresh [OF T s'(1,3), of e]) (use s'(5) in auto)
  from dead_logout [OF T s'(1,3)] s'(1,2,4) cases show ?thesis by blast
qed

theorem logout_kills_token_witness:
  "\<exists>m'. logout demo_service ''abc'' (demo_mem None) = (None, m') \<and> (\<forall>e p. fst (refresh demo_service e ''abc'' m') \<noteq> Inr p)"
proof -
  have "\<exists>m'. logout demo_service ''abc'' (demo_mem None) = (None, m')"
    by (simp add: logout_def demo_defs lookup_result_def)
  then show ?thesis using logout_kills_token [OF demo_repos_ok demo_mem_ok] by blast
qed

text \<open>
  A registration that fails after the user row was written leaves the row behind: the client is
  told of an error, the name is taken from then on, and no registration under it can succeed, not
  even the same one repeated.
\<close>

theorem register_failure_keeps_user:
  assumes "repos_ok A ok db" and "ok s" and "hash_password (as_bcrypt A) (ae_salt e) pw = Inr h"
    and "ur_create (as_users A) \<lparr>cu_username = n, cu_email = em, cu_password_hash = h\<rparr> s = (Inr u, s1)"
    and "register A e n em pw s = (Inl err, s')"
  shows "ok s' \<and> db_users (db s) (us_id u) = None \<and> db_users (db s') (us_id u) = Some u \<and> us_username u = n \<and>
    (\<forall>e' em' pw'. \<exists>err'. fst (register A e' n em' pw' s') = Inl err')"
proof -
  note new = create_user_stored [OF assms(1,2,4)]
  obtain ires s2 where issue: "issue_token_pair A e u s1 = (ires, s2)" by fastforce
  note after = users_issue [OF assms(1) new(1) issue]
  have eq: "s' = s2" using assms(3,4,5) issue by (auto simp: register_def split: sum.splits)
  have row: "db_users (db s') (us_id u) = Some u" "us_username u = n" using after(2) new(2,4) eq by simp_all
  have "\<exists>err'. fst (register A e' n em' pw' s') = Inl err'" for e' em' pw'
  proof (cases "hash_password (as_bcrypt A) (ae_salt e') pw'")
    case (Inr h')
    obtain res s3 where create: "ur_create (as_users A) \<lparr>cu_username = n, cu_email = em', cu_password_hash = h'\<rparr> s' = (res, s3)"
      by fastforce
    have "\<exists>err. res = Inl err" using create_taken [OF assms(1) after(1) [folded eq] row(1) _ create] row(2) by simp
    with Inr create show ?thesis by (auto simp: register_def)
  qed (simp add: register_def)
  with after(1) new(3) row eq show ?thesis by blast
qed

theorem register_failure_keeps_user_witness:
  "\<exists>err m'. register demo_service (demo_env None) ''ann'' ''a@b'' ''pw'' \<lparr>m_users = [], m_tokens = []\<rparr> = (Inl err, m') \<and>
     db_users (mem_db m') ''0'' = Some demo_user"
proof -
  have ok: "mem_ok \<lparr>m_users = [], m_tokens = []\<rparr>" by (simp add: mem_ok_def)
  note steps = demo_register_steps
  obtain err m' where reg: "register demo_service (demo_env None) ''ann'' ''a@b'' ''pw'' \<lparr>m_users = [], m_tokens = []\<rparr> = (Inl err, m')"
    unfolding register_def steps issue_token_pair_def by (simp add: steps demo_issue_fails)
  have "us_id demo_user = ''0''" by (simp add: demo_user_def)
  with register_failure_keeps_user [OF demo_repos_ok ok steps reg] reg show ?thesis by metis
qed

end
