(* ===== verification/AuthHandler.thy ===== *)
theory AuthHandler
  imports AuthProps Http
begin

text \<open>
  \<^verbatim>\<open>internal/handlers/auth.go\<close>: the four endpoints under \<^verbatim>\<open>/auth\<close>, over \<open>AuthService\<close>.

  What the code takes from elsewhere is a record: how \<^verbatim>\<open>encoding/json\<close> prints a \<^verbatim>\<open>models.User\<close> (the
  type is missing from the repository) and words a decoding error, and how \<^verbatim>\<open>Time.Format\<close> prints
  a time.
\<close>

record auth_text =
  at_user :: "user \<Rightarrow> string + bytes"
  at_time :: "int \<Rightarrow> string"
  at_explain :: "decode_error \<Rightarrow> string"

record auth_response =
  ar_user :: "user option"
  ar_access :: string
  ar_refresh :: string
  ar_expires :: string

text \<open>A response without a user has no field \<^verbatim>\<open>user\<close> (\<^verbatim>\<open>omitempty\<close>).\<close>

definition encode_auth_response :: "(user \<Rightarrow> string + bytes) \<Rightarrow> auth_response \<Rightarrow> string + bytes" where
  "encode_auth_response print_user resp =
     (let rest = print_string_fields
            [(''access_token'', ar_access resp), (''refresh_token'', ar_refresh resp), (''refresh_expires_at'', ar_expires resp)]
      in case ar_user resp of
           None \<Rightarrow> Inr rest
         | Some user \<Rightarrow>
             (case print_user user of
                Inl e \<Rightarrow> Inl e
              | Inr raw \<Rightarrow> Inr (CHR ''{'' # json_quote ''user'' @ CHR '':'' # raw @ CHR '','' # tl rest)))"

definition register_fields :: "string list" where
  "register_fields = [''username'', ''email'', ''password'']"

definition login_fields :: "string list" where
  "login_fields = [''username'', ''password'']"

definition refresh_fields :: "string list" where
  "refresh_fields = [''refresh_token'']"

definition logout_fields :: "string list" where
  "logout_fields = [''refresh_token'']"

definition write_service_error :: "service_error \<Rightarrow> rw_op list" where
  "write_service_error err =
     (case err of
        ErrInvalidCredentials \<Rightarrow> write_error 401 ''invalid_credentials'' ''invalid credentials''
      | ErrTokenReuse \<Rightarrow> write_error 401 ''token_reuse'' ''refresh token reuse detected; all sessions revoked''
      | _ \<Rightarrow> write_error 500 ''internal_error'' ''internal server error'')"

definition pair_response :: "auth_text \<Rightarrow> user option \<Rightarrow> token_pair \<Rightarrow> string + bytes" where
  "pair_response X user pair =
     encode_auth_response (at_user X)
       \<lparr>ar_user = user, ar_access = tp_access pair, ar_refresh = tp_refresh pair,
        ar_expires = at_time X (tp_refresh_expires pair)\<rparr>"

definition handle_register :: "'s auth_service \<Rightarrow> auth_text \<Rightarrow> auth_env \<Rightarrow> 's handler" where
  "handle_register A X e r s =
     (case decode_json register_fields (rq_body r) 0 of
        Inl err \<Rightarrow> Inr (write_error 400 ''invalid_body'' (at_explain X err), s)
      | Inr req \<Rightarrow>
          if req ''username'' = '''' \<or> req ''email'' = '''' \<or> req ''password'' = '''' then
            Inr (write_error 400 ''invalid_body'' ''username, email, password are required'', s)
          else
            (case register A e (req ''username'') (req ''email'') (req ''password'') s of
               (Inl err, s) \<Rightarrow> Inr (write_service_error err, s)
             | (Inr (user, pair), s) \<Rightarrow> Inr (write_json 201 (pair_response X (Some user) pair), s)))"

definition handle_login :: "'s auth_service \<Rightarrow> auth_text \<Rightarrow> auth_env \<Rightarrow> 's handler" where
  "handle_login A X e r s =
     (case decode_json login_fields (rq_body r) 0 of
        Inl err \<Rightarrow> Inr (write_error 400 ''invalid_body'' (at_explain X err), s)
      | Inr req \<Rightarrow>
          if req ''username'' = '''' \<or> req ''password'' = '''' then
            Inr (write_error 400 ''invalid_body'' ''username and password are required'', s)
          else
            (case login A e (req ''username'') (req ''password'') s of
               (Inl err, s) \<Rightarrow> Inr (write_service_error err, s)
             | (Inr (user, pair), s) \<Rightarrow> Inr (write_json 200 (pair_response X (Some user) pair), s)))"

definition handle_refresh :: "'s auth_service \<Rightarrow> auth_text \<Rightarrow> auth_env \<Rightarrow> 's handler" where
  "handle_refresh A X e r s =
     (case decode_json refresh_fields (rq_body r) 0 of
        Inl err \<Rightarrow> Inr (write_error 400 ''invalid_body'' (at_explain X err), s)
      | Inr req \<Rightarrow>
          if req ''refresh_token'' = '''' then
            Inr (write_error 400 ''invalid_body'' ''refresh_token is required'', s)
          else
            (case refresh A e (req ''refresh_token'') s of
               (Inl err, s) \<Rightarrow> Inr (write_service_error err, s)
             | (Inr pair, s) \<Rightarrow> Inr (write_json 200 (pair_response X None pair), s)))"

definition handle_logout :: "'s auth_service \<Rightarrow> auth_text \<Rightarrow> 's handler" where
  "handle_logout A X r s =
     (case decode_json logout_fields (rq_body r) 0 of
        Inl err \<Rightarrow> Inr (write_error 400 ''invalid_body'' (at_explain X err), s)
      | Inr req \<Rightarrow>
          if req ''refresh_token'' = '''' then
            Inr (write_error 400 ''invalid_body'' ''refresh_token is required'', s)
          else
            (case logout A (req ''refresh_token'') s of
               (Some err, s) \<Rightarrow> Inr (write_service_error err, s)
             | (None, s) \<Rightarrow> Inr ([WriteHeader 204], s)))"

subsection \<open>Lemmas\<close>

lemma service_error_status:
  "rs_status (respond (write_service_error err)) =
     (if err = ErrInvalidCredentials \<or> err = ErrTokenReuse then 401 else 500)"
  by (cases err) (simp_all add: write_service_error_def respond_write_error)

lemma no_content_status: "rs_status (respond [WriteHeader 204]) = 204"
  by (simp add: respond_def send_header_def new_response_def)

text \<open>Every endpoint answers, and an answer of 400 has not touched the state.\<close>

lemma handle_register_cases:
  obtains (refused) ops where "handle_register A X e r s = Inr (ops, s)" "rs_status (respond ops) = 400"
  | (called) req res s' ops where "decode_json register_fields (rq_body r) 0 = Inr req"
      "register A e (req ''username'') (req ''email'') (req ''password'') s = (res, s')"
      "handle_register A X e r s = Inr (ops, s')"
      "rs_status (respond ops) = (case res of Inl err \<Rightarrow> rs_status (respond (write_service_error err)) | Inr _ \<Rightarrow> 201)"
proof (cases "decode_json register_fields (rq_body r) 0")
  case (Inl err)
  then show thesis by (intro that(1)) (simp add: handle_register_def respond_write_error)+
next
  case req: (Inr req)
  show thesis
  proof (cases "req ''username'' = '''' \<or> req ''email'' = '''' \<or> req ''password'' = ''''")
    case True
    with req show ?thesis by (intro that(1)) (simp add: handle_register_def respond_write_error)+
  next
    case False
    obtain res s' where call: "register A e (req ''username'') (req ''email'') (req ''password'') s = (res, s')" by fastforce
    show ?thesis
    proof (cases res)
      case (Inl err)
      with False req call show ?thesis by (intro that(2) [OF req call]) (simp add: handle_register_def)+
    next
      case (Inr up)
      obtain u p where "up = (u, p)" by (cases up)
      with Inr False req call show ?thesis
        by (intro that(2) [OF req call]) (simp add: handle_register_def respond_write_json)+
    qed
  qed
qed

lemma handle_login_cases:
  obtains (refused) ops where "handle_login A X e r s = Inr (ops, s)" "rs_status (respond ops) = 400"
  | (called) req res s' ops where "decode_json login_fields (rq_body r) 0 = Inr req"
      "login A e (req ''username'') (req ''password'') s = (res, s')" "handle_login A X e r s = Inr (ops, s')"
      "\<And>err. res = Inl err \<Longrightarrow> ops = write_service_error err" "\<And>x. res = Inr x \<Longrightarrow> rs_status (respond ops) = 200"
proof (cases "decode_json login_fields (rq_body r) 0")
  case (Inl err)
  then show thesis by (intro that(1)) (simp add: handle_login_def respond_write_error)+
next
  case req: (Inr req)
  show thesis
  proof (cases "req ''username'' = '''' \<or> req ''password'' = ''''")
    case True
    with req show ?thesis by (intro that(1)) (simp add: handle_login_def respond_write_error)+
  next
    case False
    obtain res s' where call: "login A e (req ''username'') (req ''password'') s = (res, s')" by fastforce
    show ?thesis
    proof (cases res)
      case (Inl err)
      with False req call show ?thesis by (intro that(2) [OF req call]) (simp add: handle_login_def)+
    next
      case (Inr up)
      obtain u p where "up = (u, p)" by (cases up)
      with Inr False req call show ?thesis
        by (intro that(2) [OF req call]) (simp add: handle_login_def respond_write_json)+
    qed
  qed
qed

lemma handle_refresh_cases:
  obtains (refused) ops where "handle_refresh A X e r s = Inr (ops, s)" "rs_status (respond ops) = 400"
  | (called) req res s' ops where "decode_json refresh_fields (rq_body r) 0 = Inr req"
      "refresh A e (req ''refresh_token'') s = (res, s')" "handle_refresh A X e r s = Inr (ops, s')"
      "\<And>err. res = Inl err \<Longrightarrow> ops = write_service_error err" "\<And>x. res = Inr x \<Longrightarrow> rs_status (respond ops) = 200"
proof (cases "decode_json refresh_fields (rq_body r) 0")
  case (Inl err)
  then show thesis by (intro that(1)) (simp add: handle_refresh_def respond_write_error)+
next
  case req: (Inr req)
  show thesis
  proof (cases "req ''refresh_token'' = ''''")
    case True
    with req show ?thesis by (intro that(1)) (simp add: handle_refresh_def respond_write_error)+
  next
    case False
    obtain res s' where call: "refresh A e (req ''refresh_token'') s = (res, s')" by fastforce
    show ?thesis
    proof (cases res)
      case (Inl err)
      with False req call show ?thesis by (intro that(2) [OF req call]) (simp add: handle_refresh_def)+
    next
      case (Inr p)
      with False req call show ?thesis
        by (intro that(2) [OF req call]) (simp add: handle_refresh_def respond_write_json)+
    qed
  qed
qed

lemma handle_logout_answers: "\<exists>ops s'. handle_logout A X r s = Inr (ops, s')"
  by (simp add: handle_logout_def split: sum.split prod.split option.split)

subsection \<open>Properties\<close>

text \<open>
  C28. What a login request is told. Unless the database fails, the answer is 401 exactly if no stored user of the
  name has a matching password. Then it is one fixed answer, which depends neither on
  the name nor on the password nor on the user found, and nothing has changed.
\<close>

theorem login_answer:
  assumes "repos_ok A ok db" and "ok s" and "decode_json login_fields (rq_body r) 0 = Inr req"
    and "req ''username'' \<noteq> ''''" and "req ''password'' \<noteq> ''''"
    and "\<forall>x. ur_get_by_username (as_users A) (req ''username'') s \<noteq> Inl (RepoFailure x)"
  shows "\<exists>ops s'. handle_login A X e r s = Inr (ops, s') \<and> rs_status (respond ops) \<in> {200, 401, 500} \<and>
    (rs_status (respond ops) = 401 \<longleftrightarrow>
       \<not> (\<exists>i u. db_users (db s) i = Some u \<and> us_username u = req ''username'' \<and>
            verify_password (as_bcrypt A) (us_password_hash u) (req ''password''))) \<and>
    (rs_status (respond ops) = 401 \<longrightarrow> ops = write_error 401 ''invalid_credentials'' ''invalid credentials'' \<and> s' = s)"
proof -
  obtain res s' where login: "login A e (req ''username'') (req ''password'') s = (res, s')" by fastforce
  note refused = login_refused [OF assms(1,2,6), of e "req ''password''", unfolded login fst_conv snd_conv prod.inject]
  have reuse: "res \<noteq> Inl ErrTokenReuse" by (rule login_no_reuse [OF assms(1,2) login])
  show ?thesis
  proof (cases res)
    case (Inl err)
    have eq: "handle_login A X e r s = Inr (write_service_error err, s')"
      using Inl assms(3-5) login by (simp add: handle_login_def)
    show ?thesis
    proof (cases "err = ErrInvalidCredentials")
      case True
      with eq refused Inl show ?thesis by (simp add: write_service_error_def respond_write_error)
    next
      case False
      with eq refused reuse Inl show ?thesis by (simp add: service_error_status)
    qed
  next
    case (Inr up)
    obtain u p where up: "up = (u, p)" by (cases up)
    have "handle_login A X e r s = Inr (write_json 200 (pair_response X (Some u) p), s')"
      using Inr up assms(3-5) login by (simp add: handle_login_def)
    with refused Inr show ?thesis by (simp add: respond_write_json)
  qed
qed

text \<open>For the witnesses: requests with given string fields.\<close>

definition json_request :: "(string \<times> string) list \<Rightarrow> request" where
  "json_request fs =
     \<lparr>rq_method = ''POST'', rq_path = [], rq_header = [], rq_query = [], rq_params = [],
      rq_body = print_string_fields fs, rq_request_id = None, rq_claims = None\<rparr>"

definition demo_text :: auth_text where
  "demo_text = \<lparr>at_user = (\<lambda>u. Inr ''{}''), at_time = (\<lambda>t. ''later''), at_explain = (\<lambda>err. ''bad'')\<rparr>"

lemma login_request_decodes:
  "\<exists>req. decode_json login_fields (rq_body (json_request [(''username'', ''ann''), (''password'', ''guess'')])) 0 = Inr req \<and>
     req ''username'' = ''ann'' \<and> req ''password'' = ''guess''"
proof -
  let ?fs = "[(''username'', ''ann''), (''password'', ''guess'')]"
  have "\<forall>(n, v)\<in>set ?fs. n \<in> set login_fields \<and> utf8_ok n \<and> utf8_ok v"
    by (simp add: login_fields_def utf8_ok_ascii)
  moreover have "length (print_string_fields ?fs) \<le> 2 ^ 20"
    by (simp add: print_string_fields_def json_quote_def quote_body.simps quote_char_def html_special_def)
  ultimately show ?thesis using decode_string_fields [of ?fs login_fields] by (simp add: json_request_def)
qed

lemma refresh_request_decodes:
  "\<exists>req. decode_json refresh_fields (rq_body (json_request logout_text)) 0 = Inr req \<and> req ''refresh_token'' = ''abc''"
  using decode_string_fields [of logout_text refresh_fields] logout_text_ok
  by (simp add: json_request_def refresh_fields_def logout_text_def)

theorem login_answer_witness:
  "\<exists>ops m. handle_login demo_service demo_text (demo_env None) (json_request [(''username'', ''ann''), (''password'', ''guess'')])
     (demo_mem None) = Inr (ops, m) \<and> rs_status (respond ops) = 401 \<and> m = demo_mem None"
proof -
  obtain req where req: "decode_json login_fields (rq_body (json_request [(''username'', ''ann''), (''password'', ''guess'')])) 0 = Inr req"
    "req ''username'' = ''ann''" "req ''password'' = ''guess''"
    using login_request_decodes by blast
  have ne: "req ''username'' \<noteq> ''''" "req ''password'' \<noteq> ''''" by (simp_all add: req)
  have look: "\<forall>x. ur_get_by_username (as_users demo_service) (req ''username'') (demo_mem None) \<noteq> Inl (RepoFailure x)"
    by (simp add: req demo_defs lookup_result_def)
  have "\<not> (\<exists>i u. db_users (mem_db (demo_mem None)) i = Some u \<and> us_username u = req ''username'' \<and>
      verify_password (as_bcrypt demo_service) (us_password_hash u) (req ''password''))"
    by (simp add: req mem_db_def demo_defs verify_password_def)
  with login_answer [OF demo_repos_ok demo_mem_ok req(1) ne look, of demo_text "demo_env None"] show ?thesis by blast
qed

text \<open>
  A refresh request works once. If the same request is sent again after a success, at any
  later time, the answer is 401 with the code \<open>token_reuse\<close>, or 500 if the database fails.
\<close>

theorem refresh_request_once:
  assumes "repos_ok A ok db" and "ok s"
    and "handle_refresh A X e r s = Inr (ops, s')" and "rs_status (respond ops) = 200"
  shows "\<exists>ops' s''. handle_refresh A X e' r s' = Inr (ops', s'') \<and>
    (ops' = write_error 401 ''token_reuse'' ''refresh token reuse detected; all sessions revoked'' \<or>
     ops' = write_error 500 ''internal_error'' ''internal server error'')"
proof (rule handle_refresh_cases [of A X e r s])
  fix ops1 assume "handle_refresh A X e r s = Inr (ops1, s)" "rs_status (respond ops1) = 400"
  with assms(3,4) show ?thesis by simp
next
  fix req res s1 ops1
  assume a: "decode_json refresh_fields (rq_body r) 0 = Inr req" "refresh A e (req ''refresh_token'') s = (res, s1)"
    "handle_refresh A X e r s = Inr (ops1, s1)" "\<And>err. res = Inl err \<Longrightarrow> ops1 = write_service_error err"
  have eq: "s1 = s'" "ops1 = ops" using a(3) assms(3) by simp_all
  have nonempty: "req ''refresh_token'' \<noteq> ''''"
    using assms(3,4) a(1) by (auto simp: handle_refresh_def respond_write_error)
  obtain pair where pair: "res = Inr pair"
    using a(4) eq assms(4) service_error_status by (cases res) (auto split: if_splits)
  obtain res' s'' where again: "refresh A e' (req ''refresh_token'') s' = (res', s'')" by fastforce
  have "res' = Inl ErrTokenReuse \<or> (\<exists>x. res' = Inl (Repository (RepoFailure x)))"
    using refresh_spent_again [OF assms(1,2) a(2) [unfolded pair eq], of e'] again by simp
  then show ?thesis using a(1) nonempty again by (auto simp: handle_refresh_def write_service_error_def)
qed

theorem refresh_request_once_witness:
  "\<exists>m ops m'. handle_refresh demo_service demo_text (demo_env (Some (replicate 32 255))) (json_request logout_text) m = Inr (ops, m') \<and>
     rs_status (respond ops) \<in> {401, 500}"
proof -
  obtain req where req: "decode_json refresh_fields (rq_body (json_request logout_text)) 0 = Inr req" "req ''refresh_token'' = ''abc''"
    using refresh_request_decodes by blast
  obtain m where m: "refresh demo_service (demo_env (Some (replicate 32 0))) ''abc'' (demo_mem None) = (Inr (demo_pair zero_token), m)"
    using demo_rotated by blast
  have first: "handle_refresh demo_service demo_text (demo_env (Some (replicate 32 0))) (json_request logout_text) (demo_mem None) =
      Inr (write_json 200 (pair_response demo_text None (demo_pair zero_token)), m)"
    using req m by (simp add: handle_refresh_def)
  have "rs_status (respond (write_json 200 (pair_response demo_text None (demo_pair zero_token)))) = 200"
    by (simp add: respond_write_json)
  from refresh_request_once [OF demo_repos_ok demo_mem_ok first this, of "demo_env (Some (replicate 32 255))"]
  show ?thesis by (auto simp: respond_write_error intro!: exI [of _ m])
qed

end
