(* ===== verification/Dispatcher.thy ===== *)
theory Dispatcher
  imports FeedHandler AuthHandler
begin

text \<open>
  The routers that \<^verbatim>\<open>cmd/dispatcher/main.go\<close> and \<^verbatim>\<open>cmd/gateway/main.go\<close> build out of the handlers
  and middlewares.

  \<^verbatim>\<open>github.com/go-chi/chi\<close> is not part of the repository. Its matching of a request against the
  registered methods and patterns is the argument \<open>chi\<close>; a mounted router is the handler of the
  pattern it is mounted at, with the method \<open>*\<close>. Nothing is assumed of \<open>chi\<close> but that it
  names a registered route or none. The two databases of the services are one state \<open>'s\<close>.
\<close>

subsection \<open>Routing\<close>

datatype chi_result = ChiMatch nat "(string, string) gomap" | ChiNotFound | ChiMethodNotAllowed

type_synonym chi = "(string \<times> string) list \<Rightarrow> request \<Rightarrow> chi_result"

type_synonym 's route = "(string \<times> string) \<times> 's handler"

definition chi_serve :: "chi \<Rightarrow> 's route list \<Rightarrow> 's handler" where
  "chi_serve chi routes r s =
     (case chi (map fst routes) r of
        ChiMatch i params \<Rightarrow>
          if i < length routes then snd (routes ! i) (r\<lparr>rq_params := params\<rparr>) s
          else Inr (http_error ''404 page not found'' 404, s)
      | ChiNotFound \<Rightarrow> Inr (http_error ''404 page not found'' 404, s)
      | ChiMethodNotAllowed \<Rightarrow> Inr ([WriteHeader 405], s))"

definition auth_routes :: "'s auth_service \<Rightarrow> auth_text \<Rightarrow> auth_env \<Rightarrow> 's route list" where
  "auth_routes A X e =
     [((''POST'', ''/register''), handle_register A X e),
      ((''POST'', ''/login''), handle_login A X e),
      ((''POST'', ''/refresh''), handle_refresh A X e),
      ((''POST'', ''/logout''), handle_logout A X)]"

definition feed_routes ::
    "('p, 'c, 'r, 's, 'b) feed_service \<Rightarrow> (decode_error \<Rightarrow> string) \<Rightarrow> ('s, 'b) feed_state route list" where
  "feed_routes F explain =
     [((''POST'', ''/''), handle_create_post F explain),
      ((''GET'', ''/{postID}''), handle_get_post F),
      ((''POST'', ''/{postID}/comments''), handle_create_comment F explain),
      ((''PUT'', ''/{postID}/reactions''), handle_upsert_reaction F explain)]"

definition healthz :: "'s handler" where
  "healthz r s = Inr (write_json 200 (Inr (print_string_fields [(''status'', ''ok'')])), s)"

subsection \<open>The dispatcher\<close>

record http_line =
  hl_method :: string
  hl_path :: string
  hl_status :: nat
  hl_bytes :: nat
  hl_duration_ms :: int
  hl_request_id :: string

record ('s, 'b) dispatcher_state =
  ds_feed :: "('s, 'b) feed_state"
  ds_http :: "http_line list"

definition on_feed :: "('s, 'b) feed_state handler \<Rightarrow> ('s, 'b) dispatcher_state handler" where
  "on_feed h r d = sum_map (\<lambda>(ops, st). (ops, d\<lparr>ds_feed := st\<rparr>)) (h r (ds_feed d))"

definition on_db :: "'s handler \<Rightarrow> ('s, 'b) feed_state handler" where
  "on_db h r st = sum_map (\<lambda>(ops, s). (ops, st\<lparr>fd_db := s\<rparr>)) (h r (fd_db st))"

definition log_http ::
    "request \<Rightarrow> nat \<Rightarrow> nat \<Rightarrow> int \<Rightarrow> ('s, 'b) dispatcher_state \<Rightarrow> ('s, 'b) dispatcher_state" where
  "log_http r status n dur d =
     d\<lparr>ds_http := ds_http d @
        [\<lparr>hl_method = rq_method r, hl_path = rq_path r, hl_status = status, hl_bytes = n,
          hl_duration_ms = dur div 10 ^ 6, hl_request_id = request_id_from_context r\<rparr>]\<rparr>"

text \<open>What one request takes from outside: its UUID, its duration, the time, and what \<open>AuthService\<close> takes.\<close>

record serve_env =
  se_uuid :: string
  se_dur :: int
  se_now :: int
  se_auth :: auth_env

definition dispatcher ::
    "chi \<Rightarrow> 's auth_service \<Rightarrow> ('p, 'c, 'r, 's, 'b) feed_service \<Rightarrow> auth_text \<Rightarrow> serve_env \<Rightarrow>
       ('s, 'b) dispatcher_state handler" where
  "dispatcher chi A F X e =
     request_id (se_uuid e)
       (logger log_http (se_dur e)
         (auth_mw (as_jwt A) (ac_secret (as_cfg A)) (se_now e)
           (chi_serve chi
             [((''GET'', ''/healthz''), healthz),
              ((''*'', ''/auth''), on_feed (on_db (chi_serve chi (auth_routes A X (se_auth e))))),
              ((''*'', ''/posts''), require_auth (on_feed (chi_serve chi (feed_routes F (at_explain X)))))])))"

text \<open>The gateway, around the handler of \<open>SseHandler\<close>.\<close>

definition sse_routes :: "'s handler \<Rightarrow> 's route list" where
  "sse_routes subscribe = [((''PUT'', ''/posts/{postID}/subscriptions''), subscribe)]"

definition gateway_router ::
    "chi \<Rightarrow> jwt_lib \<Rightarrow> bytes \<Rightarrow> (request \<Rightarrow> nat \<Rightarrow> nat \<Rightarrow> int \<Rightarrow> 's \<Rightarrow> 's) \<Rightarrow> 's handler \<Rightarrow> serve_env \<Rightarrow> 's handler" where
  "gateway_router chi J secret log subscribe e =
     request_id (se_uuid e)
       (logger log (se_dur e)
         (query_token_as_bearer
           (auth_mw J secret (se_now e)
             (chi_serve chi
               [((''GET'', ''/healthz''), healthz),
                ((''*'', ''/sse''), require_auth (chi_serve chi (sse_routes subscribe)))]))))"

subsection \<open>Every handler answers\<close>

text \<open>
  A handler answers a request if it does not panic and sends a status, which it chooses once. It
  keeps a part \<open>f\<close> of the state if no answer changes that part.
\<close>

definition answered :: "rw_op list \<Rightarrow> bool" where
  "answered ops \<longleftrightarrow> sets_status_once ops \<and> rs_status (fold apply_op ops new_response) \<noteq> 0"

definition answers :: "'s handler \<Rightarrow> request \<Rightarrow> bool" where
  "answers h r \<longleftrightarrow> (\<forall>s. \<exists>ops s'. h r s = Inr (ops, s') \<and> answered ops)"

definition keeps :: "('s \<Rightarrow> 'x) \<Rightarrow> 's handler \<Rightarrow> request \<Rightarrow> bool" where
  "keeps f h r \<longleftrightarrow> (\<forall>s ops s'. h r s = Inr (ops, s') \<longrightarrow> f s' = f s)"

named_theorems answers_intros \<open>handlers that answer\<close>
named_theorems keeps_intros \<open>handlers that keep a part of the state\<close>

lemma write_json_answered: "st \<noteq> 0 \<Longrightarrow> answered (write_json st body)"
  by (simp add: answered_def write_json_once)
    (simp add: write_json_def send_header_def new_response_def Let_def split: sum.split)

lemma answered_simps:
  "st \<noteq> 0 \<Longrightarrow> answered (write_json st body)"
  "st \<noteq> 0 \<Longrightarrow> answered (write_error st tag message)"
  "st \<noteq> 0 \<Longrightarrow> answered (http_error message st)"
  "st \<noteq> 0 \<Longrightarrow> answered [WriteHeader st]"
  by (simp_all add: write_json_answered write_error_def)
    (simp_all add: answered_def http_error_def send_header_def new_response_def Let_def)

lemma answersI: "(\<And>s. \<exists>ops s'. h r s = Inr (ops, s') \<and> answered ops) \<Longrightarrow> answers h r"
  by (simp add: answers_def)

lemma chi_serve_cases:
  obtains (no_route) ops where "\<And>s. chi_serve chi routes r s = Inr (ops, s)" "answered ops"
  | (route) route params where "route \<in> set routes" "\<And>s. chi_serve chi routes r s = snd route (r\<lparr>rq_params := params\<rparr>) s"
proof (cases "chi (map fst routes) r")
  case (ChiMatch i params)
  show thesis
  proof (cases "i < length routes")
    case True
    with ChiMatch show ?thesis by (intro that(2) [of "routes ! i" params]) (simp_all add: chi_serve_def)
  next
    case False
    with ChiMatch show ?thesis
      by (intro that(1) [of "http_error ''404 page not found'' 404"]) (simp_all add: chi_serve_def answered_simps)
  qed
next
  case ChiNotFound
  then show thesis
    by (intro that(1) [of "http_error ''404 page not found'' 404"]) (simp_all add: chi_serve_def answered_simps)
next
  case ChiMethodNotAllowed
  then show thesis by (intro that(1) [of "[WriteHeader 405]"]) (simp_all add: chi_serve_def answered_simps)
qed

lemma answers_chi:
  assumes "\<And>route params. route \<in> set routes \<Longrightarrow> answers (snd route) (r\<lparr>rq_params := params\<rparr>)"
  shows "answers (chi_serve chi routes) r"
proof (cases rule: chi_serve_cases [of chi routes r])
  case (no_route ops)
  then show ?thesis by (simp add: answers_def)
next
  case (route route params)
  with assms [of route params] show ?thesis by (simp add: answers_def)
qed

lemma keeps_chi:
  assumes "\<And>route params. route \<in> set routes \<Longrightarrow> keeps f (snd route) (r\<lparr>rq_params := params\<rparr>)"
  shows "keeps f (chi_serve chi routes) r"
proof (cases rule: chi_serve_cases [of chi routes r])
  case (no_route ops)
  then show ?thesis by (simp add: keeps_def)
next
  case (route route params)
  with assms [of route params] show ?thesis by (simp add: keeps_def)
qed

lemma answers_on_feed [answers_intros]: "answers h r \<Longrightarrow> answers (on_feed h) r"
  unfolding answers_def on_feed_def by (metis (no_types, lifting) case_prod_conv sum_map_simps(2))

lemma answers_on_db [answers_intros]: "answers h r \<Longrightarrow> answers (on_db h) r"
  unfolding answers_def on_db_def by (metis (no_types, lifting) case_prod_conv sum_map_simps(2))

lemma keeps_on_feed [keeps_intros]: "keeps ds_http (on_feed h) r"
  by (auto simp: keeps_def on_feed_def sum_map_eq_Inr)

lemma keeps_on_db [keeps_intros]: "keeps (\<lambda>d. fd_bus (ds_feed d)) (on_feed (on_db h)) r"
  by (auto simp: keeps_def on_feed_def on_db_def sum_map_eq_Inr)

lemma answers_healthz [answers_intros]: "answers healthz r"
  by (rule answersI) (simp add: healthz_def answered_simps)

lemma keeps_healthz [keeps_intros]: "keeps f healthz r"
  by (simp add: keeps_def healthz_def)

lemma answers_require_auth:
  "(\<And>cl. rq_claims r = Some cl \<Longrightarrow> answers h r) \<Longrightarrow> answers (require_auth h) r"
  by (cases "rq_claims r") (simp_all add: answers_def require_auth_def answered_simps)

lemma keeps_require_auth:
  "(\<And>cl. rq_claims r = Some cl \<Longrightarrow> keeps f h r) \<Longrightarrow> keeps f (require_auth h) r"
  by (cases "rq_claims r") (simp_all add: keeps_def require_auth_def)

lemma auth_mw_cases:
  obtains (anonymous) "bearer_token r = ''''" "\<And>s. auth_mw J secret now h r s = h r s"
  | (refused) "\<And>s. auth_mw J secret now h r s = Inr (http_error ''invalid or expired token'' 401, s)"
  | (accepted) cl where "parse_access_token J (bearer_token r) secret now = Inr cl"
      "\<And>s. auth_mw J secret now h r s = h (r\<lparr>rq_claims := Some cl\<rparr>) s"
proof (cases "bearer_token r = ''''")
  case True
  with that(1) show thesis by (simp add: auth_mw_def)
next
  case False
  with that(2,3) show thesis
    by (cases "parse_access_token J (bearer_token r) secret now") (simp_all add: auth_mw_def)
qed

lemma answers_auth_mw:
  assumes "\<And>c. answers h (r\<lparr>rq_claims := c\<rparr>)"
  shows "answers (auth_mw J secret now h) r"
  using assms [of "rq_claims r"] assms
  by (cases rule: auth_mw_cases [of r J secret now h]) (simp_all add: answers_def answered_simps)

lemma keeps_auth_mw:
  assumes "\<And>c. keeps f h (r\<lparr>rq_claims := c\<rparr>)"
  shows "keeps f (auth_mw J secret now h) r"
  using assms [of "rq_claims r"] assms
  by (cases rule: auth_mw_cases [of r J secret now h]) (simp_all add: keeps_def)

lemma auth_handlers_answer [answers_intros]:
  "answers (handle_register A X e) r" "answers (handle_login A X e) r" "answers (handle_refresh A X e) r"
  "answers (handle_logout A X) r"
  by (rule answersI; simp add: handle_register_def handle_login_def handle_refresh_def handle_logout_def
      write_service_error_def answered_simps split: sum.split prod.split option.split service_error.split)+

lemma feed_handlers_answer [answers_intros]:
  assumes "rq_claims r = Some cl"
  shows "answers (handle_create_post F explain) r" "answers (handle_create_comment F explain) r"
    "answers (handle_upsert_reaction F explain) r" "answers (handle_get_post F) r"
  by (rule answersI; simp add: assms handle_create_post_def handle_create_comment_def handle_upsert_reaction_def
      handle_get_post_def claims_from_context_def answered_simps Let_def split: sum.split prod.split)+

lemma answers_auth_routes [answers_intros]: "answers (chi_serve chi (auth_routes A X e)) r"
  by (rule answers_chi) (auto simp: auth_routes_def intro: answers_intros)

lemma answers_feed_routes:
  assumes "rq_claims r = Some cl"
  shows "answers (chi_serve chi (feed_routes F explain)) r"
proof (rule answers_chi)
  fix route :: "('a, 'b) feed_state route" and params
  assume route: "route \<in> set (feed_routes F explain)"
  have "rq_claims (r\<lparr>rq_params := params\<rparr>) = Some cl" using assms by simp
  from route feed_handlers_answer [OF this, of F] show "answers (snd route) (r\<lparr>rq_params := params\<rparr>)"
    by (auto simp: feed_routes_def)
qed

text \<open>The dispatcher behind \<^verbatim>\<open>Auth\<close>.\<close>

definition dispatcher_inner ::
    "chi \<Rightarrow> 's auth_service \<Rightarrow> ('p, 'c, 'r, 's, 'b) feed_service \<Rightarrow> auth_text \<Rightarrow> serve_env \<Rightarrow>
       ('s, 'b) dispatcher_state handler" where
  "dispatcher_inner chi A F X e =
     chi_serve chi
       [((''GET'', ''/healthz''), healthz),
        ((''*'', ''/auth''), on_feed (on_db (chi_serve chi (auth_routes A X (se_auth e))))),
        ((''*'', ''/posts''), require_auth (on_feed (chi_serve chi (feed_routes F (at_explain X)))))]"

lemma dispatcher_inner_answers: "answers (dispatcher_inner chi A F X e) r"
proof -
  have "answers (on_feed (on_db (chi_serve chi (auth_routes A X (se_auth e))))) q"
    and "answers (require_auth (on_feed (chi_serve chi (feed_routes F (at_explain X))))) q" for q
    by (intro answers_on_feed answers_on_db answers_auth_routes)
      (intro answers_require_auth answers_on_feed answers_feed_routes)
  then show ?thesis unfolding dispatcher_inner_def by (intro answers_chi) (auto simp: answers_healthz)
qed

lemma keeps_guarded [keeps_intros]: "keeps ds_http (require_auth (on_feed h)) q"
  by (intro keeps_require_auth keeps_on_feed)

lemma keeps_refused: "rq_claims q = None \<Longrightarrow> keeps f (require_auth h) q"
  by (rule keeps_require_auth) simp

lemma dispatcher_inner_keeps: "keeps ds_http (dispatcher_inner chi A F X e) r"
  unfolding dispatcher_inner_def by (intro keeps_chi) (auto simp: keeps_intros)

lemma dispatcher_anonymous_keeps:
  "rq_claims r = None \<Longrightarrow> keeps (\<lambda>d. fd_bus (ds_feed d)) (dispatcher_inner chi A F X e) r"
  unfolding dispatcher_inner_def by (intro keeps_chi) (auto simp: keeps_intros keeps_refused)

lemma dispatcher_eq:
  "dispatcher chi A F X e =
     request_id (se_uuid e) (logger log_http (se_dur e)
       (auth_mw (as_jwt A) (ac_secret (as_cfg A)) (se_now e) (dispatcher_inner chi A F X e)))"
  by (simp add: dispatcher_def dispatcher_inner_def)

lemma log_http_simps [simp]: "ds_feed (log_http r st n dur d) = ds_feed d"
  by (simp add: log_http_def)

text \<open>Setting a header first changes neither the status nor the body.\<close>

definition same_answer :: "response \<Rightarrow> response \<Rightarrow> bool" where
  "same_answer w w' \<longleftrightarrow> rs_status w = rs_status w' \<and> rs_body w = rs_body w' \<and> rs_broken w = rs_broken w'"

lemma same_answer_fold: "same_answer w w' \<Longrightarrow> same_answer (fold apply_op ops w) (fold apply_op ops w')"
proof (induction ops arbitrary: w w')
  case (Cons op ops)
  have "same_answer (apply_op op w) (apply_op op w')"
    using Cons.prems by (cases op) (simp_all add: same_answer_def send_header_def Let_def)
  from Cons.IH [OF this] show ?case by simp
qed simp

lemma set_header_first:
  "rs_status (respond (SetHeader k v # ops)) = rs_status (respond ops)"
  "rs_body (respond (SetHeader k v # ops)) = rs_body (respond ops)"
  "rs_status (fold apply_op (SetHeader k v # ops) new_response) = rs_status (fold apply_op ops new_response)"
proof -
  have "same_answer (apply_op (SetHeader k v) new_response) new_response" by (simp add: same_answer_def)
  from same_answer_fold [OF this, of ops]
  show "rs_status (respond (SetHeader k v # ops)) = rs_status (respond ops)"
    "rs_body (respond (SetHeader k v # ops)) = rs_body (respond ops)"
    "rs_status (fold apply_op (SetHeader k v # ops) new_response) = rs_status (fold apply_op ops new_response)"
    by (simp_all add: respond_def send_header_def same_answer_def)
qed

text \<open>The dispatcher, taken apart: what \<^verbatim>\<open>Auth\<close> and the routes answer, then the log line, then the header.\<close>

lemma dispatcher_run:
  obtains ops d1 id where "answered ops"
    "auth_mw (as_jwt A) (ac_secret (as_cfg A)) (se_now e) (dispatcher_inner chi A F X e) (r\<lparr>rq_request_id := Some id\<rparr>) d = Inr (ops, d1)"
    "dispatcher chi A F X e r d = Inr (SetHeader request_id_header id # ops,
       log_http (r\<lparr>rq_request_id := Some id\<rparr>) (rs_status (respond ops)) (length (rs_body (respond ops))) (se_dur e) d1)"
    "id = (let h = value_of (rq_header r) request_id_header in if h = '''' then se_uuid e else h)"
proof -
  define id where "id = (let h = value_of (rq_header r) request_id_header in if h = '''' then se_uuid e else h)"
  let ?r = "r\<lparr>rq_request_id := Some id\<rparr>"
  let ?h = "auth_mw (as_jwt A) (ac_secret (as_cfg A)) (se_now e) (dispatcher_inner chi A F X e)"
  have "answers ?h ?r" by (intro answers_auth_mw dispatcher_inner_answers)
  then obtain ops d1 where run: "?h ?r d = Inr (ops, d1)" and ok: "answered ops" unfolding answers_def by metis
  have once: "sets_status_once ops" and sent: "rs_status (fold apply_op ops new_response) \<noteq> 0"
    using ok by (simp_all add: answered_def)
  have "rs_status (fold apply_op ops new_response) = rs_status (respond ops)"
    using sent by (simp add: respond_def send_header_def)
  with logger_line [where inner = ?h and log = log_http and dur = "se_dur e", OF run once]
  have "dispatcher chi A F X e r d = Inr (SetHeader request_id_header id # ops,
      log_http ?r (rs_status (respond ops)) (length (rs_body (respond ops))) (se_dur e) d1)"
    by (simp add: dispatcher_eq request_id_def id_def Let_def)
  with ok run id_def show thesis by (intro that)
qed

subsection \<open>Properties\<close>

text \<open>
  C31. The dispatcher serves every request. Whatever the method, path, headers and body, and whatever
  the repositories, the bus and the token library answer, no handler panics: a status is sent,
  the response carries the request id, and exactly one log line is written, with the
  method and path of the request, the id, the status that was sent and the number of bytes that were
  written to the body. These are the bytes sent to the client, except for a \<^verbatim>\<open>HEAD\<close> request: there
  the client gets no body, and the log shows bytes that were not sent.
\<close>

theorem dispatcher_serves:
  "\<exists>ops d' line. dispatcher chi A F X e r d = Inr (ops, d') \<and> ds_http d' = ds_http d @ [line] \<and>
     rs_status (fold apply_op ops new_response) \<noteq> 0 \<and>
     hl_status line = rs_status (respond ops) \<and> hl_bytes line = length (rs_body (respond ops)) \<and>
     length (client_body r (respond ops)) = (if rq_method r = ''HEAD'' then 0 else hl_bytes line) \<and>
     hl_method line = rq_method r \<and> hl_path line = rq_path r \<and>
     SetHeader request_id_header (hl_request_id line) \<in> set ops"
proof (rule dispatcher_run [of A e chi F X r d])
  fix ops d1 id
  assume ok: "answered ops"
    and run: "auth_mw (as_jwt A) (ac_secret (as_cfg A)) (se_now e) (dispatcher_inner chi A F X e) (r\<lparr>rq_request_id := Some id\<rparr>) d =
      Inr (ops, d1)"
    and all: "dispatcher chi A F X e r d = Inr (SetHeader request_id_header id # ops,
       log_http (r\<lparr>rq_request_id := Some id\<rparr>) (rs_status (respond ops)) (length (rs_body (respond ops))) (se_dur e) d1)"
  have "keeps ds_http (auth_mw (as_jwt A) (ac_secret (as_cfg A)) (se_now e) (dispatcher_inner chi A F X e))
      (r\<lparr>rq_request_id := Some id\<rparr>)"
    by (intro keeps_auth_mw dispatcher_inner_keeps)
  with run have "ds_http d1 = ds_http d" unfolding keeps_def by blast
  moreover have "rs_status (respond ops) \<noteq> 0" by (simp add: respond_def send_header_def)
  moreover have "sets_status_once (SetHeader request_id_header id # ops)" using ok by (simp add: answered_def)
  moreover have "rs_status (fold apply_op (SetHeader request_id_header id # ops) new_response) \<noteq> 0"
    unfolding set_header_first using ok by (simp add: answered_def)
  ultimately show ?thesis
    using all ok
    by (simp add: log_http_def set_header_first request_id_from_context_def answered_def client_body_def del: fold_simps)
qed

text \<open>
  C32. Nothing is published without a token. If a request moves the bus, it carried a bearer token
  that is signed under the server's secret with an HMAC method and is inside its time window.
\<close>

theorem dispatcher_publish_authenticated:
  assumes "jwt_ok (as_jwt A) sig" and "rq_claims r = None"
    and "dispatcher chi A F X e r d = Inr (ops, d')" and "fd_bus (ds_feed d') \<noteq> fd_bus (ds_feed d)"
  shows "\<exists>alg c. sig (bearer_token r) (HMAC alg) c (ac_secret (as_cfg A)) \<and> in_window c (se_now e)"
proof (rule dispatcher_run [of A e chi F X r d])
  fix ops1 d1 id
  let ?r = "r\<lparr>rq_request_id := Some id\<rparr>" and ?h = "dispatcher_inner chi A F X e"
  assume run: "auth_mw (as_jwt A) (ac_secret (as_cfg A)) (se_now e) ?h ?r d = Inr (ops1, d1)"
    and all: "dispatcher chi A F X e r d = Inr (SetHeader request_id_header id # ops1,
       log_http ?r (rs_status (respond ops1)) (length (rs_body (respond ops1))) (se_dur e) d1)"
  have moved: "fd_bus (ds_feed d1) \<noteq> fd_bus (ds_feed d)" using all assms(3,4) by auto
  have token: "bearer_token ?r = bearer_token r" by (simp add: bearer_token_def)
  show ?thesis
  proof (cases rule: auth_mw_cases [of ?r "as_jwt A" "ac_secret (as_cfg A)" "se_now e" ?h])
    case anonymous
    with run have "?h ?r d = Inr (ops1, d1)" by simp
    with dispatcher_anonymous_keeps [of ?r chi A F X e] assms(2) have "fd_bus (ds_feed d1) = fd_bus (ds_feed d)"
      unfolding keeps_def by simp
    with moved show ?thesis by simp
  next
    case refused
    with run moved show ?thesis by simp
  next
    case (accepted cl)
    from jwt_ok_parse [OF assms(1) accepted(1)] token show ?thesis by metis
  qed
qed

text \<open>For the witness: a request for a comment with the token of \<open>single_lib\<close>.\<close>

definition comment_chi :: chi where
  "comment_chi table r = (if length table = 3 then ChiMatch 2 [] else ChiMatch 2 [(''postID'', ''p1'')])"

definition token_comment :: request where
  "token_comment =
     \<lparr>rq_method = ''POST'', rq_path = ''/posts/p1/comments'', rq_header = [(''Authorization'', ''Bearer jwt'')], rq_query = [],
      rq_params = [], rq_body = print_string_fields [(''body'', ''hi'')], rq_request_id = None, rq_claims = None\<rparr>"

definition demo_serve :: serve_env where
  "demo_serve = \<lparr>se_uuid = ''id1'', se_dur = 0, se_now = 5, se_auth = demo_env None\<rparr>"

definition no_auth :: "string list auth_service" where
  "no_auth =
     \<lparr>as_users = \<lparr>ur_create = (\<lambda>n s. (Inl (RepoFailure ''''), s)), ur_get_by_username = (\<lambda>n s. Inl ErrNotFound),
        ur_get_by_id = (\<lambda>i s. Inl ErrNotFound)\<rparr>,
      as_tokens = \<lparr>tr_create = (\<lambda>n s. (Inl (RepoFailure ''''), s)), tr_get_by_hash = (\<lambda>h s. Inl ErrNotFound),
        tr_revoke = (\<lambda>i new s. (Some ErrNotFound, s)), tr_revoke_all = (\<lambda>i s. (None, s)), tr_is_active = (\<lambda>r t. False)\<rparr>,
      as_cfg = \<lparr>ac_secret = ''key'', ac_access_ttl = 60 * 10 ^ 9, ac_refresh_ttl = 3600 * 10 ^ 9\<rparr>,
      as_bcrypt = plain_bcrypt, as_jwt = single_lib ''u1'' ''ann''\<rparr>"

definition empty_dispatcher :: "(string list, (string \<times> bytes) list) dispatcher_state" where
  "empty_dispatcher = \<lparr>ds_feed = empty_feed, ds_http = []\<rparr>"

lemma token_comment_bearer: "bearer_token token_comment = ''jwt''"
proof -
  have "equal_fold ''Bearer '' bearer_prefix" by (simp add: bearer_prefix_def)
  moreover have "value_of (rq_header token_comment) ''Authorization'' = ''Bearer '' @ ''jwt''"
    by (simp add: token_comment_def value_of_def)
  ultimately have "bearer_token token_comment = trim_space ''jwt''" by (rule bearer_token_of)
  with trim_space_id [OF jwt_visible] show ?thesis by simp
qed

lemma token_comment_published:
  "\<exists>ops d' payload. dispatcher comment_chi no_auth demo_feed demo_text demo_serve token_comment empty_dispatcher = Inr (ops, d') \<and>
     fd_bus (ds_feed d') = [(''post:p1'', payload)]"
proof (rule dispatcher_run [of no_auth demo_serve comment_chi demo_feed demo_text token_comment empty_dispatcher])
  fix ops d1 id
  let ?cl = "minute_claims ''u1'' ''ann''"
  let ?r = "token_comment\<lparr>rq_request_id := Some id\<rparr>"
  let ?q = "?r\<lparr>rq_claims := Some ?cl, rq_params := [(''postID'', ''p1'')]\<rparr>"
  assume run: "auth_mw (as_jwt no_auth) (ac_secret (as_cfg no_auth)) (se_now demo_serve)
      (dispatcher_inner comment_chi no_auth demo_feed demo_text demo_serve) ?r empty_dispatcher = Inr (ops, d1)"
    and all: "dispatcher comment_chi no_auth demo_feed demo_text demo_serve token_comment empty_dispatcher =
      Inr (SetHeader request_id_header id # ops,
        log_http ?r (rs_status (respond ops)) (length (rs_body (respond ops))) (se_dur demo_serve) d1)"
  have bearer: "bearer_token ?r = ''jwt''" using token_comment_bearer by (simp add: bearer_token_def)
  have ids: "rq_claims ?q = Some ?cl" "ul_parse (fs_uuid demo_feed) (cl_user_id ?cl) = Inr ''u1''"
    "ul_parse (fs_uuid demo_feed) (value_of (rq_params ?q) ''postID'') = Inr ''p1''"
    "rq_body ?q = print_string_fields [(''body'', ''hi'')]"
    by (simp_all add: demo_feed_def demo_uuid_def minute_claims_def value_of_def token_comment_def)
  have utf: "utf8_ok ''hi''" by (simp add: utf8_ok_ascii)
  have len: "length (rq_body ?q) \<le> 2 ^ 20"
    by (simp add: token_comment_def print_string_fields_def json_quote_def quote_body.simps quote_char_def html_special_def)
  have trim: "trim_space ''hi'' \<noteq> ''''"
    using trim_space_id [OF no_outer_space_visible [of "''hi''"]] by (simp add: visible_def)
  obtain hops st' where handled: "handle_create_comment demo_feed (at_explain demo_text) ?q empty_feed = Inr (hops, st')"
    and stored: "snd (feed_create_comment demo_feed ''p1'' ''u1'' ''hi'' empty_feed) = st'"
    using comment_sent [OF ids utf len, of "at_explain demo_text" empty_feed] trim by auto
  obtain payload where "fd_bus st' = [(''post:p1'', payload)]"
    using comment_on_wire stored by blast
  moreover have "auth_mw (as_jwt no_auth) (ac_secret (as_cfg no_auth)) (se_now demo_serve)
      (dispatcher_inner comment_chi no_auth demo_feed demo_text demo_serve) ?r empty_dispatcher =
      Inr (hops, empty_dispatcher\<lparr>ds_feed := st'\<rparr>)"
    using bearer handled
    by (simp add: auth_mw_def parse_access_token_def no_auth_def single_lib_def access_key_def hs256_def demo_serve_def
        dispatcher_inner_def chi_serve_def comment_chi_def require_auth_def on_feed_def feed_routes_def empty_dispatcher_def)
  ultimately show ?thesis using run all by auto
qed

theorem dispatcher_publish_authenticated_witness:
  "\<exists>alg c. single_sig ''u1'' ''ann'' ''jwt'' (HMAC alg) c ''key'' \<and> in_window c 5"
proof -
  obtain ops d' payload where run: "dispatcher comment_chi no_auth demo_feed demo_text demo_serve token_comment empty_dispatcher = Inr (ops, d')"
    and bus: "fd_bus (ds_feed d') = [(''post:p1'', payload)]"
    using token_comment_published by blast
  have jwt: "jwt_ok (as_jwt no_auth) (single_sig ''u1'' ''ann'')" using single_lib_ok by (simp add: no_auth_def)
  have fresh: "rq_claims token_comment = None" by (simp add: token_comment_def)
  have moved: "fd_bus (ds_feed d') \<noteq> fd_bus (ds_feed empty_dispatcher)"
    by (simp add: bus empty_dispatcher_def empty_feed_def)
  from dispatcher_publish_authenticated [OF jwt fresh run moved] token_comment_bearer show ?thesis
    by (simp add: no_auth_def demo_serve_def)
qed

subsection \<open>The gateway\<close>

text \<open>The request that the next handler sees, and its bearer token.\<close>

definition with_query_token :: "request \<Rightarrow> request" where
  "with_query_token r =
     (if value_of (rq_header r) ''Authorization'' = '''' \<and> value_of (rq_query r) ''access_token'' \<noteq> ''''
      then r\<lparr>rq_header := gm_put ''Authorization'' (''Bearer '' @ value_of (rq_query r) ''access_token'') (rq_header r)\<rparr>
      else r)"

definition presented_token :: "request \<Rightarrow> string" where
  "presented_token r =
     (if value_of (rq_header r) ''Authorization'' = '''' then value_of (rq_query r) ''access_token'' else bearer_token r)"

lemma query_token_eq: "query_token_as_bearer inner r s = inner (with_query_token r) s"
  by (simp add: query_token_as_bearer_def with_query_token_def Let_def)

lemma with_query_token_claims [simp]: "rq_claims (with_query_token r) = rq_claims r"
  by (simp add: with_query_token_def)

lemma with_query_token_bearer:
  assumes "no_outer_space (value_of (rq_query r) ''access_token'')"
  shows "bearer_token (with_query_token r) = presented_token r"
proof (cases "value_of (rq_header r) ''Authorization'' = '''' \<and> value_of (rq_query r) ''access_token'' \<noteq> ''''")
  case True
  have "value_of (rq_header (with_query_token r)) ''Authorization'' = ''Bearer '' @ value_of (rq_query r) ''access_token''"
    using True by (simp add: with_query_token_def value_of_def)
  then have "bearer_token (with_query_token r) = value_of (rq_query r) ''access_token''"
    using bearer_token_of [of "''Bearer ''" "with_query_token r"] trim_space_id [OF assms] by (simp add: bearer_prefix_def)
  with True show ?thesis by (simp add: presented_token_def)
next
  case False
  then show ?thesis by (auto simp: with_query_token_def presented_token_def bearer_token_def)
qed

lemma presented_token_id [simp]: "presented_token (r\<lparr>rq_request_id := i\<rparr>) = presented_token r"
  by (simp add: presented_token_def bearer_token_def)

definition gateway_inner :: "chi \<Rightarrow> 's handler \<Rightarrow> 's handler" where
  "gateway_inner chi subscribe =
     chi_serve chi
       [((''GET'', ''/healthz''), healthz),
        ((''*'', ''/sse''), require_auth (chi_serve chi (sse_routes subscribe)))]"

lemma gateway_inner_anonymous:
  "rq_claims r = None \<Longrightarrow> gateway_inner chi subscribe r s = gateway_inner chi subscribe' r s"
  by (simp add: gateway_inner_def chi_serve_def require_auth_def less_Suc_eq split: chi_result.split)

subsection \<open>The gateway: properties\<close>

text \<open>
  C33. The stream handler of the gateway is out of reach without a token. If it makes any difference
  to the answer which handler is mounted at the subscription route, the request carried, in its
  header or, without one, in \<^verbatim>\<open>?access_token=\<close>, a token that is signed under the server's secret
  with an HMAC method and is inside its time window.
\<close>

theorem gateway_subscribe_authenticated:
  assumes "jwt_ok J sig" and "rq_claims r = None" and "no_outer_space (value_of (rq_query r) ''access_token'')"
    and "gateway_router chi J secret log subscribe e r s \<noteq> gateway_router chi J secret log subscribe' e r s"
  shows "\<exists>alg c. sig (presented_token r) (HMAC alg) c secret \<and> in_window c (se_now e)"
proof -
  let ?id = "let h = value_of (rq_header r) request_id_header in if h = '''' then se_uuid e else h"
  let ?r = "r\<lparr>rq_request_id := Some ?id\<rparr>"
  let ?q = "with_query_token ?r"
  have run: "gateway_router chi J secret log sub e r s =
      sum_map (\<lambda>(ops, s). (SetHeader request_id_header ?id # ops, s))
        (logger log (se_dur e) (\<lambda>r. auth_mw J secret (se_now e) (gateway_inner chi sub) (with_query_token r)) ?r s)" for sub
    by (simp add: gateway_router_def gateway_inner_def request_id_def Let_def logger_def query_token_eq)
  have token: "bearer_token ?q = presented_token r"
    using with_query_token_bearer [of ?r] assms(3) by simp
  have claims: "rq_claims ?q = None" using assms(2) by simp
  have "\<exists>cl. parse_access_token J (bearer_token ?q) secret (se_now e) = Inr cl"
  proof (rule ccontr)
    assume none: "\<nexists>cl. parse_access_token J (bearer_token ?q) secret (se_now e) = Inr cl"
    have "auth_mw J secret (se_now e) (gateway_inner chi subscribe) ?q s = auth_mw J secret (se_now e) (gateway_inner chi subscribe') ?q s" for s
      using none gateway_inner_anonymous [OF claims, of chi subscribe s subscribe']
      by (cases "parse_access_token J (bearer_token ?q) secret (se_now e)") (simp_all add: auth_mw_def Let_def)
    with assms(4) show False by (simp add: run logger_def)
  qed
  then obtain cl where "parse_access_token J (bearer_token ?q) secret (se_now e) = Inr cl" ..
  from jwt_ok_parse [OF assms(1) this] token show ?thesis by metis
qed

text \<open>For the witness: an \<^verbatim>\<open>EventSource\<close> request.\<close>

definition stream_request :: request where
  "stream_request =
     \<lparr>rq_method = ''PUT'', rq_path = ''/sse/posts/p1/subscriptions'', rq_header = [], rq_query = [(''access_token'', ''jwt'')],
      rq_params = [], rq_body = [], rq_request_id = None, rq_claims = None\<rparr>"

definition stream_chi :: chi where
  "stream_chi table r = (if length table = 2 then ChiMatch 1 [] else ChiMatch 0 [(''postID'', ''p1'')])"

lemma stream_token: "presented_token stream_request = ''jwt''" "no_outer_space (value_of (rq_query stream_request) ''access_token'')"
  using jwt_visible by (simp_all add: presented_token_def stream_request_def value_of_def)

lemma stream_reaches:
  "gateway_router stream_chi (single_lib ''u1'' ''ann'') ''key'' (\<lambda>r st n d s. s) (\<lambda>r s. Inr ([], s + k)) demo_serve stream_request (0 :: nat) =
     Inr ([SetHeader request_id_header ''id1''], k)"
proof -
  let ?r = "stream_request\<lparr>rq_request_id := Some ''id1''\<rparr>"
  have token: "bearer_token (with_query_token ?r) = ''jwt''"
    using with_query_token_bearer [of ?r] stream_token by simp
  have "value_of (rq_header stream_request) request_id_header = ''''" by (simp add: stream_request_def value_of_def)
  with token show ?thesis
    by (simp add: gateway_router_def request_id_def logger_def query_token_eq auth_mw_def parse_access_token_def single_lib_def
        access_key_def hs256_def demo_serve_def chi_serve_def stream_chi_def require_auth_def sse_routes_def)
qed

theorem gateway_subscribe_authenticated_witness:
  "\<exists>alg c. single_sig ''u1'' ''ann'' ''jwt'' (HMAC alg) c ''key'' \<and> in_window c 5"
proof -
  let ?g = "\<lambda>k. gateway_router stream_chi (single_lib ''u1'' ''ann'') ''key'' (\<lambda>r st n d s. s) (\<lambda>r s. Inr ([], s + k)) demo_serve stream_request (0 :: nat)"
  have "?g 1 \<noteq> ?g 2" unfolding stream_reaches by simp
  moreover have fresh: "rq_claims stream_request = None" by (simp add: stream_request_def)
  ultimately show ?thesis
    using gateway_subscribe_authenticated [where chi = stream_chi and e = demo_serve and secret = "''key''" and s = "0 :: nat"
        and log = "\<lambda>r st n d s. s" and subscribe = "\<lambda>r s. Inr ([], s + 1)" and subscribe' = "\<lambda>r s. Inr ([], s + 2)",
        OF single_lib_ok fresh stream_token(2)] stream_token(1)
    by (simp add: demo_serve_def)
qed

end
