(* ===== verification/Gorm.thy ===== *)
theory Gorm
  imports Prelude
begin

text \<open>
  What the repositories of \<^verbatim>\<open>internal/repository\<close> use of gorm and PostgreSQL.

  gorm is a parameter: one table is a record of functions over a state \<open>'s\<close> (\<open>gorm\<close>), rows have
  a type \<open>'r\<close>, and the SQL that the repositories write is the datatype \<open>cond\<close> and the record
  \<open>query\<close>. The locale \<open>gorm_table\<close> states what the repositories rely on, over the table as a
  finite map from primary keys to rows: the documented meaning of Create, First, Find, Updates
  and Delete. A row deleted softly is not in the map. Each statement may fail without effect.

  The five shapes of method that the repositories consist of are \<open>create_row\<close>, \<open>first_row\<close>,
  \<open>list_rows\<close>, \<open>update_row\<close> and \<open>delete_row\<close>. The locale \<open>crud\<close> is the contract of three of
  them; \<open>table_crud\<close> shows that they keep it over any such table.

  Numbers are \<open>nat\<close> (Go's uint) and \<open>int\<close>: no repository computes with them. A \<^verbatim>\<open>time.Time\<close> is an
  \<open>int\<close>, 0 for the zero time.
\<close>

subsection \<open>Values, conditions, statements\<close>

datatype sql_value = Null | Uint nat | IntV int | Text string | Bool bool | Time int

definition uint_ptr :: "nat option \<Rightarrow> sql_value" where
  "uint_ptr p = (case p of None \<Rightarrow> Null | Some n \<Rightarrow> Uint n)"

definition time_ptr :: "int option \<Rightarrow> sql_value" where
  "time_ptr p = (case p of None \<Rightarrow> Null | Some t \<Rightarrow> Time t)"

datatype cond = PrimaryKey nat | Eq string sql_value | Or cond cond

text \<open>In SQL a comparison with NULL never holds.\<close>

fun cond_holds :: "(string \<Rightarrow> sql_value) \<Rightarrow> cond \<Rightarrow> bool" where
  "cond_holds row (PrimaryKey n) \<longleftrightarrow> row ''id'' = Uint n"
| "cond_holds row (Eq c v) \<longleftrightarrow> v \<noteq> Null \<and> row c = v"
| "cond_holds row (Or p q) \<longleftrightarrow> cond_holds row p \<or> cond_holds row q"

definition where_holds :: "(string \<Rightarrow> sql_value) \<Rightarrow> cond option \<Rightarrow> bool" where
  "where_holds row c = (case c of None \<Rightarrow> True | Some c \<Rightarrow> cond_holds row c)"

datatype direction = ASC | DESC

fun sort_rank :: "sql_value \<Rightarrow> int" where
  "sort_rank (Uint n) = int n"
| "sort_rank (IntV i) = i"
| "sort_rank (Time t) = t"
| "sort_rank _ = 0"

text \<open>\<open>may_precede keys a b\<close>: an ORDER BY over \<open>keys\<close> allows \<open>a\<close> before \<open>b\<close>.\<close>

fun may_precede :: "(string \<times> direction) list \<Rightarrow> (string \<Rightarrow> sql_value) \<Rightarrow> (string \<Rightarrow> sql_value) \<Rightarrow> bool" where
  "may_precede [] a b = True"
| "may_precede ((c, d) # ks) a b =
     (let x = sort_rank (a c); y = sort_rank (b c)
      in if x = y then may_precede ks a b else case d of ASC \<Rightarrow> x < y | DESC \<Rightarrow> y < x)"

record query =
  q_where :: "cond option"
  q_order :: "(string \<times> direction) list"
  q_limit :: int
  q_offset :: int

datatype gorm_error = ErrRecordNotFound | DbError string

record ('r, 's) gorm =
  g_create :: "'r \<Rightarrow> 's \<Rightarrow> (gorm_error + 'r) \<times> 's"
  g_first :: "cond \<Rightarrow> 's \<Rightarrow> gorm_error + 'r"
  g_find :: "query \<Rightarrow> 's \<Rightarrow> gorm_error + 'r list"
  g_updates :: "cond \<Rightarrow> (string \<times> sql_value) list \<Rightarrow> 's \<Rightarrow> (gorm_error + nat) \<times> 's"
  g_delete :: "nat \<Rightarrow> 's \<Rightarrow> (gorm_error + nat) \<times> 's"

subsection \<open>The shapes of the repository methods\<close>

text \<open>\<open>Errorf format args cause\<close> is the error of \<^verbatim>\<open>fmt.Errorf\<close> with a \<^verbatim>\<open>%w\<close> for its cause.\<close>

datatype store_error = NotFound | Errorf string "sql_value list" gorm_error

definition create_row :: "string \<Rightarrow> ('r, 's) gorm \<Rightarrow> 'r \<Rightarrow> 's \<Rightarrow> (store_error + 'r) \<times> 's" where
  "create_row format db row s =
     (case g_create db row s of
        (Inl err, s) \<Rightarrow> (Inl (Errorf format [] err), s)
      | (Inr row, s) \<Rightarrow> (Inr row, s))"

definition first_row :: "string \<Rightarrow> sql_value list \<Rightarrow> ('r, 's) gorm \<Rightarrow> cond \<Rightarrow> 's \<Rightarrow> store_error + 'r" where
  "first_row format args db c s =
     (case g_first db c s of
        Inl err \<Rightarrow> (if err = ErrRecordNotFound then Inl NotFound else Inl (Errorf format args err))
      | Inr row \<Rightarrow> Inr row)"

definition get_row :: "string \<Rightarrow> ('r, 's) gorm \<Rightarrow> nat \<Rightarrow> 's \<Rightarrow> store_error + 'r" where
  "get_row format db i s = first_row format [Uint i] db (PrimaryKey i) s"

definition list_rows ::
    "string \<Rightarrow> sql_value list \<Rightarrow> ('r, 's) gorm \<Rightarrow> int \<Rightarrow> cond option \<Rightarrow> (string \<times> direction) list \<Rightarrow>
     int \<Rightarrow> int \<Rightarrow> 's \<Rightarrow> store_error + 'r list" where
  "list_rows format args db fallback c order limit offset s =
     (let limit = (if limit \<le> 0 then fallback else limit)
      in case g_find db \<lparr>q_where = c, q_order = order, q_limit = limit, q_offset = offset\<rparr> s of
           Inl err \<Rightarrow> Inl (Errorf format args err)
         | Inr rows \<Rightarrow> Inr rows)"

definition update_row ::
    "string \<Rightarrow> ('r, 's) gorm \<Rightarrow> (nat \<Rightarrow> 's \<Rightarrow> store_error + 'r) \<Rightarrow> nat \<Rightarrow> (string \<times> sql_value) list \<Rightarrow>
     's \<Rightarrow> (store_error + 'r) \<times> 's" where
  "update_row format db get_by_id i updates s =
     (case g_updates db (Eq ''id'' (Uint i)) updates s of
        (Inl err, s) \<Rightarrow> (Inl (Errorf format [Uint i] err), s)
      | (Inr rows_affected, s) \<Rightarrow>
          if rows_affected = 0 then (Inl NotFound, s) else (get_by_id i s, s))"

definition delete_row :: "string \<Rightarrow> ('r, 's) gorm \<Rightarrow> nat \<Rightarrow> 's \<Rightarrow> store_error option \<times> 's" where
  "delete_row format db i s =
     (case g_delete db i s of
        (Inl err, s) \<Rightarrow> (Some (Errorf format [Uint i] err), s)
      | (Inr rows_affected, s) \<Rightarrow> (if rows_affected = 0 then Some NotFound else None, s))"

subsection \<open>The contract of a repository with primary keys\<close>

text \<open>
  \<open>tbl\<close> is the table behind a state, \<open>key\<close> the primary key of a row, \<open>stored_as r row\<close> says how a
  row that Create returned may differ from the one it stored, \<open>ok\<close> is the consistency of the
  database. A failed call leaves the table as it was.
\<close>

locale crud =
  fixes create :: "'i \<Rightarrow> 's \<Rightarrow> (store_error + 'r) \<times> 's"
    and get :: "nat \<Rightarrow> 's \<Rightarrow> store_error + 'r"
    and delete :: "nat \<Rightarrow> 's \<Rightarrow> store_error option \<times> 's"
    and tbl :: "'s \<Rightarrow> nat \<Rightarrow> 'r option"
    and key :: "'r \<Rightarrow> nat"
    and stored_as :: "'r \<Rightarrow> 'r \<Rightarrow> bool"
    and ok :: "'s \<Rightarrow> bool"
  assumes get_hit: "ok s \<Longrightarrow> get i s = Inr r \<Longrightarrow> tbl s i = Some r"
    and get_miss: "ok s \<Longrightarrow> get i s = Inl NotFound \<Longrightarrow> tbl s i = None"
    and create_keeps_ok: "ok s \<Longrightarrow> create input s = (x, s') \<Longrightarrow> ok s'"
    and create_fails: "ok s \<Longrightarrow> create input s = (Inl e, s') \<Longrightarrow> tbl s' = tbl s"
    and create_done:
      "ok s \<Longrightarrow> create input s = (Inr r', s') \<Longrightarrow>
         tbl s (key r') = None \<and> (\<exists>row. stored_as r' row \<and> tbl s' = (tbl s)(key r' \<mapsto> row))"
    and delete_keeps_ok: "ok s \<Longrightarrow> delete i s = (y, s') \<Longrightarrow> ok s'"
    and delete_done: "ok s \<Longrightarrow> delete i s = (None, s') \<Longrightarrow> tbl s i \<noteq> None \<and> tbl s' = (tbl s)(i := None)"
    and delete_miss: "ok s \<Longrightarrow> delete i s = (Some NotFound, s') \<Longrightarrow> tbl s i = None"
    and delete_fails: "ok s \<Longrightarrow> delete i s = (Some e, s') \<Longrightarrow> tbl s' = tbl s"
begin

lemma get_cases:
  assumes "ok s"
  shows "(\<exists>r. tbl s i = Some r \<and> get i s = Inr r) \<or> (tbl s i = None \<and> get i s = Inl NotFound) \<or>
         (\<exists>e. e \<noteq> NotFound \<and> get i s = Inl e)"
  using get_hit [OF assms, of i] get_miss [OF assms, of i] by (cases "get i s") fastforce+

lemma get_some:
  assumes "ok s" and "tbl s i = Some r"
  shows "get i s = Inr r \<or> (\<exists>e. e \<noteq> NotFound \<and> get i s = Inl e)"
  using get_cases [OF assms(1), of i] assms(2) by auto

lemma get_none:
  assumes "ok s" and "tbl s i = None"
  shows "\<exists>e. get i s = Inl e"
  using get_cases [OF assms(1), of i] assms(2) by auto

lemma create_get:
  assumes "ok s" and "create input s = (Inr r', s')"
  shows "\<exists>row. tbl s (key r') = None \<and> stored_as r' row \<and> tbl s' = (tbl s)(key r' \<mapsto> row) \<and>
    (get (key r') s' = Inr row \<or> (\<exists>e. e \<noteq> NotFound \<and> get (key r') s' = Inl e))"
proof -
  from create_done [OF assms] obtain row where new: "tbl s (key r') = None"
    and row: "stored_as r' row" "tbl s' = (tbl s)(key r' \<mapsto> row)" by blast
  moreover from row(2) have "tbl s' (key r') = Some row" by simp
  ultimately show ?thesis using get_some [OF create_keeps_ok [OF assms]] by blast
qed

lemma delete_get:
  assumes "ok s" and "delete i s = (None, s')"
  shows "\<exists>e. get i s' = Inl e"
  using get_none [OF delete_keeps_ok [OF assms]] delete_done [OF assms] by simp

lemma delete_twice:
  assumes "ok s" and "delete i s = (None, s')" and "delete i s' = (y, s'')"
  shows "y \<noteq> None \<and> tbl s'' = tbl s'"
  using delete_done [OF assms(1,2)] delete_done [OF delete_keeps_ok [OF assms(1,2)], of i s''] assms(3)
    delete_fails [OF delete_keeps_ok [OF assms(1,2)], of i _ s''] by (cases y) auto

end

subsection \<open>Orders and pages\<close>

lemma may_precede_total: "may_precede ks a b \<or> may_precede ks b a"
  by (induction ks) (auto simp: Let_def split: direction.splits)

lemma may_precede_trans: "may_precede ks a b \<Longrightarrow> may_precede ks b c \<Longrightarrow> may_precede ks a c"
  by (induction ks) (auto simp: Let_def split: direction.splits if_splits)

lemma may_precede_antisym:
  "may_precede ks a b \<Longrightarrow> may_precede ks b a \<Longrightarrow> (c, d) \<in> set ks \<Longrightarrow> sort_rank (a c) = sort_rank (b c)"
  by (induction ks) (auto simp: Let_def split: direction.splits if_splits)

lemma sorted_wrt_unique:
  assumes "sorted_wrt R xs" and "sorted_wrt R ys" and "distinct xs" and "distinct ys" and "set xs = set ys"
    and "\<And>x y. x \<in> set xs \<Longrightarrow> y \<in> set xs \<Longrightarrow> R x y \<Longrightarrow> R y x \<Longrightarrow> x = y"
  shows "xs = ys"
  using assms
proof (induction xs arbitrary: ys)
  case (Cons x xs)
  then obtain y zs where ys: "ys = y # zs" by (cases ys) auto
  have "x = y"
  proof (rule ccontr)
    assume "x \<noteq> y"
    then have "x \<in> set zs" "y \<in> set xs" using Cons.prems(5) ys by auto
    then have "R y x" "R x y" using Cons.prems(1,2) ys by auto
    then show False using Cons.prems(6) [of x y] \<open>x \<noteq> y\<close> \<open>y \<in> set xs\<close> by auto
  qed
  moreover have "set xs = set zs" using Cons.prems(3-5) ys \<open>x = y\<close> by auto
  ultimately show ?case using Cons.IH [of zs] Cons.prems ys by auto
qed simp

lemma concat_pages: "concat (map (\<lambda>i. take n (drop (i * n) L)) [0..<k]) = take (k * n) L"
proof (induction k)
  case (Suc k)
  have "take (k * n) L @ take n (drop (k * n) L) = take (k * n + n) L" by (simp add: take_add)
  then show ?case using Suc by (simp add: add.commute)
qed simp

subsection \<open>What the repositories rely on\<close>

definition zero_value :: "sql_value \<Rightarrow> bool" where
  "zero_value v \<longleftrightarrow> v \<in> {Null, Uint 0, IntV 0, Text [], Bool False, Time 0}"

text \<open>
  Create fills in the columns \<open>auto\<close> of the struct, and those that have a default and the zero value;
  it leaves the other fields alone, and writes the result. Updates sets the columns named and the
  columns \<open>stamps\<close>. A time of Go counts nanoseconds, PostgreSQL keeps microseconds: \<open>kept v w\<close> says that
  \<open>w\<close> may be what is stored for \<open>v\<close>. Create does not read the times back, so the struct it has filled in
  may differ that much from the row.
\<close>

definition kept :: "sql_value \<Rightarrow> sql_value \<Rightarrow> bool" where
  "kept v w = (case (v, w) of (Time t, Time t') \<Rightarrow> \<bar>t' - t\<bar> < 1000 | _ \<Rightarrow> w = v)"

lemma kept_refl [simp]: "kept v v"
  by (cases v) (simp_all add: kept_def)

lemma kept_simps [simp]:
  "kept Null w \<longleftrightarrow> w = Null" "kept (Uint n) w \<longleftrightarrow> w = Uint n" "kept (IntV i) w \<longleftrightarrow> w = IntV i"
  "kept (Text x) w \<longleftrightarrow> w = Text x" "kept (Bool b) w \<longleftrightarrow> w = Bool b" "kept (Time t) (Time t') \<longleftrightarrow> \<bar>t' - t\<bar> < 1000"
  by (simp_all add: kept_def)

definition row_kept :: "('r \<Rightarrow> string \<Rightarrow> sql_value) \<Rightarrow> 'r \<Rightarrow> 'r \<Rightarrow> bool" where
  "row_kept col r row \<longleftrightarrow> (\<forall>c. kept (col r c) (col row c))"

definition created :: "string set \<Rightarrow> (string \<Rightarrow> sql_value option) \<Rightarrow> (string \<Rightarrow> sql_value) \<Rightarrow> (string \<Rightarrow> sql_value) \<Rightarrow> bool" where
  "created auto dflt old new \<longleftrightarrow>
     (\<forall>c. c \<notin> auto \<longrightarrow>
        new c = (case dflt c of None \<Rightarrow> old c | Some d \<Rightarrow> if zero_value (old c) then d else old c))"

definition changed :: "string set \<Rightarrow> (string \<times> sql_value) list \<Rightarrow> (string \<Rightarrow> sql_value) \<Rightarrow> (string \<Rightarrow> sql_value) \<Rightarrow> bool" where
  "changed stamps updates old new \<longleftrightarrow>
     (\<forall>c. c \<notin> stamps \<longrightarrow> (case map_of updates c of None \<Rightarrow> new c = old c | Some v \<Rightarrow> kept v (new c)))"

definition row_key :: "('r \<Rightarrow> string \<Rightarrow> sql_value) \<Rightarrow> 'r \<Rightarrow> nat" where
  "row_key col r = (case col r ''id'' of Uint i \<Rightarrow> i | _ \<Rightarrow> 0)"

locale gorm_table =
  fixes db :: "('r, 's) gorm"
    and tbl :: "'s \<Rightarrow> nat \<Rightarrow> 'r option"
    and col :: "'r \<Rightarrow> string \<Rightarrow> sql_value"
    and auto stamps :: "string set"
    and dflt :: "string \<Rightarrow> sql_value option"
    and ok :: "'s \<Rightarrow> bool"
  assumes keyed: "ok s \<Longrightarrow> tbl s i = Some r \<Longrightarrow> col r ''id'' = Uint i"
    and finite_table: "ok s \<Longrightarrow> finite (dom (tbl s))"
    and id_fixed: "''id'' \<notin> stamps"
    and create_ok: "ok s \<Longrightarrow> g_create db r s = (x, s') \<Longrightarrow> ok s'"
    and create_error: "ok s \<Longrightarrow> g_create db r s = (Inl e, s') \<Longrightarrow> tbl s' = tbl s"
    and create_new: "ok s \<Longrightarrow> g_create db r s = (Inr r', s') \<Longrightarrow>
      created auto dflt (col r) (col r') \<and>
      (\<exists>i row. tbl s i = None \<and> tbl s' = (tbl s)(i \<mapsto> row) \<and> row_kept col r' row)"
    and first_found: "ok s \<Longrightarrow> g_first db c s = Inr r \<Longrightarrow> r \<in> ran (tbl s) \<and> cond_holds (col r) c"
    and first_none: "ok s \<Longrightarrow> g_first db c s = Inl ErrRecordNotFound \<Longrightarrow> \<forall>r\<in>ran (tbl s). \<not> cond_holds (col r) c"
    and find_rows: "ok s \<Longrightarrow> g_find db q s = Inr rs \<Longrightarrow> 0 < q_limit q \<Longrightarrow>
      \<exists>L. distinct L \<and> set L = {r \<in> ran (tbl s). where_holds (col r) (q_where q)} \<and>
          sorted_wrt (\<lambda>a b. may_precede (q_order q) (col a) (col b)) L \<and>
          rs = take (nat (q_limit q)) (drop (nat (q_offset q)) L)"
    and updates_ok: "ok s \<Longrightarrow> g_updates db c us s = (x', s') \<Longrightarrow> ok s'"
    and updates_error: "ok s \<Longrightarrow> g_updates db c us s = (Inl e, s') \<Longrightarrow> tbl s' = tbl s"
    and updates_rows: "ok s \<Longrightarrow> g_updates db c us s = (Inr n, s') \<Longrightarrow>
      n = card {i. \<exists>r. tbl s i = Some r \<and> cond_holds (col r) c} \<and>
      (\<exists>f. (\<forall>r\<in>ran (tbl s). cond_holds (col r) c \<longrightarrow> changed stamps us (col r) (col (f r))) \<and>
           tbl s' = (\<lambda>i. map_option (\<lambda>r. if cond_holds (col r) c then f r else r) (tbl s i)))"
    and delete_ok: "ok s \<Longrightarrow> g_delete db i s = (x', s') \<Longrightarrow> ok s'"
    and delete_error: "ok s \<Longrightarrow> g_delete db i s = (Inl e, s') \<Longrightarrow> tbl s' = tbl s"
    and delete_rows: "ok s \<Longrightarrow> g_delete db i s = (Inr n, s') \<Longrightarrow>
      n = (if tbl s i = None then 0 else 1) \<and> tbl s' = (tbl s)(i := None)"
begin

lemma ran_key: "ok s \<Longrightarrow> r \<in> ran (tbl s) \<Longrightarrow> \<exists>i. tbl s i = Some r \<and> col r ''id'' = Uint i"
  by (auto simp: ran_def dest: keyed)

lemma by_key:
  assumes "ok s" and "tbl s j = Some r" and "col r ''id'' = Uint i"
  shows "j = i"
  using keyed [OF assms(1,2)] assms(3) by simp

lemma key_inj: "ok s \<Longrightarrow> a \<in> ran (tbl s) \<Longrightarrow> b \<in> ran (tbl s) \<Longrightarrow> col a ''id'' = col b ''id'' \<Longrightarrow> a = b"
  by (metis ran_key option.inject sql_value.inject(1))

lemma get_row_cases:
  assumes "ok s"
  shows "get_row f db i s = Inr r \<Longrightarrow> tbl s i = Some r"
    and "get_row f db i s = Inl NotFound \<Longrightarrow> tbl s i = None"
proof -
  assume "get_row f db i s = Inr r"
  then have "g_first db (PrimaryKey i) s = Inr r" by (simp add: get_row_def first_row_def split: sum.splits if_splits)
  then show "tbl s i = Some r" using first_found [OF assms] ran_key [OF assms] by fastforce
next
  assume "get_row f db i s = Inl NotFound"
  then have "g_first db (PrimaryKey i) s = Inl ErrRecordNotFound"
    by (simp add: get_row_def first_row_def split: sum.splits if_splits)
  then have *: "\<forall>r\<in>ran (tbl s). col r ''id'' \<noteq> Uint i" using first_none [OF assms] by fastforce
  show "tbl s i = None"
  proof (cases "tbl s i")
    case (Some r)
    then show ?thesis using * keyed [OF assms Some] by (auto simp: ran_def)
  qed
qed

lemma row_key_of: "ok s \<Longrightarrow> tbl s i = Some r \<Longrightarrow> row_key col r = i"
  by (simp add: row_key_def keyed)

text \<open>A repository builds the row to be created from its input.\<close>

lemma table_crud: "crud (\<lambda>input. create_row f db (row input)) (get_row g db) (delete_row h db) tbl (row_key col)
    (row_kept col) ok"
proof unfold_locales
  fix s s' r r' x y i e input
  assume ok: "ok s"
  show "get_row g db i s = Inr r \<Longrightarrow> tbl s i = Some r" by (rule get_row_cases [OF ok])
  show "get_row g db i s = Inl NotFound \<Longrightarrow> tbl s i = None" by (rule get_row_cases [OF ok])
  show "create_row f db (row input) s = (x, s') \<Longrightarrow> ok s'"
    using create_ok [OF ok] by (auto simp: create_row_def split: prod.splits sum.splits)
  show "create_row f db (row input) s = (Inl e, s') \<Longrightarrow> tbl s' = tbl s"
    using create_error [OF ok] by (auto simp: create_row_def split: prod.splits sum.splits)
  show "delete_row h db i s = (y, s') \<Longrightarrow> ok s'"
    using delete_ok [OF ok] by (auto simp: delete_row_def split: prod.splits sum.splits)
  show "delete_row h db i s = (None, s') \<Longrightarrow> tbl s i \<noteq> None \<and> tbl s' = (tbl s)(i := None)"
    using delete_rows [OF ok, of i] by (auto simp: delete_row_def split: prod.splits sum.splits if_splits)
  show "delete_row h db i s = (Some NotFound, s') \<Longrightarrow> tbl s i = None"
    using delete_rows [OF ok, of i] by (auto simp: delete_row_def split: prod.splits sum.splits if_splits)
  show "delete_row h db i s = (Some e, s') \<Longrightarrow> tbl s' = tbl s"
    using delete_rows [OF ok, of i] delete_error [OF ok, of i]
    by (auto simp: delete_row_def split: prod.splits sum.splits if_splits)
  show "tbl s (row_key col r') = None \<and>
      (\<exists>row. row_kept col r' row \<and> tbl s' = (tbl s)(row_key col r' \<mapsto> row))"
    if "create_row f db (row input) s = (Inr r', s')"
  proof -
    have c: "g_create db (row input) s = (Inr r', s')"
      using that by (auto simp: create_row_def split: prod.splits sum.splits)
    obtain j row where j: "tbl s j = None" "tbl s' = (tbl s)(j \<mapsto> row)" "row_kept col r' row"
      using create_new [OF ok c] by blast
    have "col row ''id'' = Uint j" using keyed [OF create_ok [OF ok c], of j row] j(2) by simp
    then have "col r' ''id'' = Uint j" using j(3) by (cases "col r' ''id''") (auto simp: row_kept_def kept_def dest!: spec [of _ "''id''"])
    then have "row_key col r' = j" by (simp add: row_key_def)
    then show ?thesis using j by blast
  qed
qed

lemma create_row_written:
  assumes "ok s" and "create_row f db r s = (Inr r', s')"
  shows "created auto dflt (col r) (col r')"
proof -
  have "g_create db r s = (Inr r', s')"
    using assms(2) by (auto simp: create_row_def split: prod.splits sum.splits)
  from create_new [OF assms(1) this] show ?thesis by simp
qed

lemma updates_by_key:
  assumes ok: "ok s" and u: "g_updates db (Eq ''id'' (Uint i)) us s = (Inr n, s')"
  shows "(tbl s i = None \<and> n = 0 \<and> tbl s' = tbl s) \<or>
         (\<exists>old new. tbl s i = Some old \<and> n = 1 \<and> changed stamps us (col old) (col new) \<and> tbl s' = (tbl s)(i \<mapsto> new))"
proof -
  let ?hit = "\<lambda>r. cond_holds (col r) (Eq ''id'' (Uint i))"
  have hit: "?hit r \<longleftrightarrow> j = i" if "tbl s j = Some r" for j r using keyed [OF ok that] by simp
  obtain f where f: "\<forall>r\<in>ran (tbl s). ?hit r \<longrightarrow> changed stamps us (col r) (col (f r))"
    and t: "tbl s' = (\<lambda>j. map_option (\<lambda>r. if ?hit r then f r else r) (tbl s j))"
    and n: "n = card {j. \<exists>r. tbl s j = Some r \<and> ?hit r}"
    using updates_rows [OF ok u] by blast
  have row: "tbl s' j = (if j = i then map_option f (tbl s j) else tbl s j)" for j
    using hit [of j] unfolding t by (cases "tbl s j") auto
  show ?thesis
  proof (cases "tbl s i")
    case None
    have "{j. \<exists>r. tbl s j = Some r \<and> ?hit r} = {}" using hit None by fastforce
    then have "n = 0" unfolding n by (simp only: card.empty)
    moreover have "tbl s' = tbl s" by (rule ext) (simp add: row None)
    ultimately show ?thesis using None by simp
  next
    case (Some old)
    have "{j. \<exists>r. tbl s j = Some r \<and> ?hit r} = {i}" using hit Some by fastforce
    then have "n = 1" unfolding n by simp
    moreover have "tbl s' = (tbl s)(i \<mapsto> f old)" by (rule ext) (simp add: row Some)
    moreover have "changed stamps us (col old) (col (f old))" using f hit [OF Some] Some by (auto simp: ran_def)
    ultimately show ?thesis using Some by blast
  qed
qed

lemma update_row_cases:
  assumes ok: "ok s" and u: "update_row f db (get_row g db) i us s = (res, s')"
  obtains (failed) e where "res = Inl (Errorf f [Uint i] e)" "tbl s' = tbl s"
    | (missing) "res = Inl NotFound" "tbl s i = None" "tbl s' = tbl s"
    | (updated) old new where "tbl s i = Some old" "changed stamps us (col old) (col new)"
        "tbl s' = (tbl s)(i \<mapsto> new)" "res = Inr new \<or> (\<exists>e. e \<noteq> ErrRecordNotFound \<and> res = Inl (Errorf g [Uint i] e))"
proof (cases "g_updates db (Eq ''id'' (Uint i)) us s")
  case (Pair x t)
  show thesis
  proof (cases x)
    case (Inl e)
    then show thesis using failed [of e] u Pair updates_error [OF ok Pair [unfolded Inl]] by (auto simp: update_row_def)
  next
    case (Inr n)
    note up = Pair [unfolded Inr]
    show thesis using updates_by_key [OF ok up]
    proof
      assume "tbl s i = None \<and> n = 0 \<and> tbl t = tbl s"
      then show thesis using missing u up by (auto simp: update_row_def)
    next
      assume "\<exists>old new. tbl s i = Some old \<and> n = 1 \<and> changed stamps us (col old) (col new) \<and> tbl t = (tbl s)(i \<mapsto> new)"
      then obtain old new where r: "tbl s i = Some old" "n = 1" "changed stamps us (col old) (col new)" "tbl t = (tbl s)(i \<mapsto> new)"
        by blast
      have res: "s' = t" "res = get_row g db i t" using u up r(2) by (auto simp: update_row_def)
      have "tbl t i = Some new" using r(4) by simp
      then have "res = Inr new \<or> (\<exists>e. e \<noteq> ErrRecordNotFound \<and> res = Inl (Errorf g [Uint i] e))"
        using get_row_cases [OF updates_ok [OF ok up], of g i] unfolding res
        by (cases "g_first db (PrimaryKey i) t") (auto simp: get_row_def first_row_def)
      then show thesis using updated r res by blast
    qed
  qed
qed

lemma update_row_ok:
  assumes "ok s" and "update_row f db get i us s = (res, s')"
  shows "ok s'"
  using updates_ok [OF assms(1)] assms(2) by (auto simp: update_row_def split: prod.splits sum.splits if_splits)

lemma list_row_cases:
  assumes "ok s" and "0 < fallback" and "list_rows f args db fallback c order limit offset s = Inr rs"
  obtains L where "distinct L" "set L = {r \<in> ran (tbl s). where_holds (col r) c}"
    "sorted_wrt (\<lambda>a b. may_precede order (col a) (col b)) L"
    "rs = take (nat (if limit \<le> 0 then fallback else limit)) (drop (nat offset) L)"
proof -
  let ?limit = "if limit \<le> 0 then fallback else limit"
  have "g_find db \<lparr>q_where = c, q_order = order, q_limit = ?limit, q_offset = offset\<rparr> s = Inr rs"
    using assms(3) by (auto simp: list_rows_def Let_def split: sum.splits)
  moreover have "0 < ?limit" using assms(2) by simp
  ultimately show thesis using find_rows [OF assms(1), of "\<lparr>q_where = c, q_order = order, q_limit = ?limit, q_offset = offset\<rparr>" rs] that
    by simp blast
qed

text \<open>An order that ends in the primary key determines the whole list.\<close>

lemma listing_unique:
  assumes ok: "ok s" and id: "(''id'', d) \<in> set order"
    and L: "distinct L" "set L = {r \<in> ran (tbl s). P r}" "sorted_wrt (\<lambda>a b. may_precede order (col a) (col b)) L"
    and M: "distinct M" "set M = {r \<in> ran (tbl s). P r}" "sorted_wrt (\<lambda>a b. may_precede order (col a) (col b)) M"
  shows "L = M"
proof (rule sorted_wrt_unique [OF L(3) M(3) L(1) M(1)])
  show "set L = set M" using L(2) M(2) by simp
next
  fix x y
  assume xy: "x \<in> set L" "y \<in> set L" "may_precede order (col x) (col y)" "may_precede order (col y) (col x)"
  have "sort_rank (col x ''id'') = sort_rank (col y ''id'')" by (rule may_precede_antisym [OF xy(3,4) id])
  moreover obtain i j where "col x ''id'' = Uint i" "col y ''id'' = Uint j"
    using ran_key [OF ok] xy(1,2) L(2) by blast
  ultimately show "x = y" using key_inj [OF ok, of x y] xy(1,2) L(2) by auto
qed

lemma listing_pages:
  assumes ok: "ok s" and id: "(''id'', d) \<in> set order" and pos: "0 < fallback" "0 < n" "0 < k"
    and pages: "\<And>i. i < k \<Longrightarrow> list_rows f args db fallback c order (int n) (int (i * n)) s = Inr (pg i)"
  shows "\<exists>L. distinct L \<and> set L = {r \<in> ran (tbl s). where_holds (col r) c} \<and>
             sorted_wrt (\<lambda>a b. may_precede order (col a) (col b)) L \<and> concat (map pg [0..<k]) = take (k * n) L"
proof -
  obtain L where L: "distinct L" "set L = {r \<in> ran (tbl s). where_holds (col r) c}"
    "sorted_wrt (\<lambda>a b. may_precede order (col a) (col b)) L"
    by (rule list_row_cases [OF ok pos(1) pages [OF pos(3)]])
  have page: "pg i = take n (drop (i * n) L)" if i: "i < k" for i
  proof -
    obtain M where M: "distinct M" "set M = {r \<in> ran (tbl s). where_holds (col r) c}"
      "sorted_wrt (\<lambda>a b. may_precede order (col a) (col b)) M"
      "pg i = take (nat (if int n \<le> 0 then fallback else int n)) (drop (nat (int (i * n))) M)"
      by (rule list_row_cases [OF ok pos(1) pages [OF i]])
    have "L = M" by (rule listing_unique [OF ok id L M(1-3)])
    moreover have "nat (if int n \<le> 0 then fallback else int n) = n" using pos(2) by simp
    ultimately show ?thesis using M(4) by (simp only: nat_int)
  qed
  have "map pg [0..<k] = map (\<lambda>i. take n (drop (i * n) L)) [0..<k]" using page by simp
  then have "concat (map pg [0..<k]) = take (k * n) L" by (metis concat_pages)
  then show ?thesis using L by blast
qed

end

end
