(* ===== verification/GormMemory.thy ===== *)
theory GormMemory
  imports Gorm
begin

text \<open>
  A table in memory that does what the repositories rely on: the database that the witnesses run
  on. \<open>mem_model\<close> says how rows of a type are filled in, stored, written and read by column; \<open>tie\<close> says
  for which queries rows that the ORDER BY leaves undecided come out latest first, since SQL
  leaves their order open for every query anew.
\<close>

record 'r mem_model =
  mm_col :: "'r \<Rightarrow> string \<Rightarrow> sql_value"
  mm_fits :: "string \<Rightarrow> sql_value \<Rightarrow> bool"
  mm_set :: "string \<Rightarrow> sql_value \<Rightarrow> 'r \<Rightarrow> 'r"
  mm_fill :: "nat \<Rightarrow> 'r \<Rightarrow> 'r"
  mm_store :: "'r \<Rightarrow> 'r"

definition model_ok :: "'r mem_model \<Rightarrow> string set \<Rightarrow> (string \<Rightarrow> sql_value option) \<Rightarrow> bool" where
  "model_ok M auto dflt \<longleftrightarrow>
     (\<forall>c v r c'. mm_fits M c v \<longrightarrow> mm_col M (mm_set M c v r) c' = (if c' = c then v else mm_col M r c')) \<and>
     (\<forall>v. \<not> mm_fits M ''id'' v) \<and>
     (\<forall>i r. mm_col M (mm_fill M i r) ''id'' = Uint i \<and> created auto dflt (mm_col M r) (mm_col M (mm_fill M i r))) \<and>
     (\<forall>r. row_kept (mm_col M) r (mm_store M r))"

record 'r mem_table =
  mt_next :: nat
  mt_rows :: "(nat \<times> 'r) list"

definition mem_tbl :: "'r mem_table \<Rightarrow> nat \<Rightarrow> 'r option" where
  "mem_tbl m = map_of (mt_rows m)"

definition mem_table_ok :: "'r mem_model \<Rightarrow> 'r mem_table \<Rightarrow> bool" where
  "mem_table_ok M m \<longleftrightarrow>
     distinct (map fst (mt_rows m)) \<and> (\<forall>(i, r)\<in>set (mt_rows m). i < mt_next m \<and> mm_col M r ''id'' = Uint i)"

fun place :: "('a \<Rightarrow> 'a \<Rightarrow> bool) \<Rightarrow> 'a \<Rightarrow> 'a list \<Rightarrow> 'a list" where
  "place R x [] = [x]"
| "place R x (y # ys) = (if R x y then x # y # ys else y # place R x ys)"

definition order_rows :: "('a \<Rightarrow> 'a \<Rightarrow> bool) \<Rightarrow> 'a list \<Rightarrow> 'a list" where
  "order_rows R xs = foldr (place R) xs []"

fun set_columns :: "'r mem_model \<Rightarrow> (string \<times> sql_value) list \<Rightarrow> 'r \<Rightarrow> 'r" where
  "set_columns M [] r = r"
| "set_columns M ((c, v) # us) r = mm_set M c v (set_columns M us r)"

definition mem_listing :: "'r mem_model \<Rightarrow> (query \<Rightarrow> bool) \<Rightarrow> query \<Rightarrow> 'r mem_table \<Rightarrow> 'r list" where
  "mem_listing M tie q m =
     (let rows = filter (\<lambda>r. where_holds (mm_col M r) (q_where q)) (map snd (mt_rows m))
      in order_rows (\<lambda>a b. may_precede (q_order q) (mm_col M a) (mm_col M b)) (if tie q then rev rows else rows))"

definition mem_gorm :: "'r mem_model \<Rightarrow> (query \<Rightarrow> bool) \<Rightarrow> ('r, 'r mem_table) gorm" where
  "mem_gorm M tie =
     \<lparr>g_create = (\<lambda>r m.
        let r' = mm_fill M (mt_next m) r
        in (Inr r', \<lparr>mt_next = mt_next m + 1, mt_rows = (mt_next m, mm_store M r') # mt_rows m\<rparr>)),
      g_first = (\<lambda>c m. case find (\<lambda>r. cond_holds (mm_col M r) c) (map snd (mt_rows m)) of
        None \<Rightarrow> Inl ErrRecordNotFound | Some r \<Rightarrow> Inr r),
      g_find = (\<lambda>q m. Inr (take (nat (q_limit q)) (drop (nat (q_offset q)) (mem_listing M tie q m)))),
      g_updates = (\<lambda>c us m.
        if list_all (\<lambda>(c, v). mm_fits M c v) us then
          (Inr (length (filter (\<lambda>(i, r). cond_holds (mm_col M r) c) (mt_rows m))),
           m\<lparr>mt_rows := map (\<lambda>(i, r). (i, if cond_holds (mm_col M r) c then set_columns M us r else r)) (mt_rows m)\<rparr>)
        else (Inl (DbError ''no such column''), m)),
      g_delete = (\<lambda>i m.
        (Inr (if i \<in> fst ` set (mt_rows m) then 1 else 0), m\<lparr>mt_rows := AList.delete i (mt_rows m)\<rparr>))\<rparr>"

lemma set_place [simp]: "set (place R x ys) = insert x (set ys)"
  by (induction ys) auto

lemma distinct_place [simp]: "distinct (place R x ys) \<longleftrightarrow> x \<notin> set ys \<and> distinct ys"
  by (induction ys) auto

lemma sorted_place:
  assumes "\<And>a b. R a b \<or> R b a" and "\<And>a b c. R a b \<Longrightarrow> R b c \<Longrightarrow> R a c" and "sorted_wrt R ys"
  shows "sorted_wrt R (place R x ys)"
  using assms(3)
proof (induction ys)
  case (Cons y ys)
  have "R x y \<Longrightarrow> \<forall>z\<in>set ys. R x z" using Cons.prems assms(2) [of x y] by auto
  moreover have "\<not> R x y \<Longrightarrow> R y x" using assms(1) by blast
  ultimately show ?case using Cons by auto
qed simp

lemma set_order_rows [simp]: "set (order_rows R xs) = set xs"
  unfolding order_rows_def by (induction xs) auto

lemma distinct_order_rows [simp]: "distinct (order_rows R xs) \<longleftrightarrow> distinct xs"
proof -
  have "set (foldr (place R) xs []) = set xs" by (induction xs) auto
  then show ?thesis unfolding order_rows_def by (induction xs) (auto simp: order_rows_def [symmetric])
qed

lemma sorted_order_rows:
  assumes "\<And>a b. R a b \<or> R b a" and "\<And>a b c. R a b \<Longrightarrow> R b c \<Longrightarrow> R a c"
  shows "sorted_wrt R (order_rows R xs)"
  unfolding order_rows_def
proof (induction xs)
  case (Cons x xs)
  have "sorted_wrt R (place R x (foldr (place R) xs []))" using assms Cons.IH by (rule sorted_place)
  then show ?case by simp
qed simp

lemma set_columns_changed:
  assumes "model_ok M auto dflt" and "list_all (\<lambda>(c, v). mm_fits M c v) us"
  shows "changed stamps us (mm_col M r) (mm_col M (set_columns M us r))"
proof -
  have "mm_col M (set_columns M us r) c = (case map_of us c of None \<Rightarrow> mm_col M r c | Some v \<Rightarrow> v)" for c
    using assms(2) by (induction us) (use assms(1) in \<open>auto simp: model_ok_def split: option.splits\<close>)
  then show ?thesis by (simp add: changed_def split: option.split)
qed

lemma ran_mem: "ran (mem_tbl m) = snd ` set (mt_rows m)" if "mem_table_ok M m"
  using that ran_distinct [of "mt_rows m"] by (simp add: mem_table_ok_def mem_tbl_def)

lemma mem_listing:
  assumes ok: "mem_table_ok M m"
  shows "distinct (mem_listing M tie q m)" "set (mem_listing M tie q m) = {r \<in> ran (mem_tbl m). where_holds (mm_col M r) (q_where q)}"
    "sorted_wrt (\<lambda>a b. may_precede (q_order q) (mm_col M a) (mm_col M b)) (mem_listing M tie q m)"
proof -
  have rows: "distinct (map fst (mt_rows m))" "\<forall>(i, r)\<in>set (mt_rows m). mm_col M r ''id'' = Uint i"
    using ok by (auto simp: mem_table_ok_def)
  then have "distinct (map snd (mt_rows m))"
    by (auto simp: distinct_map inj_on_def split: prod.splits) (metis sql_value.inject(1))
  then show "distinct (mem_listing M tie q m)" by (simp add: mem_listing_def Let_def)
  show "set (mem_listing M tie q m) = {r \<in> ran (mem_tbl m). where_holds (mm_col M r) (q_where q)}"
    by (auto simp: mem_listing_def Let_def ran_mem [OF ok])
  show "sorted_wrt (\<lambda>a b. may_precede (q_order q) (mm_col M a) (mm_col M b)) (mem_listing M tie q m)"
    unfolding mem_listing_def Let_def
    by (rule sorted_order_rows) (rule may_precede_total, erule may_precede_trans, assumption)
qed

lemma map_of_map_rows: "map_of (map (\<lambda>(i, r). (i, f r)) xs) = (\<lambda>i. map_option f (map_of xs i))"
  by (rule ext) (induction xs, auto)

lemma mem_updates_ok:
  assumes model: "model_ok M auto dflt" and ok: "mem_table_ok M m" and fits: "list_all (\<lambda>(c, v). mm_fits M c v) us"
  shows "mem_table_ok M (m\<lparr>mt_rows := map (\<lambda>(i, r). (i, if P r then set_columns M us r else r)) (mt_rows m)\<rparr>)"
proof -
  have "mm_col M (set_columns M us r) ''id'' = mm_col M r ''id''" for r
    using fits by (induction us) (use model in \<open>auto simp: model_ok_def\<close>)
  then show ?thesis using ok by (auto simp: mem_table_ok_def o_def split_def)
qed

lemma card_rows:
  assumes "distinct (map fst xs)"
  shows "length (filter (\<lambda>(i, r). P r) xs) = card {i. \<exists>r. map_of xs i = Some r \<and> P r}"
proof -
  have "{i. \<exists>r. map_of xs i = Some r \<and> P r} = fst ` set (filter (\<lambda>(i, r). P r) xs)"
    using assms by (force simp: image_iff)
  moreover have "distinct (map fst (filter (\<lambda>(i, r). P r) xs))" by (rule distinct_map_filter [OF assms])
  then have "card (set (map fst (filter (\<lambda>(i, r). P r) xs))) = length (map fst (filter (\<lambda>(i, r). P r) xs))"
    by (rule distinct_card)
  ultimately show ?thesis by simp
qed

lemma mem_gorm_table:
  assumes model: "model_ok M auto dflt" and id: "''id'' \<notin> stamps"
  shows "gorm_table (mem_gorm M tie) mem_tbl (mm_col M) auto stamps dflt (mem_table_ok M)"
proof unfold_locales
  show "''id'' \<notin> stamps" by (rule id)
  fix m m' x x' r r' e i c q rs us n
  assume ok: "mem_table_ok M m"
  then have rows: "distinct (map fst (mt_rows m))" "\<And>j r. (j, r) \<in> set (mt_rows m) \<Longrightarrow> j < mt_next m \<and> mm_col M r ''id'' = Uint j"
    by (auto simp: mem_table_ok_def)
  have stored: "mm_col M (mm_store M (mm_fill M i r)) ''id'' = Uint i" for i r
  proof -
    have "kept (mm_col M (mm_fill M i r) ''id'') (mm_col M (mm_store M (mm_fill M i r)) ''id'')"
      using model unfolding model_ok_def row_kept_def by blast
    then show ?thesis using model by (simp add: model_ok_def)
  qed
  have fresh: "mt_next m \<notin> fst ` set (mt_rows m)" using rows(2) by force
  show "mem_tbl m i = Some r \<Longrightarrow> mm_col M r ''id'' = Uint i"
    using rows(2) by (auto simp: mem_tbl_def dest: map_of_SomeD)
  show "finite (dom (mem_tbl m))" by (simp add: mem_tbl_def finite_dom_map_of)
  show "g_create (mem_gorm M tie) r m = (x, m') \<Longrightarrow> mem_table_ok M m'"
    using ok fresh stored rows(2) by (auto simp: mem_gorm_def Let_def mem_table_ok_def less_Suc_eq)
  show "g_create (mem_gorm M tie) r m = (Inl e, m') \<Longrightarrow> mem_tbl m' = mem_tbl m"
    by (simp add: mem_gorm_def Let_def)
  show "g_create (mem_gorm M tie) r m = (Inr r', m') \<Longrightarrow>
      created auto dflt (mm_col M r) (mm_col M r') \<and>
      (\<exists>i row. mem_tbl m i = None \<and> mem_tbl m' = (mem_tbl m)(i \<mapsto> row) \<and> row_kept (mm_col M) r' row)"
    using fresh model
    by (auto simp: mem_gorm_def Let_def mem_tbl_def model_ok_def map_of_eq_None_iff intro!: exI [of _ "mt_next m"])
  show "g_first (mem_gorm M tie) c m = Inr r \<Longrightarrow> r \<in> ran (mem_tbl m) \<and> cond_holds (mm_col M r) c"
    by (auto simp: mem_gorm_def ran_mem [OF ok] find_Some_iff split: option.splits)
  show "g_first (mem_gorm M tie) c m = Inl ErrRecordNotFound \<Longrightarrow> \<forall>r\<in>ran (mem_tbl m). \<not> cond_holds (mm_col M r) c"
    by (auto simp: mem_gorm_def ran_mem [OF ok] find_None_iff split: option.splits)
  show "g_find (mem_gorm M tie) q m = Inr rs \<Longrightarrow> 0 < q_limit q \<Longrightarrow>
      \<exists>L. distinct L \<and> set L = {r \<in> ran (mem_tbl m). where_holds (mm_col M r) (q_where q)} \<and>
          sorted_wrt (\<lambda>a b. may_precede (q_order q) (mm_col M a) (mm_col M b)) L \<and>
          rs = take (nat (q_limit q)) (drop (nat (q_offset q)) L)"
    using mem_listing [OF ok, where tie = tie and q = q] by (auto simp: mem_gorm_def intro!: exI [of _ "mem_listing M tie q m"])
  show "g_updates (mem_gorm M tie) c us m = (x', m') \<Longrightarrow> mem_table_ok M m'"
    using mem_updates_ok [OF model ok, of us] ok by (auto simp: mem_gorm_def split: if_splits)
  show "g_updates (mem_gorm M tie) c us m = (Inl e, m') \<Longrightarrow> mem_tbl m' = mem_tbl m"
    by (auto simp: mem_gorm_def split: if_splits)
  show "g_updates (mem_gorm M tie) c us m = (Inr n, m') \<Longrightarrow>
      n = card {i. \<exists>r. mem_tbl m i = Some r \<and> cond_holds (mm_col M r) c} \<and>
      (\<exists>f. (\<forall>r\<in>ran (mem_tbl m). cond_holds (mm_col M r) c \<longrightarrow> changed stamps us (mm_col M r) (mm_col M (f r))) \<and>
           mem_tbl m' = (\<lambda>i. map_option (\<lambda>r. if cond_holds (mm_col M r) c then f r else r) (mem_tbl m i)))"
    using set_columns_changed [OF model, of us stamps] card_rows [OF rows(1), of "\<lambda>r. cond_holds (mm_col M r) c"]
    by (auto simp: mem_gorm_def mem_tbl_def map_of_map_rows split: if_splits intro!: exI [of _ "set_columns M us"])
  show "g_delete (mem_gorm M tie) i m = (x', m') \<Longrightarrow> mem_table_ok M m'"
    using ok by (auto simp: mem_gorm_def mem_table_ok_def distinct_map_filter AList.delete_eq)
  show "g_delete (mem_gorm M tie) i m = (Inl e, m') \<Longrightarrow> mem_tbl m' = mem_tbl m"
    by (simp add: mem_gorm_def)
  show "g_delete (mem_gorm M tie) i m = (Inr n, m') \<Longrightarrow>
      n = (if mem_tbl m i = None then 0 else 1) \<and> mem_tbl m' = (mem_tbl m)(i := None)"
    by (cases "i \<in> fst ` set (mt_rows m)") (auto simp: mem_gorm_def mem_tbl_def map_of_eq_None_iff delete_conv' image_iff)
qed

end
