(* ===== verification/Models.thy ===== *)
theory Models
  imports Gorm
begin

text \<open>
  The structs of \<^verbatim>\<open>internal/models\<close> as records, and what gorm's naming strategy and tags make of
  them: \<open>X_col\<close> reads a row by column name, \<open>X_auto\<close> are the columns that Create fills in itself,
  \<open>X_default\<close> the defaults that replace a zero value on Create (a default equal to the zero value
  is left out: it changes nothing).

  The fields for associations (\<^verbatim>\<open>Customer\<close>, \<^verbatim>\<open>Comments\<close>, \<^verbatim>\<open>Likes\<close> and so on) are left out: no column
  belongs to them, no repository sets them, and none is loaded without a Preload, which the
  program never calls.
\<close>

definition column :: "(string \<times> sql_value) list \<Rightarrow> string \<Rightarrow> sql_value" where
  "column cs c = (case map_of cs c of None \<Rightarrow> Null | Some v \<Rightarrow> v)"

subsection \<open>Content\<close>

record content =
  ct_id :: nat
  ct_user_id :: nat
  ct_type :: string
  ct_content_url :: string
  ct_span_info :: string
  ct_target_gender :: string
  ct_view_count :: int
  ct_show_count :: int
  ct_comment_count :: int
  ct_repost_count :: int
  ct_creation_date :: int
  ct_updated_at :: int
  ct_deleted_at :: "int option"

definition zero_content :: content where
  "zero_content =
     \<lparr>ct_id = 0, ct_user_id = 0, ct_type = [], ct_content_url = [], ct_span_info = [], ct_target_gender = [],
      ct_view_count = 0, ct_show_count = 0, ct_comment_count = 0, ct_repost_count = 0, ct_creation_date = 0,
      ct_updated_at = 0, ct_deleted_at = None\<rparr>"

definition content_col :: "content \<Rightarrow> string \<Rightarrow> sql_value" where
  "content_col r = column
     [(''id'', Uint (ct_id r)), (''user_id'', Uint (ct_user_id r)), (''type'', Text (ct_type r)),
      (''content_url'', Text (ct_content_url r)), (''span_info'', Text (ct_span_info r)),
      (''target_gender'', Text (ct_target_gender r)), (''view_count'', IntV (ct_view_count r)),
      (''show_count'', IntV (ct_show_count r)), (''comment_count'', IntV (ct_comment_count r)),
      (''repost_count'', IntV (ct_repost_count r)), (''creation_date'', Time (ct_creation_date r)),
      (''updated_at'', Time (ct_updated_at r)), (''deleted_at'', time_ptr (ct_deleted_at r))]"

definition content_auto :: "string set" where
  "content_auto = {''id'', ''creation_date'', ''updated_at''}"

subsection \<open>Customer\<close>

record customer =
  cs_id :: nat
  cs_username :: string
  cs_password :: string
  cs_email :: string
  cs_phone :: string
  cs_name :: string
  cs_surname :: string
  cs_birthday :: "int option"
  cs_gender :: string
  cs_profile_picture_url :: string
  cs_biography :: string
  cs_complaint_count :: int
  cs_content_count :: int
  cs_following_count :: int
  cs_followers_count :: int
  cs_private_account :: bool
  cs_account_status :: string
  cs_registration_date :: int
  cs_updated_at :: int
  cs_deleted_at :: "int option"

definition zero_customer :: customer where
  "zero_customer =
     \<lparr>cs_id = 0, cs_username = [], cs_password = [], cs_email = [], cs_phone = [], cs_name = [], cs_surname = [],
      cs_birthday = None, cs_gender = [], cs_profile_picture_url = [], cs_biography = [], cs_complaint_count = 0,
      cs_content_count = 0, cs_following_count = 0, cs_followers_count = 0, cs_private_account = False,
      cs_account_status = [], cs_registration_date = 0, cs_updated_at = 0, cs_deleted_at = None\<rparr>"

definition customer_col :: "customer \<Rightarrow> string \<Rightarrow> sql_value" where
  "customer_col r = column
     [(''id'', Uint (cs_id r)), (''username'', Text (cs_username r)), (''password'', Text (cs_password r)),
      (''email'', Text (cs_email r)), (''phone'', Text (cs_phone r)), (''name'', Text (cs_name r)),
      (''surname'', Text (cs_surname r)), (''birthday'', time_ptr (cs_birthday r)), (''gender'', Text (cs_gender r)),
      (''profile_picture_url'', Text (cs_profile_picture_url r)), (''biography'', Text (cs_biography r)),
      (''complaint_count'', IntV (cs_complaint_count r)), (''content_count'', IntV (cs_content_count r)),
      (''following_count'', IntV (cs_following_count r)), (''followers_count'', IntV (cs_followers_count r)),
      (''private_account'', Bool (cs_private_account r)), (''account_status'', Text (cs_account_status r)),
      (''registration_date'', Time (cs_registration_date r)), (''updated_at'', Time (cs_updated_at r)),
      (''deleted_at'', time_ptr (cs_deleted_at r))]"

definition customer_auto :: "string set" where
  "customer_auto = {''id'', ''registration_date'', ''updated_at''}"

definition customer_default :: "string \<Rightarrow> sql_value option" where
  "customer_default = [''account_status'' \<mapsto> Text ''active'']"

subsection \<open>Follow\<close>

record follow =
  fw_id :: nat
  fw_follower_id :: nat
  fw_followed_user_id :: nat
  fw_follow_status :: string
  fw_follow_start :: int
  fw_follow_date :: int

definition zero_follow :: follow where
  "zero_follow =
     \<lparr>fw_id = 0, fw_follower_id = 0, fw_followed_user_id = 0, fw_follow_status = [], fw_follow_start = 0, fw_follow_date = 0\<rparr>"

definition follow_col :: "follow \<Rightarrow> string \<Rightarrow> sql_value" where
  "follow_col r = column
     [(''id'', Uint (fw_id r)), (''follower_id'', Uint (fw_follower_id r)),
      (''followed_user_id'', Uint (fw_followed_user_id r)), (''follow_status'', Text (fw_follow_status r)),
      (''follow_start'', Time (fw_follow_start r)), (''follow_date'', Time (fw_follow_date r))]"

definition follow_auto :: "string set" where
  "follow_auto = {''id'', ''follow_start'', ''follow_date''}"

definition follow_default :: "string \<Rightarrow> sql_value option" where
  "follow_default = [''follow_status'' \<mapsto> Text ''pending'']"

subsection \<open>Hashtag\<close>

record hashtag =
  ht_id :: nat
  ht_hashtag_category_id :: "nat option"
  ht_name :: string
  ht_matching_category :: string
  ht_popularity_score :: int

definition zero_hashtag :: hashtag where
  "zero_hashtag =
     \<lparr>ht_id = 0, ht_hashtag_category_id = None, ht_name = [], ht_matching_category = [], ht_popularity_score = 0\<rparr>"

definition hashtag_col :: "hashtag \<Rightarrow> string \<Rightarrow> sql_value" where
  "hashtag_col r = column
     [(''id'', Uint (ht_id r)), (''hashtag_category_id'', uint_ptr (ht_hashtag_category_id r)),
      (''name'', Text (ht_name r)), (''matching_category'', Text (ht_matching_category r)),
      (''popularity_score'', IntV (ht_popularity_score r))]"

definition hashtag_auto :: "string set" where
  "hashtag_auto = {''id''}"

subsection \<open>Liked\<close>

record liked =
  lk_id :: nat
  lk_user_id :: nat
  lk_liked_content_id :: "nat option"
  lk_liked_comment_id :: "nat option"
  lk_hashtag_id :: "nat option"
  lk_time_spent :: int
  lk_action_frequency :: int
  lk_creation_date :: int

definition zero_liked :: liked where
  "zero_liked =
     \<lparr>lk_id = 0, lk_user_id = 0, lk_liked_content_id = None, lk_liked_comment_id = None, lk_hashtag_id = None,
      lk_time_spent = 0, lk_action_frequency = 0, lk_creation_date = 0\<rparr>"

definition liked_col :: "liked \<Rightarrow> string \<Rightarrow> sql_value" where
  "liked_col r = column
     [(''id'', Uint (lk_id r)), (''user_id'', Uint (lk_user_id r)), (''liked_content_id'', uint_ptr (lk_liked_content_id r)),
      (''liked_comment_id'', uint_ptr (lk_liked_comment_id r)), (''hashtag_id'', uint_ptr (lk_hashtag_id r)),
      (''time_spent'', IntV (lk_time_spent r)), (''action_frequency'', IntV (lk_action_frequency r)),
      (''creation_date'', Time (lk_creation_date r))]"

definition liked_auto :: "string set" where
  "liked_auto = {''id'', ''creation_date''}"

definition liked_default :: "string \<Rightarrow> sql_value option" where
  "liked_default = [''action_frequency'' \<mapsto> IntV 1]"

subsection \<open>Conversation\<close>

record conversation =
  cv_id :: nat
  cv_first_user_id :: nat
  cv_second_user_id :: nat
  cv_last_message_id :: "nat option"
  cv_last_message_content :: string
  cv_last_message_sent_time :: "int option"
  cv_creation_date :: int
  cv_updated_at :: int
  cv_deleted_at :: "int option"

definition zero_conversation :: conversation where
  "zero_conversation =
     \<lparr>cv_id = 0, cv_first_user_id = 0, cv_second_user_id = 0, cv_last_message_id = None, cv_last_message_content = [],
      cv_last_message_sent_time = None, cv_creation_date = 0, cv_updated_at = 0, cv_deleted_at = None\<rparr>"

definition conversation_col :: "conversation \<Rightarrow> string \<Rightarrow> sql_value" where
  "conversation_col r = column
     [(''id'', Uint (cv_id r)), (''first_user_id'', Uint (cv_first_user_id r)),
      (''second_user_id'', Uint (cv_second_user_id r)), (''last_message_id'', uint_ptr (cv_last_message_id r)),
      (''last_message_content'', Text (cv_last_message_content r)),
      (''last_message_sent_time'', time_ptr (cv_last_message_sent_time r)), (''creation_date'', Time (cv_creation_date r)),
      (''updated_at'', Time (cv_updated_at r)), (''deleted_at'', time_ptr (cv_deleted_at r))]"

definition conversation_auto :: "string set" where
  "conversation_auto = {''id'', ''creation_date'', ''updated_at''}"

subsection \<open>Report type\<close>

record report_type =
  rp_id :: nat
  rp_category_name :: string
  rp_name :: string
  rp_importance :: int
  rp_deadline_duration :: int

definition zero_report_type :: report_type where
  "zero_report_type =
     \<lparr>rp_id = 0, rp_category_name = [], rp_name = [], rp_importance = 0, rp_deadline_duration = 0\<rparr>"

definition report_type_col :: "report_type \<Rightarrow> string \<Rightarrow> sql_value" where
  "report_type_col r = column
     [(''id'', Uint (rp_id r)), (''category_name'', Text (rp_category_name r)), (''name'', Text (rp_name r)),
      (''importance'', IntV (rp_importance r)), (''deadline_duration'', IntV (rp_deadline_duration r))]"

definition report_type_auto :: "string set" where
  "report_type_auto = {''id''}"

definition report_type_default :: "string \<Rightarrow> sql_value option" where
  "report_type_default = [''importance'' \<mapsto> IntV 1]"

lemmas model_cols =
  content_col_def customer_col_def follow_col_def hashtag_col_def liked_col_def conversation_col_def
  report_type_col_def column_def

end
