(* ===== verification/ContentRepos.thy ===== *)
theory ContentRepos
  imports Models
begin

text \<open>
  The repositories of accounts and of what they publish: \<^verbatim>\<open>internal/repository/customer.go\<close>,
  \<^verbatim>\<open>follow.go\<close>, \<^verbatim>\<open>content.go\<close>, \<^verbatim>\<open>comment.go\<close>, \<^verbatim>\<open>liked.go\<close>, \<^verbatim>\<open>hashtag.go\<close>, \<^verbatim>\<open>hashtag_category.go\<close>,
  \<^verbatim>\<open>location.go\<close>. One definition per method, over the gorm table \<open>db\<close> of the repository; the
  context only carries cancellation, which is an error of the database here.

  The structs \<^verbatim>\<open>models.Comment\<close>, \<^verbatim>\<open>models.HashtagCategory\<close> and \<^verbatim>\<open>models.Location\<close> are missing from the
  program: their rows are a type \<open>'r\<close>, and a literal of one is \<open>lit\<close>, applied to the fields that
  the code names.
\<close>

subsection \<open>Customers\<close>

record create_customer_input =
  ncs_username :: string
  ncs_password :: string
  ncs_email :: string

definition customer_create :: "(customer, 's) gorm \<Rightarrow> create_customer_input \<Rightarrow> 's \<Rightarrow> (store_error + customer) \<times> 's" where
  "customer_create db input s =
     create_row ''create customer: %w'' db
       (zero_customer\<lparr>cs_username := ncs_username input, cs_password := ncs_password input, cs_email := ncs_email input\<rparr>) s"

definition customer_get_by_id :: "(customer, 's) gorm \<Rightarrow> nat \<Rightarrow> 's \<Rightarrow> store_error + customer" where
  "customer_get_by_id db i s = get_row ''get customer by id %d: %w'' db i s"

definition customer_get_by_username :: "(customer, 's) gorm \<Rightarrow> string \<Rightarrow> 's \<Rightarrow> store_error + customer" where
  "customer_get_by_username db username s =
     first_row ''get customer by username %q: %w'' [Text username] db (Eq ''username'' (Text username)) s"

record 's customer_repository =
  rcs_create :: "create_customer_input \<Rightarrow> 's \<Rightarrow> (store_error + customer) \<times> 's"
  rcs_get_by_id :: "nat \<Rightarrow> 's \<Rightarrow> store_error + customer"
  rcs_get_by_username :: "string \<Rightarrow> 's \<Rightarrow> store_error + customer"

definition new_customer_repository ::
    "(customer, 's) gorm \<Rightarrow> 's customer_repository" where
  "new_customer_repository db =
     \<lparr>rcs_create = customer_create db, rcs_get_by_id = customer_get_by_id db,
       rcs_get_by_username = customer_get_by_username db\<rparr>"

subsection \<open>Follows\<close>

record create_follow_input =
  nfw_follower_id :: nat
  nfw_followed_user_id :: nat
  nfw_follow_status :: string

record update_follow_input =
  ufw_follow_status :: string

definition follow_create :: "(follow, 's) gorm \<Rightarrow> create_follow_input \<Rightarrow> 's \<Rightarrow> (store_error + follow) \<times> 's" where
  "follow_create db input s =
     create_row ''create follow: %w'' db
       (zero_follow\<lparr>fw_follower_id := nfw_follower_id input, fw_followed_user_id := nfw_followed_user_id input,
            fw_follow_status := nfw_follow_status input\<rparr>) s"

definition follow_get_by_id :: "(follow, 's) gorm \<Rightarrow> nat \<Rightarrow> 's \<Rightarrow> store_error + follow" where
  "follow_get_by_id db i s = get_row ''get follow by id %d: %w'' db i s"

definition follow_list_followers ::
    "(follow, 's) gorm \<Rightarrow> nat \<Rightarrow> int \<Rightarrow> int \<Rightarrow> 's \<Rightarrow> store_error + follow list" where
  "follow_list_followers db followed_user_id limit offset s =
     list_rows ''list followers for user id %d: %w'' [Uint followed_user_id] db 50
       (Some (Eq ''followed_user_id'' (Uint followed_user_id))) [(''follow_date'', DESC)] limit offset s"

definition follow_list_following ::
    "(follow, 's) gorm \<Rightarrow> nat \<Rightarrow> int \<Rightarrow> int \<Rightarrow> 's \<Rightarrow> store_error + follow list" where
  "follow_list_following db follower_id limit offset s =
     list_rows ''list following for user id %d: %w'' [Uint follower_id] db 50
       (Some (Eq ''follower_id'' (Uint follower_id))) [(''follow_date'', DESC)] limit offset s"

definition follow_update ::
    "(follow, 's) gorm \<Rightarrow> nat \<Rightarrow> update_follow_input \<Rightarrow> 's \<Rightarrow> (store_error + follow) \<times> 's" where
  "follow_update db i input s =
     update_row ''update follow %d: %w'' db (follow_get_by_id db) i
       [(''follow_status'', Text (ufw_follow_status input))] s"

definition follow_delete :: "(follow, 's) gorm \<Rightarrow> nat \<Rightarrow> 's \<Rightarrow> store_error option \<times> 's" where
  "follow_delete db i s = delete_row ''delete follow %d: %w'' db i s"

record 's follow_repository =
  rfw_create :: "create_follow_input \<Rightarrow> 's \<Rightarrow> (store_error + follow) \<times> 's"
  rfw_get_by_id :: "nat \<Rightarrow> 's \<Rightarrow> store_error + follow"
  rfw_list_followers :: "nat \<Rightarrow> int \<Rightarrow> int \<Rightarrow> 's \<Rightarrow> store_error + follow list"
  rfw_list_following :: "nat \<Rightarrow> int \<Rightarrow> int \<Rightarrow> 's \<Rightarrow> store_error + follow list"
  rfw_update :: "nat \<Rightarrow> update_follow_input \<Rightarrow> 's \<Rightarrow> (store_error + follow) \<times> 's"
  rfw_delete :: "nat \<Rightarrow> 's \<Rightarrow> store_error option \<times> 's"

definition new_follow_repository ::
    "(follow, 's) gorm \<Rightarrow> 's follow_repository" where
  "new_follow_repository db =
     \<lparr>rfw_create = follow_create db, rfw_get_by_id = follow_get_by_id db,
       rfw_list_followers = follow_list_followers db, rfw_list_following = follow_list_following db,
       rfw_update = follow_update db, rfw_delete = follow_delete db\<rparr>"

subsection \<open>Content\<close>

record create_content_input =
  nct_user_id :: nat
  nct_type :: string
  nct_content_url :: string
  nct_span_info :: string
  nct_target_gender :: string

record update_content_input =
  uct_type :: string
  uct_content_url :: string
  uct_span_info :: string
  uct_target_gender :: string

definition content_create :: "(content, 's) gorm \<Rightarrow> create_content_input \<Rightarrow> 's \<Rightarrow> (store_error + content) \<times> 's" where
  "content_create db input s =
     create_row ''create content: %w'' db
       (zero_content\<lparr>ct_user_id := nct_user_id input, ct_type := nct_type input,
            ct_content_url := nct_content_url input, ct_span_info := nct_span_info input,
            ct_target_gender := nct_target_gender input\<rparr>) s"

definition content_get_by_id :: "(content, 's) gorm \<Rightarrow> nat \<Rightarrow> 's \<Rightarrow> store_error + content" where
  "content_get_by_id db i s = get_row ''get content by id %d: %w'' db i s"

definition content_list_by_user_id ::
    "(content, 's) gorm \<Rightarrow> nat \<Rightarrow> int \<Rightarrow> int \<Rightarrow> 's \<Rightarrow> store_error + content list" where
  "content_list_by_user_id db user_id limit offset s =
     list_rows ''list content by user id %d: %w'' [Uint user_id] db 20
       (Some (Eq ''user_id'' (Uint user_id))) [(''creation_date'', DESC)] limit offset s"

definition content_update ::
    "(content, 's) gorm \<Rightarrow> nat \<Rightarrow> update_content_input \<Rightarrow> 's \<Rightarrow> (store_error + content) \<times> 's" where
  "content_update db i input s =
     update_row ''update content %d: %w'' db (content_get_by_id db) i
       [(''type'', Text (uct_type input)), (''content_url'', Text (uct_content_url input)),
        (''span_info'', Text (uct_span_info input)), (''target_gender'', Text (uct_target_gender input))] s"

definition content_delete :: "(content, 's) gorm \<Rightarrow> nat \<Rightarrow> 's \<Rightarrow> store_error option \<times> 's" where
  "content_delete db i s = delete_row ''delete content %d: %w'' db i s"

record 's content_repository =
  rct_create :: "create_content_input \<Rightarrow> 's \<Rightarrow> (store_error + content) \<times> 's"
  rct_get_by_id :: "nat \<Rightarrow> 's \<Rightarrow> store_error + content"
  rct_list_by_user_id :: "nat \<Rightarrow> int \<Rightarrow> int \<Rightarrow> 's \<Rightarrow> store_error + content list"
  rct_update :: "nat \<Rightarrow> update_content_input \<Rightarrow> 's \<Rightarrow> (store_error + content) \<times> 's"
  rct_delete :: "nat \<Rightarrow> 's \<Rightarrow> store_error option \<times> 's"

definition new_content_repository ::
    "(content, 's) gorm \<Rightarrow> 's content_repository" where
  "new_content_repository db =
     \<lparr>rct_create = content_create db, rct_get_by_id = content_get_by_id db,
       rct_list_by_user_id = content_list_by_user_id db, rct_update = content_update db,
       rct_delete = content_delete db\<rparr>"

subsection \<open>Comments\<close>

record create_comment_input =
  ncm_user_id :: nat
  ncm_content_id :: nat
  ncm_reply_comment_id :: "nat option"
  ncm_comment_message :: string

record update_comment_input =
  ucm_comment_message :: string

definition comment_create ::
    "((string \<times> sql_value) list \<Rightarrow> 'r) \<Rightarrow> ('r, 's) gorm \<Rightarrow> create_comment_input \<Rightarrow> 's \<Rightarrow> (store_error + 'r) \<times> 's" where
  "comment_create lit db input s =
     create_row ''create comment: %w'' db
       (lit [(''UserID'', Uint (ncm_user_id input)), (''ContentID'', Uint (ncm_content_id input)),
            (''ReplyCommentID'', uint_ptr (ncm_reply_comment_id input)),
            (''CommentMessage'', Text (ncm_comment_message input))]) s"

definition comment_get_by_id :: "('r, 's) gorm \<Rightarrow> nat \<Rightarrow> 's \<Rightarrow> store_error + 'r" where
  "comment_get_by_id db i s = get_row ''get comment by id %d: %w'' db i s"

definition comment_list_by_content_id ::
    "('r, 's) gorm \<Rightarrow> nat \<Rightarrow> int \<Rightarrow> int \<Rightarrow> 's \<Rightarrow> store_error + 'r list" where
  "comment_list_by_content_id db content_id limit offset s =
     list_rows ''list comments by content id %d: %w'' [Uint content_id] db 30
       (Some (Eq ''content_id'' (Uint content_id))) [(''creation_date'', ASC)] limit offset s"

definition comment_update ::
    "('r, 's) gorm \<Rightarrow> nat \<Rightarrow> update_comment_input \<Rightarrow> 's \<Rightarrow> (store_error + 'r) \<times> 's" where
  "comment_update db i input s =
     update_row ''update comment %d: %w'' db (comment_get_by_id db) i
       [(''comment_message'', Text (ucm_comment_message input))] s"

definition comment_delete :: "('r, 's) gorm \<Rightarrow> nat \<Rightarrow> 's \<Rightarrow> store_error option \<times> 's" where
  "comment_delete db i s = delete_row ''delete comment %d: %w'' db i s"

record ('r, 's) comment_repository =
  rcm_create :: "create_comment_input \<Rightarrow> 's \<Rightarrow> (store_error + 'r) \<times> 's"
  rcm_get_by_id :: "nat \<Rightarrow> 's \<Rightarrow> store_error + 'r"
  rcm_list_by_content_id :: "nat \<Rightarrow> int \<Rightarrow> int \<Rightarrow> 's \<Rightarrow> store_error + 'r list"
  rcm_update :: "nat \<Rightarrow> update_comment_input \<Rightarrow> 's \<Rightarrow> (store_error + 'r) \<times> 's"
  rcm_delete :: "nat \<Rightarrow> 's \<Rightarrow> store_error option \<times> 's"

definition new_comment_repository ::
    "((string \<times> sql_value) list \<Rightarrow> 'r) \<Rightarrow> ('r, 's) gorm \<Rightarrow> ('r, 's) comment_repository" where
  "new_comment_repository lit db =
     \<lparr>rcm_create = comment_create lit db, rcm_get_by_id = comment_get_by_id db,
       rcm_list_by_content_id = comment_list_by_content_id db, rcm_update = comment_update db,
       rcm_delete = comment_delete db\<rparr>"

subsection \<open>Likes\<close>

record create_liked_input =
  nlk_user_id :: nat
  nlk_liked_content_id :: "nat option"
  nlk_liked_comment_id :: "nat option"
  nlk_hashtag_id :: "nat option"
  nlk_time_spent :: int
  nlk_action_frequency :: int

record update_liked_input =
  ulk_time_spent :: int
  ulk_action_frequency :: int

definition liked_create :: "(liked, 's) gorm \<Rightarrow> create_liked_input \<Rightarrow> 's \<Rightarrow> (store_error + liked) \<times> 's" where
  "liked_create db input s =
     create_row ''create liked: %w'' db
       (zero_liked\<lparr>lk_user_id := nlk_user_id input, lk_liked_content_id := nlk_liked_content_id input,
            lk_liked_comment_id := nlk_liked_comment_id input, lk_hashtag_id := nlk_hashtag_id input,
            lk_time_spent := nlk_time_spent input, lk_action_frequency := nlk_action_frequency input\<rparr>) s"

definition liked_get_by_id :: "(liked, 's) gorm \<Rightarrow> nat \<Rightarrow> 's \<Rightarrow> store_error + liked" where
  "liked_get_by_id db i s = get_row ''get liked by id %d: %w'' db i s"

definition liked_list_by_user_id ::
    "(liked, 's) gorm \<Rightarrow> nat \<Rightarrow> int \<Rightarrow> int \<Rightarrow> 's \<Rightarrow> store_error + liked list" where
  "liked_list_by_user_id db user_id limit offset s =
     list_rows ''list likes by user id %d: %w'' [Uint user_id] db 50
       (Some (Eq ''user_id'' (Uint user_id))) [(''creation_date'', DESC)] limit offset s"

definition liked_update ::
    "(liked, 's) gorm \<Rightarrow> nat \<Rightarrow> update_liked_input \<Rightarrow> 's \<Rightarrow> (store_error + liked) \<times> 's" where
  "liked_update db i input s =
     update_row ''update liked %d: %w'' db (liked_get_by_id db) i
       [(''time_spent'', IntV (ulk_time_spent input)), (''action_frequency'', IntV (ulk_action_frequency input))] s"

definition liked_delete :: "(liked, 's) gorm \<Rightarrow> nat \<Rightarrow> 's \<Rightarrow> store_error option \<times> 's" where
  "liked_delete db i s = delete_row ''delete liked %d: %w'' db i s"

record 's liked_repository =
  rlk_create :: "create_liked_input \<Rightarrow> 's \<Rightarrow> (store_error + liked) \<times> 's"
  rlk_get_by_id :: "nat \<Rightarrow> 's \<Rightarrow> store_error + liked"
  rlk_list_by_user_id :: "nat \<Rightarrow> int \<Rightarrow> int \<Rightarrow> 's \<Rightarrow> store_error + liked list"
  rlk_update :: "nat \<Rightarrow> update_liked_input \<Rightarrow> 's \<Rightarrow> (store_error + liked) \<times> 's"
  rlk_delete :: "nat \<Rightarrow> 's \<Rightarrow> store_error option \<times> 's"

definition new_liked_repository ::
    "(liked, 's) gorm \<Rightarrow> 's liked_repository" where
  "new_liked_repository db =
     \<lparr>rlk_create = liked_create db, rlk_get_by_id = liked_get_by_id db,
       rlk_list_by_user_id = liked_list_by_user_id db, rlk_update = liked_update db,
       rlk_delete = liked_delete db\<rparr>"

subsection \<open>Hashtags\<close>

record create_hashtag_input =
  nht_hashtag_category_id :: "nat option"
  nht_name :: string
  nht_matching_category :: string
  nht_popularity_score :: int

record update_hashtag_input =
  uht_hashtag_category_id :: "nat option"
  uht_name :: string
  uht_matching_category :: string
  uht_popularity_score :: int

definition hashtag_create :: "(hashtag, 's) gorm \<Rightarrow> create_hashtag_input \<Rightarrow> 's \<Rightarrow> (store_error + hashtag) \<times> 's" where
  "hashtag_create db input s =
     create_row ''create hashtag: %w'' db
       (zero_hashtag\<lparr>ht_hashtag_category_id := nht_hashtag_category_id input, ht_name := nht_name input,
            ht_matching_category := nht_matching_category input,
            ht_popularity_score := nht_popularity_score input\<rparr>) s"

definition hashtag_get_by_id :: "(hashtag, 's) gorm \<Rightarrow> nat \<Rightarrow> 's \<Rightarrow> store_error + hashtag" where
  "hashtag_get_by_id db i s = get_row ''get hashtag by id %d: %w'' db i s"

definition hashtag_get_by_name :: "(hashtag, 's) gorm \<Rightarrow> string \<Rightarrow> 's \<Rightarrow> store_error + hashtag" where
  "hashtag_get_by_name db name s =
     first_row ''get hashtag by name %q: %w'' [Text name] db (Eq ''name'' (Text name)) s"

definition hashtag_list ::
    "(hashtag, 's) gorm \<Rightarrow> int \<Rightarrow> int \<Rightarrow> 's \<Rightarrow> store_error + hashtag list" where
  "hashtag_list db limit offset s =
     list_rows ''list hashtags: %w'' [] db 50
       None [(''popularity_score'', DESC), (''id'', DESC)] limit offset s"

definition hashtag_update ::
    "(hashtag, 's) gorm \<Rightarrow> nat \<Rightarrow> update_hashtag_input \<Rightarrow> 's \<Rightarrow> (store_error + hashtag) \<times> 's" where
  "hashtag_update db i input s =
     update_row ''update hashtag %d: %w'' db (hashtag_get_by_id db) i
       [(''hashtag_category_id'', uint_ptr (uht_hashtag_category_id input)), (''name'', Text (uht_name input)),
        (''matching_category'', Text (uht_matching_category input)),
        (''popularity_score'', IntV (uht_popularity_score input))] s"

definition hashtag_delete :: "(hashtag, 's) gorm \<Rightarrow> nat \<Rightarrow> 's \<Rightarrow> store_error option \<times> 's" where
  "hashtag_delete db i s = delete_row ''delete hashtag %d: %w'' db i s"

record 's hashtag_repository =
  rht_create :: "create_hashtag_input \<Rightarrow> 's \<Rightarrow> (store_error + hashtag) \<times> 's"
  rht_get_by_id :: "nat \<Rightarrow> 's \<Rightarrow> store_error + hashtag"
  rht_get_by_name :: "string \<Rightarrow> 's \<Rightarrow> store_error + hashtag"
  rht_list :: "int \<Rightarrow> int \<Rightarrow> 's \<Rightarrow> store_error + hashtag list"
  rht_update :: "nat \<Rightarrow> update_hashtag_input \<Rightarrow> 's \<Rightarrow> (store_error + hashtag) \<times> 's"
  rht_delete :: "nat \<Rightarrow> 's \<Rightarrow> store_error option \<times> 's"

definition new_hashtag_repository ::
    "(hashtag, 's) gorm \<Rightarrow> 's hashtag_repository" where
  "new_hashtag_repository db =
     \<lparr>rht_create = hashtag_create db, rht_get_by_id = hashtag_get_by_id db,
       rht_get_by_name = hashtag_get_by_name db, rht_list = hashtag_list db, rht_update = hashtag_update db,
       rht_delete = hashtag_delete db\<rparr>"

subsection \<open>Hashtag categories\<close>

record create_hashtag_category_input =
  nhc_name :: string
  nhc_popularity_score :: int

record update_hashtag_category_input =
  uhc_name :: string
  uhc_popularity_score :: int

definition hashtag_category_create ::
    "((string \<times> sql_value) list \<Rightarrow> 'r) \<Rightarrow> ('r, 's) gorm \<Rightarrow> create_hashtag_category_input \<Rightarrow> 's \<Rightarrow> (store_error + 'r) \<times> 's" where
  "hashtag_category_create lit db input s =
     create_row ''create hashtag category: %w'' db
       (lit [(''Name'', Text (nhc_name input)), (''PopularityScore'', IntV (nhc_popularity_score input))]) s"

definition hashtag_category_get_by_id :: "('r, 's) gorm \<Rightarrow> nat \<Rightarrow> 's \<Rightarrow> store_error + 'r" where
  "hashtag_category_get_by_id db i s = get_row ''get hashtag category by id %d: %w'' db i s"

definition hashtag_category_list ::
    "('r, 's) gorm \<Rightarrow> int \<Rightarrow> int \<Rightarrow> 's \<Rightarrow> store_error + 'r list" where
  "hashtag_category_list db limit offset s =
     list_rows ''list hashtag categories: %w'' [] db 50
       None [(''id'', DESC)] limit offset s"

definition hashtag_category_update ::
    "('r, 's) gorm \<Rightarrow> nat \<Rightarrow> update_hashtag_category_input \<Rightarrow> 's \<Rightarrow> (store_error + 'r) \<times> 's" where
  "hashtag_category_update db i input s =
     update_row ''update hashtag category %d: %w'' db (hashtag_category_get_by_id db) i
       [(''name'', Text (uhc_name input)), (''popularity_score'', IntV (uhc_popularity_score input))] s"

definition hashtag_category_delete :: "('r, 's) gorm \<Rightarrow> nat \<Rightarrow> 's \<Rightarrow> store_error option \<times> 's" where
  "hashtag_category_delete db i s = delete_row ''delete hashtag category %d: %w'' db i s"

record ('r, 's) hashtag_category_repository =
  rhc_create :: "create_hashtag_category_input \<Rightarrow> 's \<Rightarrow> (store_error + 'r) \<times> 's"
  rhc_get_by_id :: "nat \<Rightarrow> 's \<Rightarrow> store_error + 'r"
  rhc_list :: "int \<Rightarrow> int \<Rightarrow> 's \<Rightarrow> store_error + 'r list"
  rhc_update :: "nat \<Rightarrow> update_hashtag_category_input \<Rightarrow> 's \<Rightarrow> (store_error + 'r) \<times> 's"
  rhc_delete :: "nat \<Rightarrow> 's \<Rightarrow> store_error option \<times> 's"

definition new_hashtag_category_repository ::
    "((string \<times> sql_value) list \<Rightarrow> 'r) \<Rightarrow> ('r, 's) gorm \<Rightarrow> ('r, 's) hashtag_category_repository" where
  "new_hashtag_category_repository lit db =
     \<lparr>rhc_create = hashtag_category_create lit db, rhc_get_by_id = hashtag_category_get_by_id db,
       rhc_list = hashtag_category_list db, rhc_update = hashtag_category_update db,
       rhc_delete = hashtag_category_delete db\<rparr>"

subsection \<open>Locations\<close>

record create_location_input =
  nlc_combination :: string
  nlc_country :: string
  nlc_city :: string

record update_location_input =
  ulc_combination :: string
  ulc_country :: string
  ulc_city :: string

definition location_create ::
    "((string \<times> sql_value) list \<Rightarrow> 'r) \<Rightarrow> ('r, 's) gorm \<Rightarrow> create_location_input \<Rightarrow> 's \<Rightarrow> (store_error + 'r) \<times> 's" where
  "location_create lit db input s =
     create_row ''create location: %w'' db
       (lit [(''Combination'', Text (nlc_combination input)), (''Country'', Text (nlc_country input)),
            (''City'', Text (nlc_city input))]) s"

definition location_get_by_id :: "('r, 's) gorm \<Rightarrow> nat \<Rightarrow> 's \<Rightarrow> store_error + 'r" where
  "location_get_by_id db i s = get_row ''get location by id %d: %w'' db i s"

definition location_list ::
    "('r, 's) gorm \<Rightarrow> int \<Rightarrow> int \<Rightarrow> 's \<Rightarrow> store_error + 'r list" where
  "location_list db limit offset s =
     list_rows ''list locations: %w'' [] db 100
       None [(''id'', DESC)] limit offset s"

definition location_update ::
    "('r, 's) gorm \<Rightarrow> nat \<Rightarrow> update_location_input \<Rightarrow> 's \<Rightarrow> (store_error + 'r) \<times> 's" where
  "location_update db i input s =
     update_row ''update location %d: %w'' db (location_get_by_id db) i
       [(''combination'', Text (ulc_combination input)), (''country'', Text (ulc_country input)),
        (''city'', Text (ulc_city input))] s"

definition location_delete :: "('r, 's) gorm \<Rightarrow> nat \<Rightarrow> 's \<Rightarrow> store_error option \<times> 's" where
  "location_delete db i s = delete_row ''delete location %d: %w'' db i s"

record ('r, 's) location_repository =
  rlc_create :: "create_location_input \<Rightarrow> 's \<Rightarrow> (store_error + 'r) \<times> 's"
  rlc_get_by_id :: "nat \<Rightarrow> 's \<Rightarrow> store_error + 'r"
  rlc_list :: "int \<Rightarrow> int \<Rightarrow> 's \<Rightarrow> store_error + 'r list"
  rlc_update :: "nat \<Rightarrow> update_location_input \<Rightarrow> 's \<Rightarrow> (store_error + 'r) \<times> 's"
  rlc_delete :: "nat \<Rightarrow> 's \<Rightarrow> store_error option \<times> 's"

definition new_location_repository ::
    "((string \<times> sql_value) list \<Rightarrow> 'r) \<Rightarrow> ('r, 's) gorm \<Rightarrow> ('r, 's) location_repository" where
  "new_location_repository lit db =
     \<lparr>rlc_create = location_create lit db, rlc_get_by_id = location_get_by_id db, rlc_list = location_list db,
       rlc_update = location_update db, rlc_delete = location_delete db\<rparr>"

end
