(* ===== verification/MessageRepos.thy ===== *)
theory MessageRepos
  imports Models
begin

text \<open>
  The repositories of conversations and of moderation: \<^verbatim>\<open>internal/repository/conversation.go\<close>,
  \<^verbatim>\<open>message.go\<close>, \<^verbatim>\<open>notification.go\<close>, \<^verbatim>\<open>report.go\<close>, \<^verbatim>\<open>report_type.go\<close>, modelled as in
  \<open>ContentRepos\<close>. \<^verbatim>\<open>models.Message\<close>, \<^verbatim>\<open>models.Notification\<close> and \<^verbatim>\<open>models.Report\<close> are missing from the
  program and are the type \<open>'r\<close> with \<open>lit\<close> for its literals.
\<close>

subsection \<open>Conversations\<close>

record create_conversation_input =
  ncv_first_user_id :: nat
  ncv_second_user_id :: nat
  ncv_last_message_id :: "nat option"
  ncv_last_message_content :: string
  ncv_last_message_sent_time :: "int option"

record update_conversation_input =
  ucv_last_message_id :: "nat option"
  ucv_last_message_content :: string
  ucv_last_message_sent_time :: "int option"

definition conversation_create :: "(conversation, 's) gorm \<Rightarrow> create_conversation_input \<Rightarrow> 's \<Rightarrow> (store_error + conversation) \<times> 's" where
  "conversation_create db input s =
     create_row ''create conversation: %w'' db
       (zero_conversation\<lparr>cv_first_user_id := ncv_first_user_id input, cv_second_user_id := ncv_second_user_id input,
            cv_last_message_id := ncv_last_message_id input,
            cv_last_message_content := ncv_last_message_content input,
            cv_last_message_sent_time := ncv_last_message_sent_time input\<rparr>) s"

definition conversation_get_by_id :: "(conversation, 's) gorm \<Rightarrow> nat \<Rightarrow> 's \<Rightarrow> store_error + conversation" where
  "conversation_get_by_id db i s = get_row ''get conversation by id %d: %w'' db i s"

definition conversation_list_by_user_id ::
    "(conversation, 's) gorm \<Rightarrow> nat \<Rightarrow> int \<Rightarrow> int \<Rightarrow> 's \<Rightarrow> store_error + conversation list" where
  "conversation_list_by_user_id db user_id limit offset s =
     list_rows ''list conversations by user id %d: %w'' [Uint user_id] db 50
       (Some (Or (Eq ''first_user_id'' (Uint user_id)) (Eq ''second_user_id'' (Uint user_id)))) [(''updated_at'', DESC)] limit offset s"

definition conversation_update ::
    "(conversation, 's) gorm \<Rightarrow> nat \<Rightarrow> update_conversation_input \<Rightarrow> 's \<Rightarrow> (store_error + conversation) \<times> 's" where
  "conversation_update db i input s =
     update_row ''update conversation %d: %w'' db (conversation_get_by_id db) i
       [(''last_message_id'', uint_ptr (ucv_last_message_id input)),
        (''last_message_content'', Text (ucv_last_message_content input)),
        (''last_message_sent_time'', time_ptr (ucv_last_message_sent_time input))] s"

definition conversation_delete :: "(conversation, 's) gorm \<Rightarrow> nat \<Rightarrow> 's \<Rightarrow> store_error option \<times> 's" where
  "conversation_delete db i s = delete_row ''delete conversation %d: %w'' db i s"

record 's conversation_repository =
  rcv_create :: "create_conversation_input \<Rightarrow> 's \<Rightarrow> (store_error + conversation) \<times> 's"
  rcv_get_by_id :: "nat \<Rightarrow> 's \<Rightarrow> store_error + conversation"
  rcv_list_by_user_id :: "nat \<Rightarrow> int \<Rightarrow> int \<Rightarrow> 's \<Rightarrow> store_error + conversation list"
  rcv_update :: "nat \<Rightarrow> update_conversation_input \<Rightarrow> 's \<Rightarrow> (store_error + conversation) \<times> 's"
  rcv_delete :: "nat \<Rightarrow> 's \<Rightarrow> store_error option \<times> 's"

definition new_conversation_repository ::
    "(conversation, 's) gorm \<Rightarrow> 's conversation_repository" where
  "new_conversation_repository db =
     \<lparr>rcv_create = conversation_create db, rcv_get_by_id = conversation_get_by_id db,
       rcv_list_by_user_id = conversation_list_by_user_id db, rcv_update = conversation_update db,
       rcv_delete = conversation_delete db\<rparr>"

subsection \<open>Messages\<close>

record create_message_input =
  nmg_conversation_id :: nat
  nmg_sender_user_id :: nat
  nmg_type :: string
  nmg_content_url :: string
  nmg_message_status :: string
  nmg_related_hashtag :: string

record update_message_input =
  umg_type :: string
  umg_content_url :: string
  umg_message_status :: string
  umg_related_hashtag :: string

definition message_create ::
    "((string \<times> sql_value) list \<Rightarrow> 'r) \<Rightarrow> ('r, 's) gorm \<Rightarrow> create_message_input \<Rightarrow> 's \<Rightarrow> (store_error + 'r) \<times> 's" where
  "message_create lit db input s =
     create_row ''create message: %w'' db
       (lit [(''ConversationID'', Uint (nmg_conversation_id input)),
            (''SenderUserID'', Uint (nmg_sender_user_id input)), (''Type'', Text (nmg_type input)),
            (''ContentURL'', Text (nmg_content_url input)),
            (''MessageStatus'', Text (nmg_message_status input)),
            (''RelatedHashtag'', Text (nmg_related_hashtag input))]) s"

definition message_get_by_id :: "('r, 's) gorm \<Rightarrow> nat \<Rightarrow> 's \<Rightarrow> store_error + 'r" where
  "message_get_by_id db i s = get_row ''get message by id %d: %w'' db i s"

definition message_list_by_conversation_id ::
    "('r, 's) gorm \<Rightarrow> nat \<Rightarrow> int \<Rightarrow> int \<Rightarrow> 's \<Rightarrow> store_error + 'r list" where
  "message_list_by_conversation_id db conversation_id limit offset s =
     list_rows ''list messages by conversation id %d: %w'' [Uint conversation_id] db 100
       (Some (Eq ''conversation_id'' (Uint conversation_id))) [(''creation_date'', ASC)] limit offset s"

definition message_update ::
    "('r, 's) gorm \<Rightarrow> nat \<Rightarrow> update_message_input \<Rightarrow> 's \<Rightarrow> (store_error + 'r) \<times> 's" where
  "message_update db i input s =
     update_row ''update message %d: %w'' db (message_get_by_id db) i
       [(''type'', Text (umg_type input)), (''content_url'', Text (umg_content_url input)),
        (''message_status'', Text (umg_message_status input)),
        (''related_hashtag'', Text (umg_related_hashtag input))] s"

definition message_delete :: "('r, 's) gorm \<Rightarrow> nat \<Rightarrow> 's \<Rightarrow> store_error option \<times> 's" where
  "message_delete db i s = delete_row ''delete message %d: %w'' db i s"

record ('r, 's) message_repository =
  rmg_create :: "create_message_input \<Rightarrow> 's \<Rightarrow> (store_error + 'r) \<times> 's"
  rmg_get_by_id :: "nat \<Rightarrow> 's \<Rightarrow> store_error + 'r"
  rmg_list_by_conversation_id :: "nat \<Rightarrow> int \<Rightarrow> int \<Rightarrow> 's \<Rightarrow> store_error + 'r list"
  rmg_update :: "nat \<Rightarrow> update_message_input \<Rightarrow> 's \<Rightarrow> (store_error + 'r) \<times> 's"
  rmg_delete :: "nat \<Rightarrow> 's \<Rightarrow> store_error option \<times> 's"

definition new_message_repository ::
    "((string \<times> sql_value) list \<Rightarrow> 'r) \<Rightarrow> ('r, 's) gorm \<Rightarrow> ('r, 's) message_repository" where
  "new_message_repository lit db =
     \<lparr>rmg_create = message_create lit db, rmg_get_by_id = message_get_by_id db,
       rmg_list_by_conversation_id = message_list_by_conversation_id db, rmg_update = message_update db,
       rmg_delete = message_delete db\<rparr>"

subsection \<open>Notifications\<close>

record create_notification_input =
  nnt_user_id :: nat
  nnt_content_type :: string
  nnt_directed_content_url :: string
  nnt_related_user_id :: "nat option"
  nnt_related_message_id :: "nat option"
  nnt_read_status :: bool

record update_notification_input =
  unt_content_type :: string
  unt_directed_content_url :: string
  unt_related_user_id :: "nat option"
  unt_related_message_id :: "nat option"
  unt_read_status :: bool

definition notification_create ::
    "((string \<times> sql_value) list \<Rightarrow> 'r) \<Rightarrow> ('r, 's) gorm \<Rightarrow> create_notification_input \<Rightarrow> 's \<Rightarrow> (store_error + 'r) \<times> 's" where
  "notification_create lit db input s =
     create_row ''create notification: %w'' db
       (lit [(''UserID'', Uint (nnt_user_id input)), (''ContentType'', Text (nnt_content_type input)),
            (''DirectedContentURL'', Text (nnt_directed_content_url input)),
            (''RelatedUserID'', uint_ptr (nnt_related_user_id input)),
            (''RelatedMessageID'', uint_ptr (nnt_related_message_id input)),
            (''ReadStatus'', Bool (nnt_read_status input))]) s"

definition notification_get_by_id :: "('r, 's) gorm \<Rightarrow> nat \<Rightarrow> 's \<Rightarrow> store_error + 'r" where
  "notification_get_by_id db i s = get_row ''get notification by id %d: %w'' db i s"

definition notification_list_by_user_id ::
    "('r, 's) gorm \<Rightarrow> nat \<Rightarrow> int \<Rightarrow> int \<Rightarrow> 's \<Rightarrow> store_error + 'r list" where
  "notification_list_by_user_id db user_id limit offset s =
     list_rows ''list notifications by user id %d: %w'' [Uint user_id] db 50
       (Some (Eq ''user_id'' (Uint user_id))) [(''creation_date'', DESC)] limit offset s"

definition notification_update ::
    "('r, 's) gorm \<Rightarrow> nat \<Rightarrow> update_notification_input \<Rightarrow> 's \<Rightarrow> (store_error + 'r) \<times> 's" where
  "notification_update db i input s =
     update_row ''update notification %d: %w'' db (notification_get_by_id db) i
       [(''content_type'', Text (unt_content_type input)),
        (''directed_content_url'', Text (unt_directed_content_url input)),
        (''related_user_id'', uint_ptr (unt_related_user_id input)),
        (''related_message_id'', uint_ptr (unt_related_message_id input)),
        (''read_status'', Bool (unt_read_status input))] s"

definition notification_mark_read ::
    "('r, 's) gorm \<Rightarrow> nat \<Rightarrow> 's \<Rightarrow> (store_error + 'r) \<times> 's" where
  "notification_mark_read db i s =
     update_row ''mark notification %d as read: %w'' db (notification_get_by_id db) i
       [(''read_status'', Bool True)] s"

definition notification_delete :: "('r, 's) gorm \<Rightarrow> nat \<Rightarrow> 's \<Rightarrow> store_error option \<times> 's" where
  "notification_delete db i s = delete_row ''delete notification %d: %w'' db i s"

record ('r, 's) notification_repository =
  rnt_create :: "create_notification_input \<Rightarrow> 's \<Rightarrow> (store_error + 'r) \<times> 's"
  rnt_get_by_id :: "nat \<Rightarrow> 's \<Rightarrow> store_error + 'r"
  rnt_list_by_user_id :: "nat \<Rightarrow> int \<Rightarrow> int \<Rightarrow> 's \<Rightarrow> store_error + 'r list"
  rnt_update :: "nat \<Rightarrow> update_notification_input \<Rightarrow> 's \<Rightarrow> (store_error + 'r) \<times> 's"
  rnt_mark_read :: "nat \<Rightarrow> 's \<Rightarrow> (store_error + 'r) \<times> 's"
  rnt_delete :: "nat \<Rightarrow> 's \<Rightarrow> store_error option \<times> 's"

definition new_notification_repository ::
    "((string \<times> sql_value) list \<Rightarrow> 'r) \<Rightarrow> ('r, 's) gorm \<Rightarrow> ('r, 's) notification_repository" where
  "new_notification_repository lit db =
     \<lparr>rnt_create = notification_create lit db, rnt_get_by_id = notification_get_by_id db,
       rnt_list_by_user_id = notification_list_by_user_id db, rnt_update = notification_update db,
       rnt_mark_read = notification_mark_read db, rnt_delete = notification_delete db\<rparr>"

subsection \<open>Reports\<close>

record create_report_input =
  nrt_report_type_id :: nat
  nrt_reporter_id :: nat
  nrt_description :: string
  nrt_related_user_id :: "nat option"
  nrt_related_content_id :: "nat option"
  nrt_related_message_id :: "nat option"
  nrt_status :: string

record update_report_input =
  urt_description :: string
  urt_related_user_id :: "nat option"
  urt_related_content_id :: "nat option"
  urt_related_message_id :: "nat option"
  urt_status :: string

definition report_create ::
    "((string \<times> sql_value) list \<Rightarrow> 'r) \<Rightarrow> ('r, 's) gorm \<Rightarrow> create_report_input \<Rightarrow> 's \<Rightarrow> (store_error + 'r) \<times> 's" where
  "report_create lit db input s =
     create_row ''create report: %w'' db
       (lit [(''ReportTypeID'', Uint (nrt_report_type_id input)),
            (''ReporterID'', Uint (nrt_reporter_id input)), (''Description'', Text (nrt_description input)),
            (''RelatedUserID'', uint_ptr (nrt_related_user_id input)),
            (''RelatedContentID'', uint_ptr (nrt_related_content_id input)),
            (''RelatedMessageID'', uint_ptr (nrt_related_message_id input)),
            (''Status'', Text (nrt_status input))]) s"

definition report_get_by_id :: "('r, 's) gorm \<Rightarrow> nat \<Rightarrow> 's \<Rightarrow> store_error + 'r" where
  "report_get_by_id db i s = get_row ''get report by id %d: %w'' db i s"

definition report_list ::
    "('r, 's) gorm \<Rightarrow> int \<Rightarrow> int \<Rightarrow> 's \<Rightarrow> store_error + 'r list" where
  "report_list db limit offset s =
     list_rows ''list reports: %w'' [] db 50
       None [(''creation_date'', DESC)] limit offset s"

definition report_update ::
    "('r, 's) gorm \<Rightarrow> nat \<Rightarrow> update_report_input \<Rightarrow> 's \<Rightarrow> (store_error + 'r) \<times> 's" where
  "report_update db i input s =
     update_row ''update report %d: %w'' db (report_get_by_id db) i
       [(''description'', Text (urt_description input)),
        (''related_user_id'', uint_ptr (urt_related_user_id input)),
        (''related_content_id'', uint_ptr (urt_related_content_id input)),
        (''related_message_id'', uint_ptr (urt_related_message_id input)), (''status'', Text (urt_status input))] s"

definition report_delete :: "('r, 's) gorm \<Rightarrow> nat \<Rightarrow> 's \<Rightarrow> store_error option \<times> 's" where
  "report_delete db i s = delete_row ''delete report %d: %w'' db i s"

record ('r, 's) report_repository =
  rrt_create :: "create_report_input \<Rightarrow> 's \<Rightarrow> (store_error + 'r) \<times> 's"
  rrt_get_by_id :: "nat \<Rightarrow> 's \<Rightarrow> store_error + 'r"
  rrt_list :: "int \<Rightarrow> int \<Rightarrow> 's \<Rightarrow> store_error + 'r list"
  rrt_update :: "nat \<Rightarrow> update_report_input \<Rightarrow> 's \<Rightarrow> (store_error + 'r) \<times> 's"
  rrt_delete :: "nat \<Rightarrow> 's \<Rightarrow> store_error option \<times> 's"

definition new_report_repository ::
    "((string \<times> sql_value) list \<Rightarrow> 'r) \<Rightarrow> ('r, 's) gorm \<Rightarrow> ('r, 's) report_repository" where
  "new_report_repository lit db =
     \<lparr>rrt_create = report_create lit db, rrt_get_by_id = report_get_by_id db, rrt_list = report_list db,
       rrt_update = report_update db, rrt_delete = report_delete db\<rparr>"

subsection \<open>Report types\<close>

record create_report_type_input =
  nrp_category_name :: string
  nrp_name :: string
  nrp_importance :: int
  nrp_deadline_duration :: int

record update_report_type_input =
  urp_category_name :: string
  urp_name :: string
  urp_importance :: int
  urp_deadline_duration :: int

definition report_type_create :: "(report_type, 's) gorm \<Rightarrow> create_report_type_input \<Rightarrow> 's \<Rightarrow> (store_error + report_type) \<times> 's" where
  "report_type_create db input s =
     create_row ''create report type: %w'' db
       (zero_report_type\<lparr>rp_category_name := nrp_category_name input, rp_name := nrp_name input,
            rp_importance := nrp_importance input, rp_deadline_duration := nrp_deadline_duration input\<rparr>) s"

definition report_type_get_by_id :: "(report_type, 's) gorm \<Rightarrow> nat \<Rightarrow> 's \<Rightarrow> store_error + report_type" where
  "report_type_get_by_id db i s = get_row ''get report type by id %d: %w'' db i s"

definition report_type_list ::
    "(report_type, 's) gorm \<Rightarrow> int \<Rightarrow> int \<Rightarrow> 's \<Rightarrow> store_error + report_type list" where
  "report_type_list db limit offset s =
     list_rows ''list report types: %w'' [] db 50
       None [(''importance'', DESC), (''id'', DESC)] limit offset s"

definition report_type_update ::
    "(report_type, 's) gorm \<Rightarrow> nat \<Rightarrow> update_report_type_input \<Rightarrow> 's \<Rightarrow> (store_error + report_type) \<times> 's" where
  "report_type_update db i input s =
     update_row ''update report type %d: %w'' db (report_type_get_by_id db) i
       [(''category_name'', Text (urp_category_name input)), (''name'', Text (urp_name input)),
        (''importance'', IntV (urp_importance input)),
        (''deadline_duration'', IntV (urp_deadline_duration input))] s"

definition report_type_delete :: "(report_type, 's) gorm \<Rightarrow> nat \<Rightarrow> 's \<Rightarrow> store_error option \<times> 's" where
  "report_type_delete db i s = delete_row ''delete report type %d: %w'' db i s"

record 's report_type_repository =
  rrp_create :: "create_report_type_input \<Rightarrow> 's \<Rightarrow> (store_error + report_type) \<times> 's"
  rrp_get_by_id :: "nat \<Rightarrow> 's \<Rightarrow> store_error + report_type"
  rrp_list :: "int \<Rightarrow> int \<Rightarrow> 's \<Rightarrow> store_error + report_type list"
  rrp_update :: "nat \<Rightarrow> update_report_type_input \<Rightarrow> 's \<Rightarrow> (store_error + report_type) \<times> 's"
  rrp_delete :: "nat \<Rightarrow> 's \<Rightarrow> store_error option \<times> 's"

definition new_report_type_repository ::
    "(report_type, 's) gorm \<Rightarrow> 's report_type_repository" where
  "new_report_type_repository db =
     \<lparr>rrp_create = report_type_create db, rrp_get_by_id = report_type_get_by_id db,
       rrp_list = report_type_list db, rrp_update = report_type_update db, rrp_delete = report_type_delete db\<rparr>"

end
