(* ===== verification/RepoProps.thy ===== *)
theory RepoProps
  imports GormMemory ContentRepos MessageRepos
begin

text \<open>
  What the repositories of \<^verbatim>\<open>internal/repository\<close> promise, over any database that keeps the laws of
  \<open>gorm_table\<close>. The lemmas \<open>X_crud\<close> say that Create, GetByID and Delete of each repository keep the
  contract \<open>crud\<close>; the theorems are about the methods that do more. The witnesses run on tables in
  memory (\<open>fixed_model\<close> for the records, whose rows are never updated there, \<open>struct_model\<close> for rows
  that are lists of columns).
\<close>

subsection \<open>Create, GetByID and Delete of every repository\<close>

lemma follow_crud:
  assumes "gorm_table db tbl follow_col auto stamps dflt ok"
  shows "crud (follow_create db) (follow_get_by_id db) (follow_delete db) tbl (row_key follow_col) (row_kept follow_col) ok"
  unfolding follow_create_def [abs_def] follow_get_by_id_def [abs_def] follow_delete_def [abs_def]
  by (rule gorm_table.table_crud [OF assms])

lemma content_crud:
  assumes "gorm_table db tbl content_col auto stamps dflt ok"
  shows "crud (content_create db) (content_get_by_id db) (content_delete db) tbl (row_key content_col) (row_kept content_col) ok"
  unfolding content_create_def [abs_def] content_get_by_id_def [abs_def] content_delete_def [abs_def]
  by (rule gorm_table.table_crud [OF assms])

lemma comment_crud:
  assumes "gorm_table db tbl col auto stamps dflt ok"
  shows "crud (comment_create lit db) (comment_get_by_id db) (comment_delete db) tbl (row_key col) (row_kept col) ok"
  unfolding comment_create_def [abs_def] comment_get_by_id_def [abs_def] comment_delete_def [abs_def]
  by (rule gorm_table.table_crud [OF assms])

lemma liked_crud:
  assumes "gorm_table db tbl liked_col auto stamps dflt ok"
  shows "crud (liked_create db) (liked_get_by_id db) (liked_delete db) tbl (row_key liked_col) (row_kept liked_col) ok"
  unfolding liked_create_def [abs_def] liked_get_by_id_def [abs_def] liked_delete_def [abs_def]
  by (rule gorm_table.table_crud [OF assms])

lemma hashtag_crud:
  assumes "gorm_table db tbl hashtag_col auto stamps dflt ok"
  shows "crud (hashtag_create db) (hashtag_get_by_id db) (hashtag_delete db) tbl (row_key hashtag_col) (row_kept hashtag_col) ok"
  unfolding hashtag_create_def [abs_def] hashtag_get_by_id_def [abs_def] hashtag_delete_def [abs_def]
  by (rule gorm_table.table_crud [OF assms])

lemma hashtag_category_crud:
  assumes "gorm_table db tbl col auto stamps dflt ok"
  shows "crud (hashtag_category_create lit db) (hashtag_category_get_by_id db) (hashtag_category_delete db) tbl (row_key col) (row_kept col) ok"
  unfolding hashtag_category_create_def [abs_def] hashtag_category_get_by_id_def [abs_def] hashtag_category_delete_def [abs_def]
  by (rule gorm_table.table_crud [OF assms])

lemma location_crud:
  assumes "gorm_table db tbl col auto stamps dflt ok"
  shows "crud (location_create lit db) (location_get_by_id db) (location_delete db) tbl (row_key col) (row_kept col) ok"
  unfolding location_create_def [abs_def] location_get_by_id_def [abs_def] location_delete_def [abs_def]
  by (rule gorm_table.table_crud [OF assms])

lemma conversation_crud:
  assumes "gorm_table db tbl conversation_col auto stamps dflt ok"
  shows "crud (conversation_create db) (conversation_get_by_id db) (conversation_delete db) tbl (row_key conversation_col) (row_kept conversation_col) ok"
  unfolding conversation_create_def [abs_def] conversation_get_by_id_def [abs_def] conversation_delete_def [abs_def]
  by (rule gorm_table.table_crud [OF assms])

lemma message_crud:
  assumes "gorm_table db tbl col auto stamps dflt ok"
  shows "crud (message_create lit db) (message_get_by_id db) (message_delete db) tbl (row_key col) (row_kept col) ok"
  unfolding message_create_def [abs_def] message_get_by_id_def [abs_def] message_delete_def [abs_def]
  by (rule gorm_table.table_crud [OF assms])

lemma notification_crud:
  assumes "gorm_table db tbl col auto stamps dflt ok"
  shows "crud (notification_create lit db) (notification_get_by_id db) (notification_delete db) tbl (row_key col) (row_kept col) ok"
  unfolding notification_create_def [abs_def] notification_get_by_id_def [abs_def] notification_delete_def [abs_def]
  by (rule gorm_table.table_crud [OF assms])

lemma report_crud:
  assumes "gorm_table db tbl col auto stamps dflt ok"
  shows "crud (report_create lit db) (report_get_by_id db) (report_delete db) tbl (row_key col) (row_kept col) ok"
  unfolding report_create_def [abs_def] report_get_by_id_def [abs_def] report_delete_def [abs_def]
  by (rule gorm_table.table_crud [OF assms])

lemma report_type_crud:
  assumes "gorm_table db tbl report_type_col auto stamps dflt ok"
  shows "crud (report_type_create db) (report_type_get_by_id db) (report_type_delete db) tbl (row_key report_type_col) (row_kept report_type_col) ok"
  unfolding report_type_create_def [abs_def] report_type_get_by_id_def [abs_def] report_type_delete_def [abs_def]
  by (rule gorm_table.table_crud [OF assms])

subsection \<open>Tables in memory\<close>

definition fixed_model :: "('r \<Rightarrow> string \<Rightarrow> sql_value) \<Rightarrow> (nat \<Rightarrow> 'r \<Rightarrow> 'r) \<Rightarrow> 'r mem_model" where
  "fixed_model col fill = \<lparr>mm_col = col, mm_fits = (\<lambda>_ _. False), mm_set = (\<lambda>_ _ r. r), mm_fill = fill, mm_store = (\<lambda>r. r)\<rparr>"

lemma fixed_model_col [simp]: "mm_col (fixed_model col fill) = col"
  by (simp add: fixed_model_def)

lemma fixed_model_ok:
  assumes "\<And>i r. col (fill i r) ''id'' = Uint i" and "\<And>i r. created auto dflt (col r) (col (fill i r))"
  shows "model_ok (fixed_model col fill) auto dflt"
  using assms by (simp add: model_ok_def fixed_model_def row_kept_def)

type_synonym struct = "(string \<times> sql_value) list"

definition struct_model :: "struct mem_model" where
  "struct_model =
     \<lparr>mm_col = column, mm_fits = (\<lambda>c _. c \<noteq> ''id''), mm_set = (\<lambda>c v r. (c, v) # r), mm_fill = (\<lambda>i r. (''id'', Uint i) # r),
      mm_store = (\<lambda>r. r)\<rparr>"

lemma struct_model_ok: "model_ok struct_model {''id''} (\<lambda>_. None)"
  by (auto simp: model_ok_def struct_model_def column_def created_def row_kept_def)

interpretation structs: gorm_table "mem_gorm struct_model (\<lambda>_. False)" mem_tbl column "{''id''}" "{}" "\<lambda>_. None" "mem_table_ok struct_model"
  using mem_gorm_table [OF struct_model_ok, of "{}" "\<lambda>_. False"] by (simp add: struct_model_def)

definition hashtag_model :: "hashtag mem_model" where
  "hashtag_model = fixed_model hashtag_col (\<lambda>i r. r\<lparr>ht_id := i\<rparr>)"

definition hashtags_db :: "(hashtag, hashtag mem_table) gorm" where
  "hashtags_db = mem_gorm hashtag_model (\<lambda>_. False)"

lemma hashtag_model_ok: "model_ok hashtag_model hashtag_auto (\<lambda>_. None)"
  unfolding hashtag_model_def
  by (rule fixed_model_ok) (simp_all add: created_def hashtag_col_def column_def hashtag_auto_def)

interpretation hashtags: gorm_table hashtags_db mem_tbl hashtag_col hashtag_auto "{}" "\<lambda>_. None" "mem_table_ok hashtag_model"
  using mem_gorm_table [OF hashtag_model_ok, of "{}" "\<lambda>_. False"] by (simp add: hashtags_db_def hashtag_model_def)

interpretation hashtag_repo: crud "hashtag_create hashtags_db" "hashtag_get_by_id hashtags_db" "hashtag_delete hashtags_db"
    mem_tbl "row_key hashtag_col" "row_kept hashtag_col" "mem_table_ok hashtag_model"
  by (rule hashtag_crud [OF hashtags.gorm_table_axioms])

text \<open>The times of a follow lose what is below a microsecond when they are stored.\<close>

definition follow_model :: "follow mem_model" where
  "follow_model = (fixed_model follow_col
     (\<lambda>i r. r\<lparr>fw_id := i, fw_follow_status := (if fw_follow_status r = [] then ''pending'' else fw_follow_status r),
              fw_follow_start := 1234, fw_follow_date := 1234\<rparr>))
     \<lparr>mm_store := (\<lambda>r. r\<lparr>fw_follow_start := 1000 * (fw_follow_start r div 1000),
                         fw_follow_date := 1000 * (fw_follow_date r div 1000)\<rparr>)\<rparr>"

definition follows_db :: "(follow, follow mem_table) gorm" where
  "follows_db = mem_gorm follow_model (\<lambda>_. False)"

lemma below_micro: "t - 1000 * (t div 1000) < (1000 :: int)"
  by presburger

lemma follow_model_ok: "model_ok follow_model follow_auto follow_default"
proof -
  have "model_ok (fixed_model follow_col (mm_fill follow_model)) follow_auto follow_default"
    by (rule fixed_model_ok)
      (simp_all add: follow_model_def fixed_model_def created_def follow_col_def column_def follow_auto_def follow_default_def
        zero_value_def)
  moreover have "row_kept follow_col r (mm_store follow_model r)" for r
    by (simp add: row_kept_def follow_model_def follow_col_def column_def below_micro)
  ultimately show ?thesis by (simp add: model_ok_def fixed_model_def follow_model_def)
qed

interpretation follows: gorm_table follows_db mem_tbl follow_col follow_auto "{}" follow_default "mem_table_ok follow_model"
  using mem_gorm_table [OF follow_model_ok, of "{}" "\<lambda>_. False"] by (simp add: follows_db_def follow_model_def fixed_model_def)

definition conversation_model :: "conversation mem_model" where
  "conversation_model = fixed_model conversation_col (\<lambda>i r. r\<lparr>cv_id := i, cv_creation_date := 1, cv_updated_at := 1\<rparr>)"

definition conversations_db :: "(conversation, conversation mem_table) gorm" where
  "conversations_db = mem_gorm conversation_model (\<lambda>_. False)"

lemma conversation_model_ok: "model_ok conversation_model conversation_auto (\<lambda>_. None)"
  unfolding conversation_model_def
  by (rule fixed_model_ok) (simp_all add: created_def conversation_col_def column_def conversation_auto_def)

interpretation conversations: gorm_table conversations_db mem_tbl conversation_col conversation_auto "{}" "\<lambda>_. None"
    "mem_table_ok conversation_model"
  using mem_gorm_table [OF conversation_model_ok, of "{}" "\<lambda>_. False"]
  by (simp add: conversations_db_def conversation_model_def)

subsection \<open>Listings\<close>

lemma hashtag_order:
  "may_precede [(''popularity_score'', DESC), (''id'', DESC)] (hashtag_col a) (hashtag_col b) \<longleftrightarrow>
     ht_popularity_score b < ht_popularity_score a \<or>
     (ht_popularity_score a = ht_popularity_score b \<and> ht_id b \<le> ht_id a)"
  by (auto simp: hashtag_col_def column_def Let_def)

text \<open>
  C36. The pages of the hashtag list (offsets 0, n, 2n, ... with limit n) put together are the
  beginning of one list that holds every hashtag once, the most popular first and of equally
  popular ones the latest first: no hashtag is skipped or shown twice while the table does not
  change.
\<close>

theorem hashtag_pages:
  assumes "gorm_table db tbl hashtag_col auto stamps dflt ok" and "ok s" and "0 < n" and "0 < k"
    and "\<And>i. i < k \<Longrightarrow> hashtag_list db (int n) (int (i * n)) s = Inr (pages i)"
  shows "\<exists>L. distinct L \<and> set L = ran (tbl s) \<and>
     sorted_wrt (\<lambda>a b. ht_popularity_score b < ht_popularity_score a \<or>
                       (ht_popularity_score a = ht_popularity_score b \<and> ht_id b \<le> ht_id a)) L \<and>
     concat (map pages [0..<k]) = take (k * n) L"
proof -
  have page: "list_rows ''list hashtags: %w'' [] db 50 None [(''popularity_score'', DESC), (''id'', DESC)]
      (int n) (int (i * n)) s = Inr (pages i)" if "i < k" for i
    using assms(5) [OF that] by (simp only: hashtag_list_def)
  have id: "(''id'', DESC) \<in> set [(''popularity_score'', DESC), (''id'', DESC)]" by simp
  show ?thesis
    using gorm_table.listing_pages [OF assms(1,2) id _ assms(3,4) page]
    by (simp add: where_holds_def hashtag_order del: may_precede.simps)
qed

definition demo_tag :: "nat \<Rightarrow> int \<Rightarrow> hashtag" where
  "demo_tag i score = zero_hashtag\<lparr>ht_id := i, ht_popularity_score := score\<rparr>"

definition demo_hashtags :: "hashtag mem_table" where
  "demo_hashtags = \<lparr>mt_next = 4, mt_rows = [(1, demo_tag 1 7), (2, demo_tag 2 7), (3, demo_tag 3 9)]\<rparr>"

lemma demo_hashtags_ok: "mem_table_ok hashtag_model demo_hashtags"
  by (simp add: mem_table_ok_def demo_hashtags_def demo_tag_def hashtag_model_def hashtag_col_def column_def zero_hashtag_def)

lemma demo_hashtag_pages:
  "hashtag_list hashtags_db 2 0 demo_hashtags = Inr [demo_tag 3 9, demo_tag 2 7]"
  "hashtag_list hashtags_db 2 2 demo_hashtags = Inr [demo_tag 1 7]"
  by code_simp+

theorem hashtag_pages_witness:
  "\<exists>L. distinct L \<and> set L = ran (mem_tbl demo_hashtags) \<and>
     sorted_wrt (\<lambda>a b. ht_popularity_score b < ht_popularity_score a \<or>
                       (ht_popularity_score a = ht_popularity_score b \<and> ht_id b \<le> ht_id a)) L \<and>
     concat (map (\<lambda>i. if i = 0 then [demo_tag 3 9, demo_tag 2 7] else [demo_tag 1 7]) [0..<2]) = take (2 * 2) L"
  by (rule hashtag_pages [OF hashtags.gorm_table_axioms demo_hashtags_ok])
    (auto simp: less_2_cases_iff demo_hashtag_pages)

definition shuffled_db :: "(struct, struct mem_table) gorm" where
  "shuffled_db = mem_gorm struct_model (\<lambda>q. 0 < q_offset q)"

definition demo_comment :: "nat \<Rightarrow> struct" where
  "demo_comment i = [(''id'', Uint i), (''content_id'', Uint 5), (''creation_date'', Time 100)]"

definition demo_comments :: "struct mem_table" where
  "demo_comments = \<lparr>mt_next = 3, mt_rows = [(1, demo_comment 1), (2, demo_comment 2)]\<rparr>"

text \<open>
  C40. Where the order does not end in the primary key, pages need not fit together: comments with
  the same creation time may come in another order for every query, so a reader of pages can see
  one comment twice and never see another, although nothing is written in between.
\<close>

theorem comment_pages_repeat:
  "gorm_table shuffled_db mem_tbl column {''id''} {} (\<lambda>_. None) (mem_table_ok struct_model) \<and>
   mem_table_ok struct_model demo_comments \<and>
   ran (mem_tbl demo_comments) = {demo_comment 1, demo_comment 2} \<and> demo_comment 1 \<noteq> demo_comment 2 \<and>
   comment_list_by_content_id shuffled_db 5 1 0 demo_comments = Inr [demo_comment 1] \<and>
   comment_list_by_content_id shuffled_db 5 1 1 demo_comments = Inr [demo_comment 1]"
proof (intro conjI)
  show "gorm_table shuffled_db mem_tbl column {''id''} {} (\<lambda>_. None) (mem_table_ok struct_model)"
    using mem_gorm_table [OF struct_model_ok, of "{}"] by (simp add: shuffled_db_def struct_model_def)
  show ok: "mem_table_ok struct_model demo_comments"
    by (simp add: mem_table_ok_def demo_comments_def demo_comment_def struct_model_def column_def)
  show "ran (mem_tbl demo_comments) = {demo_comment 1, demo_comment 2}"
    by (simp add: ran_mem [OF ok]) (auto simp: demo_comments_def)
  show "demo_comment 1 \<noteq> demo_comment 2" by (simp add: demo_comment_def)
  show "comment_list_by_content_id shuffled_db 5 1 0 demo_comments = Inr [demo_comment 1]" by code_simp
  show "comment_list_by_content_id shuffled_db 5 1 1 demo_comments = Inr [demo_comment 1]" by code_simp
qed

lemma conversation_order:
  "may_precede [(''updated_at'', DESC)] (conversation_col a) (conversation_col b) \<longleftrightarrow> cv_updated_at b \<le> cv_updated_at a"
  by (auto simp: conversation_col_def column_def Let_def)

lemma conversation_of_user:
  "where_holds (conversation_col c) (Some (Or (Eq ''first_user_id'' (Uint user)) (Eq ''second_user_id'' (Uint user)))) \<longleftrightarrow>
     cv_first_user_id c = user \<or> cv_second_user_id c = user"
  by (simp add: where_holds_def conversation_col_def column_def)

text \<open>
  C39. A page of a user's conversations holds only conversations with that user, in either place,
  none twice, the one touched last first, and at most the limit (50 if none is asked for); the
  first page holds all of them if they fit.
\<close>

theorem conversation_listing:
  assumes "gorm_table db tbl conversation_col auto stamps dflt ok" and "ok s"
    and "conversation_list_by_user_id db user limit offset s = Inr rs"
    and "mine = {c \<in> ran (tbl s). cv_first_user_id c = user \<or> cv_second_user_id c = user}"
    and "room = nat (if limit \<le> 0 then 50 else limit)"
  shows "distinct rs \<and> set rs \<subseteq> mine \<and> length rs \<le> room \<and>
     sorted_wrt (\<lambda>a b. cv_updated_at b \<le> cv_updated_at a) rs \<and>
     (offset \<le> 0 \<and> card mine \<le> room \<longrightarrow> set rs = mine)"
proof -
  have page: "list_rows ''list conversations by user id %d: %w'' [Uint user] db 50
      (Some (Or (Eq ''first_user_id'' (Uint user)) (Eq ''second_user_id'' (Uint user)))) [(''updated_at'', DESC)]
      limit offset s = Inr rs"
    using assms(3) by (simp only: conversation_list_by_user_id_def)
  obtain L where L: "distinct L" "set L = mine" "sorted_wrt (\<lambda>a b. cv_updated_at b \<le> cv_updated_at a) L"
    "rs = take room (drop (nat offset) L)"
    by (rule gorm_table.list_row_cases [OF assms(1,2) _ page])
      (simp_all only: conversation_order conversation_of_user assms(4,5) zero_less_numeral)
  have "rs = L" if "offset \<le> 0" "card mine \<le> room"
    using L(1,2,4) that distinct_card [OF L(1)] by simp
  moreover have "set rs \<subseteq> set L" unfolding L(4) by (meson order_trans set_drop_subset set_take_subset)
  ultimately show ?thesis
    using L by (auto intro: sorted_wrt_take sorted_wrt_drop)
qed

definition demo_talk :: "nat \<Rightarrow> nat \<Rightarrow> nat \<Rightarrow> int \<Rightarrow> conversation" where
  "demo_talk i first second touched =
     zero_conversation\<lparr>cv_id := i, cv_first_user_id := first, cv_second_user_id := second, cv_updated_at := touched\<rparr>"

definition demo_talks :: "conversation mem_table" where
  "demo_talks = \<lparr>mt_next = 4, mt_rows = [(1, demo_talk 1 8 5 40), (2, demo_talk 2 5 9 60), (3, demo_talk 3 8 9 50)]\<rparr>"

lemma demo_talks_ok: "mem_table_ok conversation_model demo_talks"
  by (simp add: mem_table_ok_def demo_talks_def demo_talk_def conversation_model_def conversation_col_def column_def
      zero_conversation_def)

lemma demo_talks_list: "conversation_list_by_user_id conversations_db 5 0 0 demo_talks = Inr [demo_talk 2 5 9 60, demo_talk 1 8 5 40]"
  by code_simp

theorem conversation_listing_witness:
  "set [demo_talk 2 5 9 60, demo_talk 1 8 5 40] \<subseteq>
     {c \<in> ran (mem_tbl demo_talks). cv_first_user_id c = 5 \<or> cv_second_user_id c = 5}"
  using conversation_listing [OF conversations.gorm_table_axioms demo_talks_ok demo_talks_list refl refl] by blast

subsection \<open>What Create stores\<close>

text \<open>
  C37. A created follow has a new key and the users asked for; its status is the one asked for, or
  "pending" if that was empty. The only change is one row under that key, which agrees with the row
  that Create returned, but for what is below a microsecond in the two times: the caller sees
  nanoseconds, the table does not keep them. GetByID with that key returns the stored row, or
  fails with an error of the database, but never with ErrNotFound.
\<close>

theorem follow_created:
  assumes "gorm_table db tbl follow_col follow_auto stamps follow_default ok" and "ok s"
    and "follow_create db input s = (Inr f, s')"
  shows "fw_follower_id f = nfw_follower_id input \<and> fw_followed_user_id f = nfw_followed_user_id input \<and>
     fw_follow_status f = (if nfw_follow_status input = [] then ''pending'' else nfw_follow_status input) \<and>
     tbl s (fw_id f) = None \<and>
     (\<exists>row. tbl s' = (tbl s)(fw_id f \<mapsto> row) \<and>
        fw_id row = fw_id f \<and> fw_follower_id row = fw_follower_id f \<and>
        fw_followed_user_id row = fw_followed_user_id f \<and> fw_follow_status row = fw_follow_status f \<and>
        \<bar>fw_follow_start row - fw_follow_start f\<bar> < 1000 \<and> \<bar>fw_follow_date row - fw_follow_date f\<bar> < 1000 \<and>
        (follow_get_by_id db (fw_id f) s' = Inr row \<or>
         (\<exists>e. e \<noteq> NotFound \<and> follow_get_by_id db (fw_id f) s' = Inl e)))"
proof -
  note crud = follow_crud [OF assms(1)]
  have key: "row_key follow_col f = fw_id f" by (simp add: row_key_def follow_col_def column_def)
  have "created follow_auto follow_default
      (follow_col (zero_follow\<lparr>fw_follower_id := nfw_follower_id input, fw_followed_user_id := nfw_followed_user_id input,
         fw_follow_status := nfw_follow_status input\<rparr>)) (follow_col f)"
    by (rule gorm_table.create_row_written [OF assms(1,2)]) (use assms(3) in \<open>simp only: follow_create_def\<close>)
  then have col: "c \<notin> follow_auto \<Longrightarrow> follow_col f c = (case follow_default c of
        None \<Rightarrow> follow_col (zero_follow\<lparr>fw_follower_id := nfw_follower_id input,
          fw_followed_user_id := nfw_followed_user_id input, fw_follow_status := nfw_follow_status input\<rparr>) c
      | Some d \<Rightarrow> if zero_value (follow_col (zero_follow\<lparr>fw_follower_id := nfw_follower_id input,
          fw_followed_user_id := nfw_followed_user_id input, fw_follow_status := nfw_follow_status input\<rparr>) c)
          then d else follow_col (zero_follow\<lparr>fw_follower_id := nfw_follower_id input,
          fw_followed_user_id := nfw_followed_user_id input, fw_follow_status := nfw_follow_status input\<rparr>) c)" for c
    by (simp add: created_def)
  have fields: "fw_follower_id f = nfw_follower_id input" "fw_followed_user_id f = nfw_followed_user_id input"
    "fw_follow_status f = (if nfw_follow_status input = [] then ''pending'' else nfw_follow_status input)"
    using col [of "''follower_id''"] col [of "''followed_user_id''"] col [of "''follow_status''"]
    by (auto simp: follow_auto_def follow_default_def follow_col_def column_def zero_value_def split: if_splits)
  obtain row where new: "tbl s (fw_id f) = None" and row: "row_kept follow_col f row"
    and rest: "tbl s' = (tbl s)(fw_id f \<mapsto> row)"
      "follow_get_by_id db (fw_id f) s' = Inr row \<or> (\<exists>e. e \<noteq> NotFound \<and> follow_get_by_id db (fw_id f) s' = Inl e)"
    using crud.create_get [OF crud assms(2,3)] unfolding key by blast
  have kept: "kept (follow_col f c) (follow_col row c)" for c using row by (simp add: row_kept_def)
  have "fw_id row = fw_id f \<and> fw_follower_id row = fw_follower_id f \<and>
      fw_followed_user_id row = fw_followed_user_id f \<and> fw_follow_status row = fw_follow_status f \<and>
      \<bar>fw_follow_start row - fw_follow_start f\<bar> < 1000 \<and> \<bar>fw_follow_date row - fw_follow_date f\<bar> < 1000"
    using kept [of "''id''"] kept [of "''follower_id''"] kept [of "''followed_user_id''"] kept [of "''follow_status''"]
      kept [of "''follow_start''"] kept [of "''follow_date''"]
    by (simp add: follow_col_def column_def)
  then show ?thesis using fields new rest by blast
qed

definition demo_follow :: create_follow_input where
  "demo_follow = \<lparr>nfw_follower_id = 3, nfw_followed_user_id = 4, nfw_follow_status = []\<rparr>"

definition demo_followed :: follow where
  "demo_followed =
     \<lparr>fw_id = 1, fw_follower_id = 3, fw_followed_user_id = 4, fw_follow_status = ''pending'', fw_follow_start = 1234,
      fw_follow_date = 1234\<rparr>"

definition stored_follow :: follow where
  "stored_follow = demo_followed\<lparr>fw_follow_start := 1000, fw_follow_date := 1000\<rparr>"

lemma demo_follow_create:
  "follow_create follows_db demo_follow \<lparr>mt_next = 1, mt_rows = []\<rparr> =
     (Inr demo_followed, \<lparr>mt_next = 2, mt_rows = [(1, stored_follow)]\<rparr>)"
  by code_simp

theorem follow_created_witness:
  "\<exists>row. mem_tbl \<lparr>mt_next = 2, mt_rows = [(1, stored_follow)]\<rparr> =
     (mem_tbl \<lparr>mt_next = 1, mt_rows = []\<rparr>)(fw_id demo_followed \<mapsto> row) \<and>
     fw_follow_status row = ''pending'' \<and> row \<noteq> demo_followed"
proof -
  let ?s = "\<lparr>mt_next = 1, mt_rows = []\<rparr> :: follow mem_table"
  have "mem_table_ok follow_model ?s" by (simp add: mem_table_ok_def)
  from follow_created [OF follows.gorm_table_axioms this demo_follow_create] obtain row where
    row: "mem_tbl \<lparr>mt_next = 2, mt_rows = [(1, stored_follow)]\<rparr> = (mem_tbl ?s)(fw_id demo_followed \<mapsto> row)"
    and status: "fw_follow_status row = fw_follow_status demo_followed" by blast
  from fun_cong [OF row, of 1] have "row = stored_follow"
    by (simp add: mem_tbl_def demo_followed_def)
  then have "row \<noteq> demo_followed" by (simp add: stored_follow_def demo_followed_def)
  moreover have "fw_follow_status row = ''pending''" using status by (simp add: demo_followed_def)
  ultimately show ?thesis using row by blast
qed

subsection \<open>Updates\<close>

text \<open>
  C38. MarkRead on every branch. If it returns a row, that is now the row of the key: it is marked
  read and agrees in every other column (but those that gorm stamps) with the row before. NotFound
  means that there was no such row, and nothing has changed. Of the other errors, the one of the
  update means that nothing has changed; the one of the look-up afterwards means that the
  notification is marked read all the same. No other notification is touched.
\<close>

theorem notification_marked:
  assumes "gorm_table db tbl col auto stamps dflt ok" and "ok s" and "''read_status'' \<notin> stamps"
    and "notification_mark_read db i s = (res, s')"
  shows "case res of
      Inl NotFound \<Rightarrow> tbl s i = None \<and> tbl s' = tbl s
    | Inl (Errorf f args e) \<Rightarrow>
        (f = ''mark notification %d as read: %w'' \<and> tbl s' = tbl s) \<or>
        (f = ''get notification by id %d: %w'' \<and>
         (\<exists>old new. tbl s i = Some old \<and> tbl s' = (tbl s)(i \<mapsto> new) \<and> col new ''read_status'' = Bool True))
    | Inr new \<Rightarrow> \<exists>old. tbl s i = Some old \<and> tbl s' = (tbl s)(i \<mapsto> new) \<and>
        (\<forall>c. c \<notin> stamps \<longrightarrow> col new c = (if c = ''read_status'' then Bool True else col old c))"
proof -
  have up: "update_row ''mark notification %d as read: %w'' db (get_row ''get notification by id %d: %w'' db) i
      [(''read_status'', Bool True)] s = (res, s')"
    using assms(4) by (simp only: notification_mark_read_def notification_get_by_id_def [abs_def])
  show ?thesis
  proof (rule gorm_table.update_row_cases [OF assms(1,2) up])
    fix e assume "res = Inl (Errorf ''mark notification %d as read: %w'' [Uint i] e)" "tbl s' = tbl s"
    then show ?thesis by simp
  next
    assume "res = Inl NotFound" "tbl s i = None" "tbl s' = tbl s"
    then show ?thesis by simp
  next
    fix old new
    assume row: "tbl s i = Some old" "tbl s' = (tbl s)(i \<mapsto> new)"
      "changed stamps [(''read_status'', Bool True)] (col old) (col new)"
      and res: "res = Inr new \<or>
        (\<exists>e. e \<noteq> ErrRecordNotFound \<and> res = Inl (Errorf ''get notification by id %d: %w'' [Uint i] e))"
    have col: "\<forall>c. c \<notin> stamps \<longrightarrow> col new c = (if c = ''read_status'' then Bool True else col old c)"
      using row(3) unfolding changed_def by (auto split: if_splits)
    show ?thesis using res
    proof
      assume "res = Inr new"
      then show ?thesis using row col by auto
    next
      assume "\<exists>e. e \<noteq> ErrRecordNotFound \<and> res = Inl (Errorf ''get notification by id %d: %w'' [Uint i] e)"
      then show ?thesis using row col assms(3) by (auto intro!: exI [of _ new])
    qed
  qed
qed

definition unread_notification :: struct where
  "unread_notification = [(''id'', Uint 1), (''user_id'', Uint 7), (''read_status'', Bool False)]"

definition demo_notifications :: "struct mem_table" where
  "demo_notifications = \<lparr>mt_next = 2, mt_rows = [(1, unread_notification)]\<rparr>"

lemma demo_notifications_ok: "mem_table_ok struct_model demo_notifications"
  by (simp add: mem_table_ok_def demo_notifications_def unread_notification_def struct_model_def column_def)

lemma demo_mark_read:
  "notification_mark_read (mem_gorm struct_model (\<lambda>_. False)) 1 demo_notifications =
     (Inr ((''read_status'', Bool True) # unread_notification),
      \<lparr>mt_next = 2, mt_rows = [(1, (''read_status'', Bool True) # unread_notification)]\<rparr>)"
  by code_simp

theorem notification_marked_witness:
  "\<exists>old. mem_tbl demo_notifications 1 = Some old \<and>
     column ((''read_status'', Bool True) # unread_notification) ''user_id'' = column old ''user_id''"
  using notification_marked [OF structs.gorm_table_axioms demo_notifications_ok _ demo_mark_read] by auto

subsection \<open>Delete\<close>

text \<open>A deleted post is gone: it is not found, not deleted again and in no list.\<close>

lemma content_deleted:
  assumes "gorm_table db tbl content_col auto stamps dflt ok" and "ok s" and "content_delete db i s = (None, s')"
  shows "\<exists>e. content_get_by_id db i s' = Inl e"
    and "content_delete db i s' = (y, s'') \<Longrightarrow> y \<noteq> None"
    and "content_list_by_user_id db user limit offset s' = Inr rs \<Longrightarrow> i \<notin> ct_id ` set rs"
proof -
  note crud = content_crud [OF assms(1)]
  show "\<exists>e. content_get_by_id db i s' = Inl e" by (rule crud.delete_get [OF crud assms(2,3)])
  show "content_delete db i s' = (y, s'') \<Longrightarrow> y \<noteq> None" using crud.delete_twice [OF crud assms(2,3)] by blast
  have ok: "ok s'" and gone: "tbl s' i = None"
    using crud.delete_keeps_ok [OF crud assms(2,3)] crud.delete_done [OF crud assms(2,3)] by auto
  assume "content_list_by_user_id db user limit offset s' = Inr rs"
  then have page: "list_rows ''list content by user id %d: %w'' [Uint user] db 20 (Some (Eq ''user_id'' (Uint user)))
      [(''creation_date'', DESC)] limit offset s' = Inr rs"
    by (simp only: content_list_by_user_id_def)
  have rows: "set rs \<subseteq> ran (tbl s')"
    by (rule gorm_table.list_row_cases [OF assms(1) ok _ page]) (auto dest: in_set_takeD in_set_dropD)
  show "i \<notin> ct_id ` set rs"
  proof
    assume "i \<in> ct_id ` set rs"
    then obtain r j where r: "ct_id r = i" "tbl s' j = Some r" using rows by (auto simp: ran_def)
    then have "j = i" using gorm_table.keyed [OF assms(1) ok r(2)] by (simp add: content_col_def column_def)
    then show False using r(2) gone by simp
  qed
qed

end
