(* ===== verification/Lifecycle.thy ===== *)
theory Lifecycle
  imports Config AuthService
begin

text \<open>
  The life of the two processes: \<^verbatim>\<open>main\<close> of \<^verbatim>\<open>cmd/dispatcher/main.go\<close> and \<^verbatim>\<open>cmd/gateway/main.go\<close>, the
  opening of the Redis client (\<^verbatim>\<open>internal/redisclient/redisclient.go\<close>) and of the logger
  (\<^verbatim>\<open>internal/logger/logger.go\<close>).

  A process is the list of its actions, for every answer that its environment can give
  (\<open>process_env\<close>): the variables, whether Redis answers the ping, whether the pool of database
  connections can be made, what ends the serving, and what \<^verbatim>\<open>Shutdown\<close> returns. A \<^verbatim>\<open>defer\<close> adds an
  action to the front of a list that is carried along; a return appends that list to the actions,
  and \<^verbatim>\<open>os.Exit\<close> drops it. What is served is the router of \<open>Dispatcher\<close>, with the secret named in
  \<open>Listen\<close>; the log lines of the requests are part of that router and not of these lists. The goroutine that listens has either run before the signal arrived or not at all.
\<close>

subsection \<open>Logger and Redis client\<close>

record slogger =
  sl_json :: bool
  sl_level :: log_level
  sl_add_source :: bool
  sl_service :: string

definition logger_new :: "string \<Rightarrow> string \<Rightarrow> string \<Rightarrow> slogger" where
  "logger_new env level service =
     \<lparr>sl_json = (env = env_prod), sl_level = parse_level level, sl_add_source = (env = env_dev), sl_service = service\<rparr>"

datatype log_attr = AttrStr string | AttrConfig "(string, shown) gomap"

datatype resource = Signals | RedisClient | RedisBus | Pool | FeedHub | ShutdownTimer

record http_server =
  sv_addr :: string
  sv_read_header_timeout :: duration
  sv_read_timeout :: duration
  sv_write_timeout :: duration
  sv_idle_timeout :: duration
  sv_jwt_secret :: bytes

datatype action =
    Stderr string config_error
  | Log slogger log_level string "(string \<times> log_attr) list"
  | Opened resource
  | Closed resource
  | Listen http_server "auth_config option"
  | Shutdown
  | Exit nat

definition log_at :: "slogger \<Rightarrow> log_level \<Rightarrow> string \<Rightarrow> (string \<times> log_attr) list \<Rightarrow> action list" where
  "log_at log level msg attrs = (if sl_level log \<le> level then [Log log level msg attrs] else [])"

definition seconds :: "int \<Rightarrow> duration" where
  "seconds n = n * 1000000000"

record redis_options =
  ro_addr :: string
  ro_password :: string
  ro_db :: int
  ro_dial_timeout :: duration
  ro_read_timeout :: duration
  ro_write_timeout :: duration
  ro_pool_size :: int
  ro_min_idle_conns :: int

type_synonym ping = "redis_options \<Rightarrow> duration \<Rightarrow> string option"

text \<open>The client is closed again if the server does not answer in time.\<close>

definition redis_new :: "ping \<Rightarrow> string \<Rightarrow> string \<Rightarrow> int \<Rightarrow> action list \<times> string option" where
  "redis_new ping addr password db =
     (let client = \<lparr>ro_addr = addr, ro_password = password, ro_db = db, ro_dial_timeout = seconds 5,
                    ro_read_timeout = seconds 3, ro_write_timeout = seconds 3, ro_pool_size = 10, ro_min_idle_conns = 2\<rparr>
      in case ping client (seconds 2) of
           Some err \<Rightarrow> ([Opened RedisClient, Closed RedisClient], Some (''ping redis at '' @ addr @ '': '' @ err))
         | None \<Rightarrow> ([Opened RedisClient], None))"

subsection \<open>Serving until the end\<close>

datatype stop = SignalBeforeListen | SignalReceived | ServerFailed string

definition serve ::
    "slogger \<Rightarrow> string \<Rightarrow> http_server \<Rightarrow> auth_config option \<Rightarrow> stop \<Rightarrow> string option \<Rightarrow> action list" where
  "serve log name srv auth stop down =
     (case stop of
        SignalBeforeListen \<Rightarrow> []
      | _ \<Rightarrow> log_at log LevelInfo ''http server listening'' [(''addr'', AttrStr (sv_addr srv))] @ [Listen srv auth]) @
     (case stop of
        ServerFailed err \<Rightarrow> log_at log LevelError ''http server failed'' [(''error'', AttrStr err)]
      | _ \<Rightarrow> log_at log LevelInfo ''shutdown signal received, stopping'' []) @
     [Opened ShutdownTimer, Shutdown] @
     (case down of
        Some err \<Rightarrow> log_at log LevelError ''http server shutdown failed'' [(''error'', AttrStr err)]
      | None \<Rightarrow> []) @
     log_at log LevelInfo (name @ '' stopped'') []"

subsection \<open>The two processes\<close>

record process_env =
  pe_environ :: environ
  pe_parse_dur :: "string \<Rightarrow> string + duration"
  pe_show_dur :: "duration \<Rightarrow> string"
  pe_ping :: ping
  pe_pool :: "string \<Rightarrow> string option"
  pe_stop :: stop
  pe_shutdown :: "string option"

definition dispatcher_server :: "config \<Rightarrow> http_server" where
  "dispatcher_server cfg =
     \<lparr>sv_addr = cf_dispatcher_addr cfg, sv_read_header_timeout = seconds 5, sv_read_timeout = seconds 15,
      sv_write_timeout = seconds 15, sv_idle_timeout = seconds 60, sv_jwt_secret = cf_jwt_secret cfg\<rparr>"

definition gateway_server :: "config \<Rightarrow> http_server" where
  "gateway_server cfg =
     \<lparr>sv_addr = cf_gateway_addr cfg, sv_read_header_timeout = seconds 5, sv_read_timeout = 0,
      sv_write_timeout = 0, sv_idle_timeout = seconds 120, sv_jwt_secret = cf_jwt_secret cfg\<rparr>"

definition auth_settings :: "config \<Rightarrow> auth_config" where
  "auth_settings cfg =
     \<lparr>ac_secret = cf_jwt_secret cfg, ac_access_ttl = cf_jwt_access_ttl cfg, ac_refresh_ttl = cf_jwt_refresh_ttl cfg\<rparr>"

definition dispatcher_main :: "process_env \<Rightarrow> action list" where
  "dispatcher_main e =
     (case load_config (pe_parse_dur e) (pe_environ e) of
        Inl err \<Rightarrow> [Stderr ''dispatcher'' err, Exit 1]
      | Inr cfg \<Rightarrow>
          (let log = logger_new (cf_app_env cfg) (cf_log_level cfg) ''dispatcher'';
               done = log_at log LevelInfo ''starting''
                 [(''addr'', AttrStr (cf_dispatcher_addr cfg)), (''config'', AttrConfig (redacted (pe_show_dur e) cfg))] @
                 [Opened Signals];
               defers = [Closed Signals];
               (dial, res) = redis_new (pe_ping e) (cf_redis_addr cfg) (cf_redis_password cfg) (cf_redis_db cfg);
               done = done @ dial
           in case res of
                Some err \<Rightarrow> done @ log_at log LevelError ''failed to connect to redis'' [(''error'', AttrStr err)] @ [Exit 1]
              | None \<Rightarrow>
                  (let done = done @ [Opened RedisBus] @ log_at log LevelInfo ''redis and pubsub ready'' [];
                       defers = [Closed RedisBus, Closed RedisClient] @ defers
                   in case pe_pool e (cf_postgres_dsn cfg) of
                        Some err \<Rightarrow>
                          done @ log_at log LevelError ''failed to connect to postgres'' [(''error'', AttrStr err)] @ [Exit 1]
                      | None \<Rightarrow>
                          (let done = done @ [Opened Pool] @ log_at log LevelInfo ''db connected'' [];
                               defers = [Closed Pool] @ defers
                           in done @
                              serve log ''dispatcher'' (dispatcher_server cfg) (Some (auth_settings cfg)) (pe_stop e) (pe_shutdown e) @
                              [Closed ShutdownTimer] @ defers))))"

definition gateway_main :: "process_env \<Rightarrow> action list" where
  "gateway_main e =
     (case load_config (pe_parse_dur e) (pe_environ e) of
        Inl err \<Rightarrow> [Stderr ''gateway'' err, Exit 1]
      | Inr cfg \<Rightarrow>
          (let log = logger_new (cf_app_env cfg) (cf_log_level cfg) ''gateway'';
               done = log_at log LevelInfo ''starting''
                 [(''gateway_id'', AttrStr (cf_gateway_id cfg)), (''addr'', AttrStr (cf_gateway_addr cfg)),
                  (''config'', AttrConfig (redacted (pe_show_dur e) cfg))] @
                 [Opened Signals];
               defers = [Closed Signals];
               (dial, res) = redis_new (pe_ping e) (cf_redis_addr cfg) (cf_redis_password cfg) (cf_redis_db cfg);
               done = done @ dial
           in case res of
                Some err \<Rightarrow> done @ log_at log LevelError ''failed to connect to redis'' [(''error'', AttrStr err)] @ [Exit 1]
              | None \<Rightarrow>
                  (let done = done @ [Opened RedisBus] @ log_at log LevelInfo ''redis and pubsub ready'' [] @ [Opened FeedHub];
                       defers = [Closed FeedHub, Closed RedisBus, Closed RedisClient] @ defers
                   in done @ serve log ''gateway'' (gateway_server cfg) None (pe_stop e) (pe_shutdown e) @
                      [Closed ShutdownTimer] @ defers)))"

text \<open>
  \<^verbatim>\<open>InitDB\<close> of \<^verbatim>\<open>internal/db/db.go\<close>, which no process calls: what it writes, and its exit status if
  \<^verbatim>\<open>log.Fatalf\<close> ends the process.
\<close>

definition init_db :: "(string \<Rightarrow> string option) \<Rightarrow> string \<times> nat option" where
  "init_db open_gorm =
     (let dsn = ''host=localhost user=postgres password=yourpassword dbname=social_app_db port=5432 sslmode=disable''
      in case open_gorm dsn of
           Some err \<Rightarrow> (''Failed to connect to database: '' @ err, Some 1)
         | None \<Rightarrow> (''Database connection established.'', None))"

subsection \<open>Opening and closing\<close>

text \<open>
  \<open>open_after st as\<close> follows a stack of open resources: only the one opened last may be closed.
\<close>

fun open_after :: "resource list \<Rightarrow> action list \<Rightarrow> resource list option" where
  "open_after st [] = Some st"
| "open_after st (Opened r # as) = open_after (r # st) as"
| "open_after st (Closed r # as) =
     (case st of [] \<Rightarrow> None | r' # st' \<Rightarrow> if r = r' then open_after st' as else None)"
| "open_after st (a # as) = open_after st as"

lemma open_after_append [simp]:
  "open_after st (xs @ ys) = Option.bind (open_after st xs) (\<lambda>st. open_after st ys)"
  by (induction st xs rule: open_after.induct) (auto split: list.splits)

lemma open_after_log [simp]: "open_after st (log_at l v m a) = Some st"
  by (simp add: log_at_def)

lemma open_after_serve [simp]: "open_after st (serve l n srv auth stop down) = Some (ShutdownTimer # st)"
  by (simp add: serve_def split: stop.splits option.splits)

lemma log_at_only [simp]:
  "Shutdown \<notin> set (log_at l v m a)" "Closed r \<notin> set (log_at l v m a)" "Exit n \<notin> set (log_at l v m a)"
  "Listen srv auth \<notin> set (log_at l v m a)"
  by (simp_all add: log_at_def)

lemma serve_parts:
  obtains pre post where "serve l n srv auth stop down = pre @ Shutdown # post" "\<And>r. Closed r \<notin> set pre"
    "\<And>k. Exit k \<notin> set pre \<union> set post"
proof -
  let ?listen = "case stop of SignalBeforeListen \<Rightarrow> []
    | _ \<Rightarrow> log_at l LevelInfo ''http server listening'' [(''addr'', AttrStr (sv_addr srv))] @ [Listen srv auth]"
  let ?ended = "case stop of ServerFailed err \<Rightarrow> log_at l LevelError ''http server failed'' [(''error'', AttrStr err)]
    | _ \<Rightarrow> log_at l LevelInfo ''shutdown signal received, stopping'' []"
  let ?down = "case down of Some err \<Rightarrow> log_at l LevelError ''http server shutdown failed'' [(''error'', AttrStr err)]
    | None \<Rightarrow> []"
  show thesis
    by (rule that [of "?listen @ ?ended @ [Opened ShutdownTimer]" "?down @ log_at l LevelInfo (n @ '' stopped'') []"])
      (auto simp: serve_def split: stop.splits option.splits)
qed

text \<open>A process that starts up to its router closes everything in order; else it exits with 1.\<close>

definition orderly :: "action list \<Rightarrow> bool" where
  "orderly t \<longleftrightarrow>
     (if Shutdown \<in> set t
      then open_after [] t = Some [] \<and> (\<forall>n. Exit n \<notin> set t) \<and>
           (\<exists>pre post. t = pre @ Shutdown # post \<and> (\<forall>r. Closed r \<notin> set pre))
      else last t = Exit 1 \<and> (\<forall>srv auth. Listen srv auth \<notin> set t))"

lemma orderly_served:
  assumes "open_after [] (start @ serve l n srv auth stop down @ defers) = Some []"
    and "\<And>r. Closed r \<notin> set start" and "\<And>k. Exit k \<notin> set start \<union> set defers"
  shows "orderly (start @ serve l n srv auth stop down @ defers)"
proof (rule serve_parts [of l n srv auth stop down])
  fix pre post
  assume s: "serve l n srv auth stop down = pre @ Shutdown # post" "\<And>r. Closed r \<notin> set pre"
    "\<And>k. Exit k \<notin> set pre \<union> set post"
  let ?t = "start @ serve l n srv auth stop down @ defers"
  have "?t = (start @ pre) @ Shutdown # (post @ defers) \<and> (\<forall>r. Closed r \<notin> set (start @ pre))"
    using assms(2) s(2) by (simp add: s(1))
  then have "\<exists>p q. ?t = p @ Shutdown # q \<and> (\<forall>r. Closed r \<notin> set p)" by blast
  moreover have "\<forall>k. Exit k \<notin> set ?t" using assms(3) s(3) by (auto simp: s(1))
  moreover have "Shutdown \<in> set ?t" by (simp add: s(1))
  ultimately show ?thesis using assms(1) unfolding orderly_def by (simp only: if_True simp_thms)
qed

lemma orderly_failed: "Shutdown \<notin> set t \<Longrightarrow> (\<And>srv auth. Listen srv auth \<notin> set t) \<Longrightarrow> orderly (t @ [Exit 1])"
  by (simp add: orderly_def)

text \<open>The outcome of \<^verbatim>\<open>redisclient.New\<close>: a client that is open, or none.\<close>

lemma redis_new_cases:
  obtains (failed) err where "redis_new ping addr pw db = ([Opened RedisClient, Closed RedisClient], Some err)"
  | (connected) "redis_new ping addr pw db = ([Opened RedisClient], None)"
proof -
  have "(\<exists>err. redis_new ping addr pw db = ([Opened RedisClient, Closed RedisClient], Some err)) \<or>
      redis_new ping addr pw db = ([Opened RedisClient], None)"
    by (simp add: redis_new_def Let_def split: option.split)
  then show thesis using that by blast
qed

lemma dispatcher_orderly: "orderly (dispatcher_main e)"
proof (cases "load_config (pe_parse_dur e) (pe_environ e)")
  case (Inl err)
  then show ?thesis using orderly_failed [of "[Stderr ''dispatcher'' err]"] by (simp add: dispatcher_main_def)
next
  case (Inr cfg)
  let ?log = "logger_new (cf_app_env cfg) (cf_log_level cfg) ''dispatcher''"
  let ?start = "log_at ?log LevelInfo ''starting'' [(''addr'', AttrStr (cf_dispatcher_addr cfg)),
    (''config'', AttrConfig (redacted (pe_show_dur e) cfg))] @ [Opened Signals]"
  let ?ready = "?start @ [Opened RedisClient, Opened RedisBus] @ log_at ?log LevelInfo ''redis and pubsub ready'' []"
  show ?thesis
  proof (rule redis_new_cases [of "pe_ping e" "cf_redis_addr cfg" "cf_redis_password cfg" "cf_redis_db cfg"])
    fix err
    assume "redis_new (pe_ping e) (cf_redis_addr cfg) (cf_redis_password cfg) (cf_redis_db cfg) =
      ([Opened RedisClient, Closed RedisClient], Some err)"
    with Inr have t: "dispatcher_main e = (?start @ [Opened RedisClient, Closed RedisClient] @
        log_at ?log LevelError ''failed to connect to redis'' [(''error'', AttrStr err)]) @ [Exit 1]"
      by (simp add: dispatcher_main_def Let_def)
    show ?thesis unfolding t by (rule orderly_failed) simp_all
  next
    assume dial: "redis_new (pe_ping e) (cf_redis_addr cfg) (cf_redis_password cfg) (cf_redis_db cfg) =
      ([Opened RedisClient], None)"
    show ?thesis
    proof (cases "pe_pool e (cf_postgres_dsn cfg)")
      case (Some err)
      with Inr dial have t: "dispatcher_main e = (?ready @
          log_at ?log LevelError ''failed to connect to postgres'' [(''error'', AttrStr err)]) @ [Exit 1]"
        by (simp add: dispatcher_main_def Let_def)
      show ?thesis unfolding t by (rule orderly_failed) simp_all
    next
      case None
      with Inr dial have t: "dispatcher_main e =
          (?ready @ [Opened Pool] @ log_at ?log LevelInfo ''db connected'' []) @
          serve ?log ''dispatcher'' (dispatcher_server cfg) (Some (auth_settings cfg)) (pe_stop e) (pe_shutdown e) @
          [Closed ShutdownTimer, Closed Pool, Closed RedisBus, Closed RedisClient, Closed Signals]"
        by (simp add: dispatcher_main_def Let_def)
      show ?thesis unfolding t by (rule orderly_served) simp_all
    qed
  qed
qed

lemma gateway_orderly: "orderly (gateway_main e)"
proof (cases "load_config (pe_parse_dur e) (pe_environ e)")
  case (Inl err)
  then show ?thesis using orderly_failed [of "[Stderr ''gateway'' err]"] by (simp add: gateway_main_def)
next
  case (Inr cfg)
  let ?log = "logger_new (cf_app_env cfg) (cf_log_level cfg) ''gateway''"
  let ?start = "log_at ?log LevelInfo ''starting'' [(''gateway_id'', AttrStr (cf_gateway_id cfg)),
    (''addr'', AttrStr (cf_gateway_addr cfg)), (''config'', AttrConfig (redacted (pe_show_dur e) cfg))] @ [Opened Signals]"
  show ?thesis
  proof (rule redis_new_cases [of "pe_ping e" "cf_redis_addr cfg" "cf_redis_password cfg" "cf_redis_db cfg"])
    fix err
    assume "redis_new (pe_ping e) (cf_redis_addr cfg) (cf_redis_password cfg) (cf_redis_db cfg) =
      ([Opened RedisClient, Closed RedisClient], Some err)"
    with Inr have t: "gateway_main e = (?start @ [Opened RedisClient, Closed RedisClient] @
        log_at ?log LevelError ''failed to connect to redis'' [(''error'', AttrStr err)]) @ [Exit 1]"
      by (simp add: gateway_main_def Let_def)
    show ?thesis unfolding t by (rule orderly_failed) simp_all
  next
    assume "redis_new (pe_ping e) (cf_redis_addr cfg) (cf_redis_password cfg) (cf_redis_db cfg) =
      ([Opened RedisClient], None)"
    with Inr have t: "gateway_main e =
        (?start @ [Opened RedisClient, Opened RedisBus] @ log_at ?log LevelInfo ''redis and pubsub ready'' [] @ [Opened FeedHub]) @
        serve ?log ''gateway'' (gateway_server cfg) None (pe_stop e) (pe_shutdown e) @
        [Closed ShutdownTimer, Closed FeedHub, Closed RedisBus, Closed RedisClient, Closed Signals]"
      by (simp add: gateway_main_def Let_def)
    show ?thesis unfolding t by (rule orderly_served) simp_all
  qed
qed

text \<open>
  C34. Whatever the environment answers, each process either stops before it has listened, with
  exit status 1, or it serves, shuts its server down before it closes anything, and then closes
  every resource it has opened, once and in the reverse order.
\<close>

theorem processes_orderly: "orderly (dispatcher_main e) \<and> orderly (gateway_main e)"
  by (simp add: dispatcher_orderly gateway_orderly)

text \<open>
  What listens is configured by a valid configuration: its secret has at least 32 bytes, the
  services of the dispatcher sign with the secret that the router checks, and Redis has answered.
\<close>

lemma listen_serve:
  "Listen srv auth \<in> set (serve l n srv' auth' stop down) \<Longrightarrow> srv = srv' \<and> auth = auth'"
  by (auto simp: serve_def split: stop.splits option.splits)

lemma dispatcher_listens:
  assumes "Listen srv auth \<in> set (dispatcher_main e)"
  shows "\<exists>cfg. load_config (pe_parse_dur e) (pe_environ e) = Inr cfg \<and> srv = dispatcher_server cfg \<and>
    auth = Some (auth_settings cfg) \<and> ac_secret (auth_settings cfg) = sv_jwt_secret srv \<and> 32 \<le> length (sv_jwt_secret srv)"
proof (cases "load_config (pe_parse_dur e) (pe_environ e)")
  case (Inl err)
  then show ?thesis using assms by (simp add: dispatcher_main_def)
next
  case (Inr cfg)
  have "32 \<le> length (cf_jwt_secret cfg)" using Inr by (auto simp: load_config_valid)
  moreover have "srv = dispatcher_server cfg \<and> auth = Some (auth_settings cfg)"
    by (rule redis_new_cases [of "pe_ping e" "cf_redis_addr cfg" "cf_redis_password cfg" "cf_redis_db cfg"])
      (use assms Inr in \<open>auto simp: dispatcher_main_def Let_def split: option.splits dest: listen_serve\<close>)
  ultimately show ?thesis using Inr by (auto simp: dispatcher_server_def auth_settings_def)
qed

subsection \<open>What main writes\<close>

text \<open>
  The lines among the actions of \<^verbatim>\<open>main\<close>: \<^verbatim>\<open>fmt.Fprintf(os.Stderr, ...)\<close> and its own calls of the logger. The
  request lines, which \<^verbatim>\<open>mw.Logger\<close> writes while the router serves, are \<open>log_http\<close> in \<open>Dispatcher\<close>, the
  error lines of the feed service are \<open>fd_log\<close> in \<open>FeedService\<close>.
\<close>

definition written :: "action list \<Rightarrow> action list" where
  "written t = filter (\<lambda>a. case a of Stderr _ _ \<Rightarrow> True | Log _ _ _ _ \<Rightarrow> True | _ \<Rightarrow> False) t"

lemma written_append [simp]: "written (xs @ ys) = written xs @ written ys"
  by (simp add: written_def)

lemma written_log [simp]: "written (log_at l v m a) = log_at l v m a"
  by (simp add: log_at_def written_def)

lemma written_other [simp]:
  "written [] = []" "written (Opened r # as) = written as" "written (Closed r # as) = written as"
  "written (Listen srv auth # as) = written as" "written (Shutdown # as) = written as"
  "written (Exit n # as) = written as"
  by (simp_all add: written_def)

lemma load_config_secret:
  assumes "32 \<le> length s" and "32 \<le> length s'"
  shows "load_config p (env(''JWT_SECRET'' \<mapsto> s')) =
    sum_map (\<lambda>c. c\<lparr>cf_jwt_secret := s'\<rparr>) (load_config p (env(''JWT_SECRET'' \<mapsto> s)))"
proof -
  have other: "get_env (env(''JWT_SECRET'' \<mapsto> x)) k d = get_env env k d" if "k \<noteq> ''JWT_SECRET''" for x k d
    using that by (simp add: get_env_def)
  have secret: "get_env (env(''JWT_SECRET'' \<mapsto> x)) ''JWT_SECRET'' d = x" for x d by (simp add: get_env_def)
  show ?thesis
    using assms
    by (simp add: load_config_def Let_def other secret validate_def sum_bind_def sum_map_def map_error_def split: sum.split)
qed

lemma redacted_secret: "redacted show_dur (c\<lparr>cf_jwt_secret := s\<rparr>) = redacted show_dur c"
  by (simp add: redacted_def)

lemma written_serve:
  "written (serve l n srv auth stop down) = written (serve l n (srv\<lparr>sv_jwt_secret := s\<rparr>) auth' stop down)"
  by (simp add: serve_def split: stop.splits option.splits)

definition with_secret :: "process_env \<Rightarrow> bytes \<Rightarrow> process_env" where
  "with_secret e s = e\<lparr>pe_environ := (pe_environ e)(''JWT_SECRET'' \<mapsto> s)\<rparr>"

text \<open>
  C35. The lines that \<^verbatim>\<open>main\<close> itself writes to the log or to the standard error, from the start over a
  failure or the serving to the shutdown, do not contain the JWT secret: for two secrets of the required
  length, with all the environment answers the same, both processes write the same lines of these, at
  every log level and however they end. The lines written while requests are served are not among
  them: a request line shows the status of its answer, which depends on the secret in that a token
  is accepted under one secret and not under another.
\<close>

theorem main_lines_without_secret:
  assumes "32 \<le> length s" and "32 \<le> length s'"
  shows "written (dispatcher_main (with_secret e s')) = written (dispatcher_main (with_secret e s)) \<and>
    written (gateway_main (with_secret e s')) = written (gateway_main (with_secret e s))"
proof (cases "load_config (pe_parse_dur e) ((pe_environ e)(''JWT_SECRET'' \<mapsto> s))")
  case (Inl err)
  then show ?thesis
    by (simp add: dispatcher_main_def gateway_main_def with_secret_def load_config_secret [OF assms])
next
  case (Inr cfg)
  let ?cfg = "cfg\<lparr>cf_jwt_secret := s'\<rparr>"
  have srv: "dispatcher_server ?cfg = (dispatcher_server cfg)\<lparr>sv_jwt_secret := s'\<rparr>"
    "gateway_server ?cfg = (gateway_server cfg)\<lparr>sv_jwt_secret := s'\<rparr>"
    by (simp_all add: dispatcher_server_def gateway_server_def)
  have serve: "written (serve l n ((dispatcher_server cfg)\<lparr>sv_jwt_secret := s'\<rparr>) (Some (auth_settings ?cfg)) st d) =
      written (serve l n (dispatcher_server cfg) (Some (auth_settings cfg)) st d)"
    "written (serve l n ((gateway_server cfg)\<lparr>sv_jwt_secret := s'\<rparr>) None st d) =
      written (serve l n (gateway_server cfg) None st d)" for l n st d
    by (rule written_serve [symmetric])+
  show ?thesis
    by (rule redis_new_cases [of "pe_ping e" "cf_redis_addr cfg" "cf_redis_password cfg" "cf_redis_db cfg"])
      (simp_all add: dispatcher_main_def gateway_main_def with_secret_def load_config_secret [OF assms] Inr Let_def
        redacted_secret srv serve split: option.split)
qed

definition demo_process :: process_env where
  "demo_process = \<lparr>pe_environ = (\<lambda>_. None), pe_parse_dur = (\<lambda>_. Inr 60), pe_show_dur = (\<lambda>_. ''1m0s''),
     pe_ping = (\<lambda>_ _. None), pe_pool = (\<lambda>_. None), pe_stop = SignalReceived, pe_shutdown = None\<rparr>"

theorem main_lines_without_secret_witness:
  "written (gateway_main (with_secret demo_process (replicate 32 (CHR ''a'')))) =
   written (gateway_main (with_secret demo_process (replicate 32 (CHR ''b''))))"
  using main_lines_without_secret [of "replicate 32 (CHR ''b'')" "replicate 32 (CHR ''a'')" demo_process] by simp

end
