(* ===== verification/Spec2Isabelle.thy ===== *)
theory Spec2Isabelle
  imports FeedSystem ChatSystem Config SseHandler Dispatcher RepoProps Lifecycle
begin

text \<open>
  A verification library for the back end of a social media application, written in Go.

  \<^bold>\<open>The program.\<close> Two processes share Redis and PostgreSQL. The dispatcher
  (\<^verbatim>\<open>cmd/dispatcher/main.go\<close>) answers the HTTP requests that write: accounts and sessions under
  \<^verbatim>\<open>/auth\<close>, posts, comments and reactions under \<^verbatim>\<open>/posts\<close>. What it stores it also publishes, in an
  envelope, on the Redis channel of the post. The gateway (\<^verbatim>\<open>cmd/gateway/main.go\<close>) holds the browsers
  that watch posts: each is an event stream, and a hub keeps one Redis subscription per watched
  post and fans its messages out to the streams. A second hub does the same for chat rooms. Beside
  this there is an older set of repositories over gorm, which no process uses.

  \<^bold>\<open>How Go is modelled.\<close> A struct is a record, an enumeration a datatype, a string or byte slice a
  char list (one \<open>char\<close> is one byte), a Go map an association list with distinct keys whose order
  is the order in which \<^verbatim>\<open>range\<close> happens to visit it (\<open>Prelude\<close>). A method is a function from the
  receiver to the changed receiver and the results; an error is an \<open>Inl\<close>, a panic an \<open>Inl\<close> of type
  \<open>panic\<close>. Channels are cells of a heap (\<open>GoChan\<close>), so that aliasing and the panics of sending and
  closing are visible. What a mutex makes atomic is one step; goroutines and requests interleave as
  the steps of an inductive relation, in any order. Code outside the repository (the Redis client,
  bcrypt, the JWT library, chi, uuid, gorm, the connection pool, the clock, randomness) is an
  argument of the definitions that use it; what the code relies on is a named hypothesis
  (\<open>redis_commands_ok\<close>, \<open>repos_ok\<close>, \<open>gorm_table\<close> and so on), and every theorem that has one also has a
  witness on a concrete instance.

  \<^bold>\<open>Theories, from the bottom up.\<close>

  \<^item> \<open>Prelude\<close>: results, panics, Go maps; \<open>GoChan\<close>: channels; \<open>GoStrings\<close>: the part of \<^verbatim>\<open>strings\<close> and
    \<^verbatim>\<open>strconv\<close> that is used.
  \<^item> \<open>Channels\<close> (\<^verbatim>\<open>internal/channels\<close>), \<open>Pubsub\<close> (\<^verbatim>\<open>internal/pubsub/pubsub.go\<close>, its documented contract
    as the locale \<open>pubsub_bus\<close>), \<open>RedisBus\<close> (\<^verbatim>\<open>internal/pubsub/redis.go\<close>, which is shown to keep the
    contract by interpreting the locale).
  \<^item> \<open>Registry\<close>: the counting argument both hubs share; \<open>Bridges\<close>: their bridge goroutines.
    \<open>Subscription\<close> (\<^verbatim>\<open>internal/subscription\<close>), \<open>FeedHub\<close> (\<^verbatim>\<open>internal/feed/hub.go\<close>), \<open>FeedSystem\<close> (the
    whole gateway as a transition system over the Redis bus). \<open>ChatStore\<close> (\<^verbatim>\<open>internal/chat/wsstore.go\<close>),
    \<open>ChatHub\<close> (\<^verbatim>\<open>internal/chat/hub.go\<close>), \<open>ChatSystem\<close> likewise.
  \<^item> \<open>Json\<close>, \<open>JsonPrint\<close>, \<open>Encoding\<close>, \<open>Sha256\<close>, \<open>Sha256Eval\<close>: the parts of the standard library that decide what
    is accepted and sent. \<open>Http\<close> (\<^verbatim>\<open>internal/httputil\<close>, and requests and responses of \<^verbatim>\<open>net/http\<close>),
    \<open>Sse\<close> (\<^verbatim>\<open>internal/sse\<close>, \<^verbatim>\<open>internal/events\<close>).
  \<^item> \<open>Config\<close> (\<^verbatim>\<open>internal/config\<close>, \<^verbatim>\<open>internal/logger\<close>), \<open>Tokens\<close> (\<^verbatim>\<open>internal/auth\<close>), \<open>Middleware\<close>
    (\<^verbatim>\<open>internal/middleware\<close>), \<open>SseHandler\<close> (\<^verbatim>\<open>internal/handlers/sse.go\<close>).
  \<^item> \<open>AuthService\<close> (\<^verbatim>\<open>internal/services/auth.go\<close>), \<open>AuthMemory\<close> (tables in memory for the witnesses),
    \<open>AuthProps\<close> (its theorems), \<open>FeedService\<close> (\<^verbatim>\<open>internal/services/feed.go\<close>), \<open>AuthHandler\<close> and \<open>FeedHandler\<close>
    (\<^verbatim>\<open>internal/handlers\<close>), \<open>Dispatcher\<close> (the routers of both processes, composed as in \<^verbatim>\<open>main\<close>).
  \<^item> \<open>Lifecycle\<close>: start and shutdown of both processes as lists of actions, with
    \<^verbatim>\<open>internal/redisclient\<close> and \<^verbatim>\<open>internal/db\<close>.
  \<^item> \<open>Gorm\<close> (what the repositories use of gorm, the locale \<open>gorm_table\<close> of its laws and the contract
    \<open>crud\<close>), \<open>GormMemory\<close> (a table in memory that keeps the laws), \<open>Models\<close> (\<^verbatim>\<open>internal/models\<close>),
    \<open>ContentRepos\<close> and \<open>MessageRepos\<close> (\<^verbatim>\<open>internal/repository\<close>), \<open>RepoProps\<close> (their theorems).

  \<^bold>\<open>What is shown.\<close>

  \<^item> Realtime: no interleaving of joins, leaves, reads, bridge turns, messages and shutdown panics,
    whatever Redis answers; the reference count of a post is the number of its viewers and there is
    exactly one subscription per watched post; a viewer only gets messages of its post, and gets
    each one its buffer has room for; the same for chat rooms, where the two tables of the store
    refine one membership relation. A channel with a consumer has been asked for at Redis and not been
    given up since, and a closed bus stays closed.
  \<^item> Streams: the handler acquires and releases once on every path; what the browser parses is
    exactly what was taken from the channel, as long as the payloads have no line ends; after the hub has been closed the stream ends.
  \<^item> Sessions: a refresh token works once; a reuse revokes all sessions of the user; logout ends
    the session; a login is for the right user, and the access token is accepted from issue to expiry
    and only with an HMAC signature under the server secret.
  \<^item> Requests: the dispatcher answers and logs each exactly once without panic, and the log shows the
    status sent and the bytes written (which for \<^verbatim>\<open>HEAD\<close> are not sent); what moves the bus
    or opens a stream is authenticated; a body is decoded strictly, within its limit; a comment is
    stored and published as it was sent.
  \<^item> Processes: the lines that \<^verbatim>\<open>main\<close> writes do not depend on the JWT secret, and the configuration is
    logged without secrets (but see below for passwords with an at sign); what was opened is closed in reverse order.
  \<^item> Repositories: creation, update, deletion, and what a page of a listing holds.

  Some theorems state a defect as it is: two refreshes with one token can both succeed
  (\<open>refresh_race\<close>); pages ordered by time alone can repeat a row and lose another
  (\<open>comment_pages_repeat\<close>); the redaction of a DSN stops at the first at sign
  (\<open>redact_leaks_after_at\<close>); \<^verbatim>\<open>Release\<close> with an unknown id cuts off a viewer
  (\<open>feed_unknown_release_cuts_viewer\<close>).

  \<^bold>\<open>Bounds.\<close> Event and consumer channels have 64 places, as in the code. The JSON reader has the
  depth limit 10000 of \<^verbatim>\<open>encoding/json\<close> and fuel of twice the length of the text and one, which is
  enough (\<open>json_value_fuel\<close>). Bodies are limited to 1 MiB. Every other recursion is structural or has a
  measure. Times are integers (nanoseconds, of which a
  table keeps microseconds), ids and counters natural numbers or integers, since
  no code computes with them near the end of their range; SHA-256 is on 32-bit words.

  \<^bold>\<open>Granularity.\<close> The turn of a bridge and the turn of a stream are one step each. \<^verbatim>\<open>Refresh\<close> is split
  into its look-up and its rotation, between which another request may run; the other methods of the
  services and of the repositories run as one step, so that a Delete between the UPDATE and the SELECT
  of an update method is not covered. A blocked receive is a turn without effect.

  \<^bold>\<open>Not modelled.\<close> The module does not build as committed: \<^verbatim>\<open>internal/models\<close> declares two packages,
  and the repositories that the services name (\<^verbatim>\<open>UsersRepository\<close>, \<^verbatim>\<open>RefreshTokensRepository\<close>,
  \<^verbatim>\<open>PostsRepository\<close>, \<^verbatim>\<open>CommentsRepository\<close>, \<^verbatim>\<open>ReactionsRepository\<close>), their rows (\<^verbatim>\<open>models.User\<close>,
  \<^verbatim>\<open>RefreshToken\<close>, \<^verbatim>\<open>Post\<close>, \<^verbatim>\<open>Comment\<close>, \<^verbatim>\<open>Reaction\<close>) and the rows of six of the older repositories exist
  nowhere; they are parameters. The association fields of the models are left out, since nothing
  loads them. Wall-clock timeouts of the HTTP server and of Redis are values that are passed on, not
  behaviour; the output format of \<^verbatim>\<open>log/slog\<close>, the SQL migrations and the shell script are left out.
\<close>

end
